(* ===== verification/Prelude.thy ===== *)
theory Prelude
  imports Main "HOL-Library.Word"
begin

text \<open>
  Shared vocabulary of the development: the machine integer types, the outcome of a
  kernel routine, the C idioms that occur in every component (an array access that may
  be out of range, a \<open>for\<close> loop that stops at the first match) and the collections of
  rewrite rules that carry the component proofs.
\<close>

section \<open>Machine integers\<close>

type_synonym u8 = "8 word"
type_synonym u16 = "16 word"
type_synonym u32 = "32 word"

named_theorems const_defs \<open>unfolding of the numeric constants of the headers\<close>
named_theorems op_defs \<open>unfolding of the operations of a component\<close>
named_theorems inv_defs \<open>unfolding of the invariants of a component\<close>

section \<open>Outcome of a kernel routine\<close>

text \<open>
  A routine returns (\<open>Ok\<close>), stops the machine through \<open>panic(msg)\<close> (\<open>Panic\<close>),
  performs an access that C leaves undefined, such as an index outside an array or a
  null dereference (\<open>Undef\<close>, with the place named), loops forever (\<open>Hang\<close>), or gives up
  the processor in \<open>sleep()\<close> (\<open>Block\<close>, with the state in which the scheduler is entered).
\<close>

datatype ('s, 'a) res = Ok 'a | Panic string | Undef string | Hang | Block 's

fun rbind :: "('s, 'a) res \<Rightarrow> ('a \<Rightarrow> ('s, 'b) res) \<Rightarrow> ('s, 'b) res" where
  "rbind (Ok x) f = f x"
| "rbind (Panic m) f = Panic m"
| "rbind (Undef m) f = Undef m"
| "rbind Hang f = Hang"
| "rbind (Block s) f = Block s"

lemma rbind_cong [fundef_cong]:
  "m = m' \<Longrightarrow> (\<And>x. m' = Ok x \<Longrightarrow> f x = f' x) \<Longrightarrow> rbind m f = rbind m' f'"
  by (cases m') auto

lemma rbind_Ok_iff: "rbind m f = Ok y \<longleftrightarrow> (\<exists>x. m = Ok x \<and> f x = Ok y)"
  by (cases m) auto

lemma rbind_OkE [elim]:
  assumes "rbind m f = Ok y"
  obtains x where "m = Ok x" and "f x = Ok y"
  using assms by (cases m) auto

lemma rbind_assoc: "rbind (rbind m f) g = rbind m (\<lambda>x. rbind (f x) g)"
  by (cases m) auto

lemma rbind_if [simp]:
  "rbind (if b then m else m') f = (if b then rbind m f else rbind m' f)"
  by simp

text \<open>An outcome is \<open>safe\<close> when the machine neither panics, nor runs into undefined
  behaviour, nor loops.\<close>

fun safe :: "('s, 'a) res \<Rightarrow> bool" where
  "safe (Ok x) = True"
| "safe (Block s) = True"
| "safe (Panic m) = False"
| "safe (Undef m) = False"
| "safe Hang = False"

fun is_Ok :: "('s, 'a) res \<Rightarrow> bool" where
  "is_Ok (Ok x) = True"
| "is_Ok (Block s) = False"
| "is_Ok (Panic m) = False"
| "is_Ok (Undef m) = False"
| "is_Ok Hang = False"

section \<open>C arrays\<close>

definition aget :: "string \<Rightarrow> 'a list \<Rightarrow> int \<Rightarrow> ('s, 'a) res" where
  "aget w xs i = (if 0 \<le> i \<and> nat i < length xs then Ok (xs ! nat i) else Undef w)"

definition aset :: "string \<Rightarrow> 'a list \<Rightarrow> int \<Rightarrow> 'a \<Rightarrow> ('s, 'a list) res" where
  "aset w xs i x = (if 0 \<le> i \<and> nat i < length xs then Ok (xs[nat i := x]) else Undef w)"

lemma aget_in [simp]: "0 \<le> i \<Longrightarrow> nat i < length xs \<Longrightarrow> aget w xs i = Ok (xs ! nat i)"
  by (simp add: aget_def)

lemma aget_nat [simp]: "i < length xs \<Longrightarrow> aget w xs (int i) = Ok (xs ! i)"
  by (simp add: aget_def)

lemma aget_neg [simp]: "i < 0 \<Longrightarrow> aget w xs i = Undef w"
  by (simp add: aget_def)

lemma aget_over [simp]: "length xs \<le> i \<Longrightarrow> aget w xs (int i) = Undef w"
  by (simp add: aget_def)

lemma aset_nat [simp]: "i < length xs \<Longrightarrow> aset w xs (int i) x = Ok (xs[i := x])"
  by (simp add: aset_def)

lemma aset_in [simp]: "0 \<le> i \<Longrightarrow> nat i < length xs \<Longrightarrow> aset w xs i x = Ok (xs[nat i := x])"
  by (simp add: aset_def)

lemma aset_over [simp]: "length xs \<le> i \<Longrightarrow> aset w xs (int i) x = Undef w"
  by (simp add: aset_def)

section \<open>Loops that stop at the first match\<close>

text \<open>\<open>for(i = lo; i < hi; i++) if(P(i)) ...\<close>: the least matching index, if any.\<close>

function find_from :: "(nat \<Rightarrow> bool) \<Rightarrow> nat \<Rightarrow> nat \<Rightarrow> nat option" where
  "find_from P lo hi =
     (if lo < hi then if P lo then Some lo else find_from P (Suc lo) hi else None)"
  by pat_completeness auto
termination
  by (relation "measure (\<lambda>(P, lo, hi). hi - lo)") auto

declare find_from.simps [simp del]

lemma find_from_SomeD:
  "find_from P lo hi = Some k \<Longrightarrow> lo \<le> k \<and> k < hi \<and> P k \<and> (\<forall>j. lo \<le> j \<and> j < k \<longrightarrow> \<not> P j)"
proof (induction P lo hi rule: find_from.induct)
  case (1 P lo hi)
  show ?case
  proof (cases "lo < hi \<and> \<not> P lo")
    case True
    with 1 have "Suc lo \<le> k \<and> k < hi \<and> P k \<and> (\<forall>j. Suc lo \<le> j \<and> j < k \<longrightarrow> \<not> P j)"
      by (simp add: find_from.simps [of P lo hi])
    with True show ?thesis by (metis Suc_leI Suc_le_lessD le_neq_implies_less less_imp_le)
  next
    case False
    with 1 show ?thesis by (auto simp: find_from.simps [of P lo hi] split: if_splits)
  qed
qed

lemma find_from_NoneD: "find_from P lo hi = None \<Longrightarrow> lo \<le> j \<Longrightarrow> j < hi \<Longrightarrow> \<not> P j"
proof (induction P lo hi rule: find_from.induct)
  case (1 P lo hi)
  show ?case
  proof (cases "j = lo")
    case True
    with 1 show ?thesis by (simp add: find_from.simps [of P lo hi] split: if_splits)
  next
    case False
    with 1 show ?thesis by (simp add: find_from.simps [of P lo hi] split: if_splits)
  qed
qed

lemma find_from_eq_Some_iff:
  "find_from P lo hi = Some k \<longleftrightarrow>
     lo \<le> k \<and> k < hi \<and> P k \<and> (\<forall>j. lo \<le> j \<and> j < k \<longrightarrow> \<not> P j)"
proof
  assume r: "lo \<le> k \<and> k < hi \<and> P k \<and> (\<forall>j. lo \<le> j \<and> j < k \<longrightarrow> \<not> P j)"
  then obtain k' where k': "find_from P lo hi = Some k'"
    using find_from_NoneD by (metis not_None_eq)
  from find_from_SomeD [OF this] r have "k' = k"
    by (metis linorder_neqE_nat)
  with k' show "find_from P lo hi = Some k" by simp
qed (rule find_from_SomeD)

lemma find_from_eq_None_iff: "find_from P lo hi = None \<longleftrightarrow> (\<forall>j. lo \<le> j \<and> j < hi \<longrightarrow> \<not> P j)"
proof
  assume "\<forall>j. lo \<le> j \<and> j < hi \<longrightarrow> \<not> P j"
  then show "find_from P lo hi = None"
    using find_from_SomeD by (metis option.exhaust)
qed (use find_from_NoneD in blast)

lemma find_from_bound: "find_from P lo hi = Some k \<Longrightarrow> k < hi"
  by (simp add: find_from_eq_Some_iff)

section \<open>Lists\<close>

lemma list_update_id_nth: "i < length xs \<Longrightarrow> xs[i := xs ! i] = xs"
  by simp

lemma sum_list_map_update_nat:
  "i < length xs \<Longrightarrow>
     sum_list (map f (xs[i := x])) + f (xs ! i) = sum_list (map f xs) + (f x :: nat)"
  by (induction xs arbitrary: i) (auto split: nat.splits)

lemma distinct_update_notin:
  "distinct xs \<Longrightarrow> x \<notin> set xs \<Longrightarrow> distinct (xs[i := x])"
  by (metis distinct_list_update insert_Diff_single insert_iff Diff_iff)

lemma card_filter_upd:
  assumes "i < n" and "\<not> P i"
  shows "card {j. j < n \<and> (j = i \<or> P j)} = Suc (card {j. j < n \<and> P (j :: nat)})"
proof -
  have "{j. j < n \<and> (j = i \<or> P j)} = insert i {j. j < n \<and> P j}" using assms by auto
  with assms show ?thesis by simp
qed

end
