(* ===== verification/Mmu.thy ===== *)
theory Mmu
  imports Prelude
begin

text \<open>
  The constants and address macros of \<open>param.h\<close>, \<open>memlayout.h\<close> and \<open>mmu.h\<close>: the
  two-level split of a linear address, page rounding on 32-bit words, page table entry
  flags, and the direct map between physical and kernel virtual addresses.
\<close>

unbundle bit_operations_syntax

section \<open>Constants\<close>

definition NPROC :: nat where [simp, const_defs]: "NPROC = 64"
definition KSTACKSIZE :: u32 where [simp, const_defs]: "KSTACKSIZE = 4096"
definition NCPU :: nat where [simp, const_defs]: "NCPU = 8"
definition NOFILE :: nat where [simp, const_defs]: "NOFILE = 16"
definition NFILE :: nat where [simp, const_defs]: "NFILE = 100"
definition NINODE :: nat where [simp, const_defs]: "NINODE = 50"
definition NDEV :: int where [simp, const_defs]: "NDEV = 10"
definition ROOTDEV :: u32 where [simp, const_defs]: "ROOTDEV = 1"
definition MAXARG :: nat where [simp, const_defs]: "MAXARG = 32"
definition MAXOPBLOCKS :: nat where [simp, const_defs]: "MAXOPBLOCKS = 10"
definition LOGSIZE :: nat where [simp, const_defs]: "LOGSIZE = MAXOPBLOCKS * 3"
definition NBUF :: nat where [simp, const_defs]: "NBUF = MAXOPBLOCKS * 3"
definition FSSIZE :: nat where [simp, const_defs]: "FSSIZE = 1000"
definition MAX_PSYC_PAGES :: nat where [simp, const_defs]: "MAX_PSYC_PAGES = 16"
definition MAX_TOTAL_PAGES :: nat where [simp, const_defs]: "MAX_TOTAL_PAGES = 32"
definition DEFAULT_PROCESSES :: int where [simp, const_defs]: "DEFAULT_PROCESSES = 2"

definition EXTMEM :: u32 where [simp, const_defs]: "EXTMEM = 0x100000"
definition PHYSTOP :: u32 where [simp, const_defs]: "PHYSTOP = 0xE000000"
definition DEVSPACE :: u32 where [simp, const_defs]: "DEVSPACE = 0xFE000000"
definition KERNBASE :: u32 where [simp, const_defs]: "KERNBASE = 0x80000000"
definition KERNLINK :: u32 where [simp, const_defs]: "KERNLINK = KERNBASE + EXTMEM"

definition NPDENTRIES :: nat where [simp, const_defs]: "NPDENTRIES = 1024"
definition NPTENTRIES :: nat where [simp, const_defs]: "NPTENTRIES = 1024"
definition PGSIZE :: u32 where [simp, const_defs]: "PGSIZE = 4096"
definition PGSHIFT :: nat where [simp, const_defs]: "PGSHIFT = 12"
definition PTXSHIFT :: nat where [simp, const_defs]: "PTXSHIFT = 12"
definition PDXSHIFT :: nat where [simp, const_defs]: "PDXSHIFT = 22"

definition PTE_P :: u32 where [const_defs]: "PTE_P = 0x001"
definition PTE_W :: u32 where [const_defs]: "PTE_W = 0x002"
definition PTE_U :: u32 where [const_defs]: "PTE_U = 0x004"
definition PTE_A :: u32 where [const_defs]: "PTE_A = 0x020"
definition PTE_PG :: u32 where [const_defs]: "PTE_PG = 0x200"

section \<open>Address macros\<close>

definition V2P :: "u32 \<Rightarrow> u32" where "V2P a = a - KERNBASE"
definition P2V :: "u32 \<Rightarrow> u32" where "P2V a = a + KERNBASE"

definition PDX :: "u32 \<Rightarrow> u32" where "PDX va = drop_bit PDXSHIFT va AND 0x3FF"
definition PTX :: "u32 \<Rightarrow> u32" where "PTX va = drop_bit PTXSHIFT va AND 0x3FF"
definition PGADDR :: "u32 \<Rightarrow> u32 \<Rightarrow> u32 \<Rightarrow> u32" where
  "PGADDR d t off = push_bit PDXSHIFT d OR push_bit PTXSHIFT t OR off"

definition PGROUNDUP :: "u32 \<Rightarrow> u32" where
  "PGROUNDUP sz = (sz + PGSIZE - 1) AND NOT (PGSIZE - 1)"
definition PGROUNDDOWN :: "u32 \<Rightarrow> u32" where
  "PGROUNDDOWN a = a AND NOT (PGSIZE - 1)"

definition PTE_PG_ON :: "u32 \<Rightarrow> u32" where "PTE_PG_ON pte = pte OR PTE_PG"
definition PTE_P_ON :: "u32 \<Rightarrow> u32" where "PTE_P_ON pte = pte OR PTE_P"
definition PTE_A_ON :: "u32 \<Rightarrow> u32" where "PTE_A_ON pte = pte OR PTE_A"
definition PTE_PG_OFF :: "u32 \<Rightarrow> u32" where "PTE_PG_OFF pte = pte AND NOT PTE_PG"
definition PTE_P_OFF :: "u32 \<Rightarrow> u32" where "PTE_P_OFF pte = pte AND NOT PTE_P"
definition PTE_A_OFF :: "u32 \<Rightarrow> u32" where "PTE_A_OFF pte = pte AND NOT PTE_A"

definition PTE_ADDR :: "u32 \<Rightarrow> u32" where "PTE_ADDR pte = pte AND NOT 0xFFF"
definition PTE_FLAGS :: "u32 \<Rightarrow> u32" where "PTE_FLAGS pte = pte AND 0xFFF"

section \<open>Bit-level facts\<close>

lemma mask12: "(0xFFF :: u32) = mask 12" and mask10: "(0x3FF :: u32) = mask 10"
  and mask12': "PGSIZE - 1 = mask 12"
  by (simp_all add: mask_eq_exp_minus_1)

lemma bit_push1 [simp]: "bit (push_bit k (1 :: u32)) n \<longleftrightarrow> n = k \<and> k < 32"
  by (auto simp: bit_simps)

lemma bit_flags [simp]:
  "bit PTE_P n \<longleftrightarrow> n = 0" "bit PTE_W n \<longleftrightarrow> n = 1" "bit PTE_U n \<longleftrightarrow> n = 2"
  "bit PTE_A n \<longleftrightarrow> n = 5" "bit PTE_PG n \<longleftrightarrow> n = 9"
proof -
  have eqs: "PTE_P = push_bit 0 1" "PTE_W = push_bit 1 1" "PTE_U = push_bit 2 1"
    "PTE_A = push_bit 5 1" "PTE_PG = push_bit 9 1"
    by (simp_all add: const_defs)
  show "bit PTE_P n \<longleftrightarrow> n = 0" "bit PTE_W n \<longleftrightarrow> n = 1" "bit PTE_U n \<longleftrightarrow> n = 2"
    "bit PTE_A n \<longleftrightarrow> n = 5" "bit PTE_PG n \<longleftrightarrow> n = 9"
    unfolding eqs bit_push1 by auto
qed

lemma bit_u32_less: "bit (x :: u32) n \<Longrightarrow> n < 32"
  using bit_imp_le_length [of x n] by simp

lemma and_eq_0_bit_iff: "(x AND y = (0 :: u32)) \<longleftrightarrow> (\<forall>n. \<not> (bit x n \<and> bit y n))"
  by (auto simp: bit_eq_iff bit_and_iff dest: bit_u32_less)

lemma and_flag_iff:
  "x AND PTE_P = 0 \<longleftrightarrow> \<not> bit x 0" "x AND PTE_W = 0 \<longleftrightarrow> \<not> bit x 1"
  "x AND PTE_U = 0 \<longleftrightarrow> \<not> bit x 2" "x AND PTE_A = 0 \<longleftrightarrow> \<not> bit x 5"
  "x AND PTE_PG = 0 \<longleftrightarrow> \<not> bit x 9"
  for x :: u32
  by (auto simp: and_eq_0_bit_iff intro: Nat.gr0I)

lemma bit_PTE_ADDR [simp]: "bit (PTE_ADDR p) n \<longleftrightarrow> 12 \<le> n \<and> bit p n"
  by (auto simp: PTE_ADDR_def mask12 bit_simps dest: bit_imp_le_length)

lemma bit_PTE_FLAGS [simp]: "bit (PTE_FLAGS p) n \<longleftrightarrow> n < 12 \<and> bit p n"
  by (auto simp: PTE_FLAGS_def mask12 bit_simps)

lemma bit_PGROUNDDOWN [simp]: "bit (PGROUNDDOWN a) n \<longleftrightarrow> 12 \<le> n \<and> bit a n"
  by (auto simp: PGROUNDDOWN_def mask12' bit_simps simp del: PGSIZE_def dest: bit_imp_le_length)

lemma bit_flag_ops [simp]:
  "bit (PTE_PG_ON p) n \<longleftrightarrow> bit p n \<or> n = 9" "bit (PTE_P_ON p) n \<longleftrightarrow> bit p n \<or> n = 0"
  "bit (PTE_A_ON p) n \<longleftrightarrow> bit p n \<or> n = 5"
  "bit (PTE_PG_OFF p) n \<longleftrightarrow> bit p n \<and> n \<noteq> 9" "bit (PTE_P_OFF p) n \<longleftrightarrow> bit p n \<and> n \<noteq> 0"
  "bit (PTE_A_OFF p) n \<longleftrightarrow> bit p n \<and> n \<noteq> 5"
  by (auto simp: PTE_PG_ON_def PTE_P_ON_def PTE_A_ON_def PTE_PG_OFF_def PTE_P_OFF_def
      PTE_A_OFF_def bit_simps dest: bit_imp_le_length)

text \<open>Setting or clearing a flag never moves the frame a page table entry points at.\<close>

lemma PTE_ADDR_flag_ops [simp]:
  "PTE_ADDR (PTE_PG_ON p) = PTE_ADDR p" "PTE_ADDR (PTE_P_ON p) = PTE_ADDR p"
  "PTE_ADDR (PTE_A_ON p) = PTE_ADDR p" "PTE_ADDR (PTE_PG_OFF p) = PTE_ADDR p"
  "PTE_ADDR (PTE_P_OFF p) = PTE_ADDR p" "PTE_ADDR (PTE_A_OFF p) = PTE_ADDR p"
  by (rule bit_word_eqI; auto)+

lemma PTE_ADDR_FLAGS: "PTE_ADDR p OR PTE_FLAGS p = p"
  by (rule bit_word_eqI) (auto simp: bit_simps)

lemma PGROUNDDOWN_PTE_ADDR: "PGROUNDDOWN = PTE_ADDR"
  by (rule ext, rule bit_word_eqI) auto

section \<open>Page arithmetic\<close>

definition page_aligned :: "u32 \<Rightarrow> bool" where
  "page_aligned a \<longleftrightarrow> a AND 0xFFF = 0"

lemma take_bit_nat_unat: "take_bit LENGTH(32) (unat (a :: u32)) = unat a"
  using unsigned_less [of a, where 'a = nat] by (simp add: take_bit_nat_eq_self_iff)

lemma and_mask12: "unat (a AND 0xFFF :: u32) = unat a mod 4096"
proof -
  have "unat (a AND 0xFFF) = take_bit 12 (unat a)"
    by (simp only: mask12 unsigned_take_bit_eq flip: take_bit_eq_mask)
  then show ?thesis by (simp add: take_bit_eq_mod)
qed

lemma page_aligned_mod: "page_aligned a \<longleftrightarrow> unat a mod 4096 = 0"
  using and_mask12 [of a] by (metis page_aligned_def unat_0 unat_eq_zero)

lemma page_aligned_word_mod: "page_aligned a \<longleftrightarrow> a mod PGSIZE = 0"
proof -
  have "unat (a mod PGSIZE) = unat a mod 4096" by (simp add: unat_mod_distrib)
  then show ?thesis by (metis page_aligned_mod unat_0 unat_eq_zero)
qed

lemma unat_and_not_mask12: "unat (a AND - 4096 :: u32) = unat a - unat a mod 4096"
proof -
  have "(a AND 0xFFF) + (a AND NOT 0xFFF) = (a AND 0xFFF) OR (a AND NOT 0xFFF)"
    by (rule disjunctive_add_eq_or) (simp add: bit_eq_iff bit_simps mask12)
  also have "\<dots> = a"
    by (rule bit_word_eqI) (auto simp: mask12 bit_simps)
  finally have "a AND - 4096 = a - (a AND 0xFFF)" by (simp add: eq_diff_eq add.commute)
  then show ?thesis by (simp add: unat_sub word_and_le2 and_mask12)
qed

lemma unat_PGROUNDDOWN: "unat (PGROUNDDOWN a) = unat a - unat a mod 4096"
  by (simp add: PGROUNDDOWN_def unat_and_not_mask12)

lemma unat_PTE_ADDR: "unat (PTE_ADDR a) = unat a - unat a mod 4096"
  by (simp add: PTE_ADDR_def unat_and_not_mask12)

lemma page_aligned_PTE_ADDR [simp]: "page_aligned (PTE_ADDR a)"
  by (simp add: page_aligned_mod unat_PTE_ADDR minus_mod_eq_mult_div)

lemma page_aligned_PGROUNDDOWN [simp]: "page_aligned (PGROUNDDOWN a)"
  by (simp add: PGROUNDDOWN_PTE_ADDR)

lemma page_aligned_bits: "page_aligned a \<longleftrightarrow> (\<forall>n < 12. \<not> bit a n)"
  by (auto simp: page_aligned_def mask12 and_eq_0_bit_iff bit_mask_iff dest: bit_u32_less)

lemma PTE_ADDR_aligned_or:
  assumes "page_aligned pa" and "PTE_FLAGS perm = perm"
  shows "PTE_ADDR (pa OR perm) = pa"
proof (rule bit_word_eqI)
  fix n
  have "12 \<le> n \<Longrightarrow> \<not> bit perm n"
    using arg_cong [OF assms(2), of "\<lambda>w. bit w n"] by simp
  then show "bit (PTE_ADDR (pa OR perm)) n = bit pa n"
    using assms(1) by (auto simp: page_aligned_bits bit_or_iff not_less)
qed

lemma PTE_ADDR_aligned: "page_aligned a \<Longrightarrow> PTE_ADDR a = a"
  by (rule bit_word_eqI) (auto simp: page_aligned_bits not_less)

lemma PGROUNDUP_down: "PGROUNDUP a = PGROUNDDOWN (a + 4095)"
  by (simp add: PGROUNDUP_def PGROUNDDOWN_def add.commute)

lemma page_aligned_PGROUNDUP [simp]: "page_aligned (PGROUNDUP a)"
  by (simp add: PGROUNDUP_down)

text \<open>Rounding up is exact as long as the sum does not wrap, that is up to
  \<open>0xFFFFF001\<close>; beyond, it wraps to 0.\<close>

lemma unat_PGROUNDUP:
  assumes "unat a \<le> 0xFFFFF000"
  shows "unat (PGROUNDUP a) = (unat a + 4095) div 4096 * 4096"
proof -
  have "unat (a + 4095) = unat a + 4095" using assms by (simp add: unat_plus_if')
  then show ?thesis
    by (simp add: PGROUNDUP_down unat_PGROUNDDOWN minus_mod_eq_div_mult)
qed

lemma PGROUNDUP_wraps: "0xFFFFF000 < unat a \<Longrightarrow> PGROUNDUP a = 0"
proof -
  assume a: "0xFFFFF000 < unat a"
  moreover have "unat a < 2 ^ 32" using unsigned_less [of a, where 'a = nat] by simp
  ultimately have "unat (a + 4095) < 4096" by (simp add: unat_plus_if')
  then have "unat (PGROUNDUP a) = 0"
    by (simp add: PGROUNDUP_down unat_PGROUNDDOWN)
  then show "PGROUNDUP a = 0" by (simp add: unat_eq_zero)
qed

section \<open>The two-level address split\<close>

lemma bit_PDX [simp]: "bit (PDX va) n \<longleftrightarrow> n < 10 \<and> bit va (n + 22)"
  by (auto simp: PDX_def mask10 bit_simps add.commute)

lemma bit_PTX [simp]: "bit (PTX va) n \<longleftrightarrow> n < 10 \<and> bit va (n + 12)"
  by (auto simp: PTX_def mask10 bit_simps add.commute)

lemma bit_PGADDR [simp]:
  "bit (PGADDR d t off) n \<longleftrightarrow>
     n < 32 \<and> (22 \<le> n \<and> bit d (n - 22) \<or> 12 \<le> n \<and> bit t (n - 12) \<or> bit off n)"
  by (auto simp: PGADDR_def bit_simps dest: bit_imp_le_length)

lemma PGADDR_split: "PGADDR (PDX va) (PTX va) (PTE_FLAGS va) = va"
proof (rule bit_word_eqI)
  fix n :: nat
  assume "n < LENGTH(32)"
  then show "bit (PGADDR (PDX va) (PTX va) (PTE_FLAGS va)) n = bit va n"
    by (cases "n < 12"; cases "n < 22") auto
qed

lemma unat_PDX: "unat (PDX va) = unat va div 2 ^ 22"
proof -
  have "unat (PDX va) = take_bit 10 (drop_bit 22 (unat va))"
    by (simp only: PDX_def PDXSHIFT_def mask10 unsigned_take_bit_eq unsigned_drop_bit_eq
        take_bit_nat_unat flip: take_bit_eq_mask)
  also have "\<dots> = unat va div 2 ^ 22 mod 1024" by (simp add: take_bit_eq_mod drop_bit_eq_div)
  also have "\<dots> = unat va div 2 ^ 22"
    using unsigned_less [of va, where 'a = nat] by (simp add: less_mult_imp_div_less)
  finally show ?thesis .
qed

lemma unat_PTX: "unat (PTX va) = unat va div 4096 mod 1024"
proof -
  have "unat (PTX va) = take_bit 10 (drop_bit 12 (unat va))"
    by (simp only: PTX_def PTXSHIFT_def mask10 unsigned_take_bit_eq unsigned_drop_bit_eq
        take_bit_nat_unat flip: take_bit_eq_mask)
  then show ?thesis by (simp add: take_bit_eq_mod drop_bit_eq_div)
qed

lemma PDX_less [simp]: "unat (PDX va) < 1024"
  using unsigned_less [of va, where 'a = nat] by (simp add: unat_PDX less_mult_imp_div_less)

lemma PTX_less [simp]: "unat (PTX va) < 1024"
  by (simp add: unat_PTX)

end
