(* ===== verification/Cmem.thy ===== *)
theory Cmem
  imports Mmu
begin

text \<open>
  Byte-addressed memory with 32-bit little-endian accesses, and the block routines of
  \<open>string.c\<close> (\<open>memset\<close>, \<open>memmove\<close>, \<open>memcpy\<close>, \<open>memcmp\<close>) with the string instructions of
  \<open>x86.h\<close> they use. Every routine is shown to compute its reference definition: \<open>memset\<close>
  fills exactly the given range whichever instruction it picks, and \<open>memmove\<close> is a
  parallel copy even where source and destination overlap.
\<close>

unbundle bit_operations_syntax

type_synonym memory = "u32 \<Rightarrow> u8"

section \<open>Word access\<close>

definition load32 :: "memory \<Rightarrow> u32 \<Rightarrow> u32" where
  "load32 m a = ucast (m a) OR push_bit 8 (ucast (m (a + 1))) OR
     push_bit 16 (ucast (m (a + 2))) OR push_bit 24 (ucast (m (a + 3)))"

definition store32 :: "memory \<Rightarrow> u32 \<Rightarrow> u32 \<Rightarrow> memory" where
  "store32 m a w = m(a := ucast w, a + 1 := ucast (drop_bit 8 w),
     a + 2 := ucast (drop_bit 16 w), a + 3 := ucast (drop_bit 24 w))"

lemma load32_cong:
  "m a = m' a \<Longrightarrow> m (a + 1) = m' (a + 1) \<Longrightarrow> m (a + 2) = m' (a + 2) \<Longrightarrow>
     m (a + 3) = m' (a + 3) \<Longrightarrow> load32 m a = load32 m' a"
  by (simp add: load32_def)

lemma load32_store32_same [simp]: "load32 (store32 m a w) a = w"
proof (rule bit_word_eqI)
  fix n :: nat
  assume "n < LENGTH(32)"
  then consider "n < 8" | "8 \<le> n \<and> n < 16" | "16 \<le> n \<and> n < 24" | "24 \<le> n \<and> n < 32"
    by fastforce
  then show "bit (load32 (store32 m a w) a) n = bit w n"
    by cases (auto simp: load32_def store32_def bit_simps)
qed

text \<open>Distances on the address circle: \<open>x\<close> lies in the \<open>n\<close> bytes from \<open>a\<close>.\<close>

definition in_range :: "u32 \<Rightarrow> nat \<Rightarrow> u32 \<Rightarrow> bool" where
  "in_range a n x \<longleftrightarrow> unat (x - a) < n"

lemma in_range_base [simp]: "in_range a n a \<longleftrightarrow> 0 < n"
  by (simp add: in_range_def)

lemma in_range_offset: "in_range a n x \<Longrightarrow> \<exists>k < n. x = a + of_nat k"
proof -
  assume "in_range a n x"
  moreover have "x = a + of_nat (unat (x - a))" by simp
  ultimately show ?thesis unfolding in_range_def by blast
qed

lemma outside_range:
  assumes "unat x < unat a \<or> unat a + k \<le> unat x" "unat a + k \<le> 2 ^ 32"
  shows "\<not> in_range a k x"
proof (cases "a \<le> x")
  case True
  then have "unat (x - a) = unat x - unat a" "unat a \<le> unat x" by (simp_all add: unat_sub word_le_nat_alt)
  with assms(1) show ?thesis unfolding in_range_def by linarith
next
  case False
  then have "unat (x - a) = unat x + 2 ^ 32 - unat a" by (simp add: unat_sub_if' word_le_nat_alt)
  moreover have "unat x < unat a" using False by (simp add: word_le_nat_alt)
  ultimately show ?thesis using assms(2) unfolding in_range_def by linarith
qed

lemma store32_other: "\<not> in_range a 4 x \<Longrightarrow> store32 m a w x = m x"
proof -
  assume *: "\<not> in_range a 4 x"
  have "x \<noteq> a" "x \<noteq> a + 1" "x \<noteq> a + 2" "x \<noteq> a + 3"
    using * by (auto simp: in_range_def)
  then show ?thesis by (simp add: store32_def)
qed

lemma load32_store32_disjoint:
  "(\<And>k. k < 4 \<Longrightarrow> \<not> in_range a 4 (b + of_nat k)) \<Longrightarrow> load32 (store32 m a w) b = load32 m b"
proof -
  assume *: "\<And>k. k < 4 \<Longrightarrow> \<not> in_range a 4 (b + of_nat k)"
  from *[of 0] *[of 1] *[of 2] *[of 3] show ?thesis
    by (intro load32_cong store32_other) simp_all
qed

section \<open>Page granularity\<close>

lemma unat_page_offset:
  assumes "page_aligned v" and "k < 4096"
  shows "unat (v + of_nat k) = unat v + k"
proof -
  obtain q where q: "unat v = 4096 * q"
    using assms(1) by (auto simp: page_aligned_mod elim!: dvdE [OF mod_0_imp_dvd])
  moreover have "unat v < 4294967296" using unsigned_less [of v, where 'a = nat] by simp
  ultimately have "q < 1048576" by simp
  then have "unat v \<le> 4294963200" using q by linarith
  with assms(2) show ?thesis by (simp add: unat_word_ariths unat_of_nat)
qed

lemma page_of_offset:
  assumes "page_aligned v" and "k < 4096"
  shows "PTE_ADDR (v + of_nat k) = v"
proof -
  have "unat v mod 4096 = 0" using assms(1) by (simp add: page_aligned_mod)
  then have "(unat v + k) mod 4096 = k" using assms(2) by (simp add: mod_add_left_eq [symmetric])
  then have "unat (PTE_ADDR (v + of_nat k)) = unat v"
    by (simp add: unat_PTE_ADDR unat_page_offset [OF assms])
  then show ?thesis by (simp add: word_unat_eq_iff)
qed

text \<open>A byte lies in the page at \<open>v\<close> exactly when rounding its address down gives \<open>v\<close>.\<close>

lemma in_page_iff: "page_aligned v \<Longrightarrow> in_range v 4096 x \<longleftrightarrow> PTE_ADDR x = v"
proof
  assume v: "page_aligned v" and "in_range v 4096 x"
  then obtain k where "k < 4096" "x = v + of_nat k" using in_range_offset by blast
  with v show "PTE_ADDR x = v" by (simp add: page_of_offset)
next
  assume "PTE_ADDR x = v"
  moreover have "PTE_ADDR x \<le> x" unfolding PTE_ADDR_def by (rule word_and_le2)
  ultimately have "unat (x - v) = unat x - unat v" by (simp add: unat_sub)
  moreover have "unat x - (unat x - unat x mod 4096) < 4096" by simp
  ultimately show "in_range v 4096 x"
    using unat_PTE_ADDR [of x] \<open>PTE_ADDR x = v\<close> unfolding in_range_def by metis
qed

lemma in_page_unique:
  "page_aligned v \<Longrightarrow> page_aligned w \<Longrightarrow> in_range v 4096 x \<Longrightarrow> in_range w 4096 x \<Longrightarrow> v = w"
  by (simp add: in_page_iff)

lemma in_page_offset: "k < 4096 \<Longrightarrow> in_range v 4096 (v + of_nat k)"
  by (simp add: in_range_def unat_of_nat)

lemma load32_page:
  assumes "k + 3 < 4096" and "\<And>x. in_range v 4096 x \<Longrightarrow> m x = m' x"
  shows "load32 m (v + of_nat k) = load32 m' (v + of_nat k)"
proof (rule load32_cong)
  have *: "m (v + of_nat j) = m' (v + of_nat j)" if "j \<le> k + 3" for j
    using that assms by (intro assms(2) in_page_offset) simp
  from *[of k] *[of "k + 1"] *[of "k + 2"] *[of "k + 3"]
  show "m (v + of_nat k) = m' (v + of_nat k)" "m (v + of_nat k + 1) = m' (v + of_nat k + 1)"
    "m (v + of_nat k + 2) = m' (v + of_nat k + 2)" "m (v + of_nat k + 3) = m' (v + of_nat k + 3)"
    by (simp_all add: algebra_simps)
qed

lemma store32_page:
  assumes "k + 3 < 4096" and "\<not> in_range v 4096 x"
  shows "store32 m (v + of_nat k) w x = m x"
proof (rule store32_other, rule notI)
  assume "in_range (v + of_nat k) 4 x"
  then obtain j where j: "j < 4" "x = v + of_nat k + of_nat j" using in_range_offset by blast
  then have "x = v + of_nat (k + j)" by simp
  with j(1) assms in_page_offset [of "k + j" v] show False by simp
qed

lemma load32_store32_other_page:
  assumes "page_aligned v" "page_aligned w" "v \<noteq> w" "k + 3 < 4096" "j + 3 < 4096"
  shows "load32 (store32 m (w + of_nat j) x) (v + of_nat k) = load32 m (v + of_nat k)"
  using assms by (intro load32_page store32_page) (auto dest: in_page_unique)

section \<open>memset\<close>

fun stosb :: "memory \<Rightarrow> u32 \<Rightarrow> u8 \<Rightarrow> nat \<Rightarrow> memory" where
  "stosb m addr data 0 = m"
| "stosb m addr data (Suc cnt) = stosb (m(addr := data)) (addr + 1) data cnt"

fun stosl :: "memory \<Rightarrow> u32 \<Rightarrow> u32 \<Rightarrow> nat \<Rightarrow> memory" where
  "stosl m addr data 0 = m"
| "stosl m addr data (Suc cnt) = stosl (store32 m addr data) (addr + 4) data cnt"

definition memset :: "memory \<Rightarrow> u32 \<Rightarrow> u32 \<Rightarrow> u32 \<Rightarrow> memory" where
  "memset m dst c n =
     (if dst mod 4 = 0 \<and> n mod 4 = 0 then
        let c = c AND 0xFF in
        stosl m dst (push_bit 24 c OR push_bit 16 c OR push_bit 8 c OR c) (unat (n div 4))
      else stosb m dst (ucast c) (unat n))"

lemma stosb_apply:
  "n \<le> 2 ^ 32 \<Longrightarrow> stosb m a c n = (\<lambda>x. if in_range a n x then c else m x)"
proof (induction n arbitrary: m a)
  case 0
  then show ?case by (simp add: in_range_def)
next
  case (Suc n)
  have "in_range a (Suc n) x \<longleftrightarrow> x = a \<or> in_range (a + 1) n x" for x
  proof (cases "x = a")
    case False
    then have "x - a \<noteq> 0" by simp
    then have "unat (x - a - 1) = unat (x - a) - 1" by (simp add: unat_minus_one)
    moreover have "0 < unat (x - a)" using False by (simp add: unat_gt_0)
    ultimately show ?thesis using False by (auto simp: in_range_def diff_diff_add)
  qed simp
  with Suc show ?case by (auto simp: fun_eq_iff)
qed

lemma store32_replicate:
  "store32 m a (push_bit 24 c OR push_bit 16 c OR push_bit 8 c OR c) = stosb m a (ucast c) 4"
  if "c AND 0xFF = c"
proof -
  have c: "\<not> bit c n" if "8 \<le> n" for n
  proof -
    have "(0xFF :: u32) = mask 8" by (simp add: mask_eq_exp_minus_1)
    with arg_cong [OF \<open>c AND 0xFF = c\<close>, of "\<lambda>w. bit w n"] that show ?thesis
      by (auto simp: bit_simps)
  qed
  let ?w = "push_bit 24 c OR push_bit 16 c OR push_bit 8 c OR c"
  have "(ucast (drop_bit k ?w) :: u8) = ucast c" if "k \<in> {0, 8, 16, 24}" for k
    by (rule bit_word_eqI) (use that c in \<open>auto simp: bit_simps\<close>)
  from this [of 0] this [of 8] this [of 16] this [of 24] show ?thesis
    by (simp add: store32_def eval_nat_numeral algebra_simps)
qed

lemma stosb_add: "stosb m a c (i + j) = stosb (stosb m a c i) (a + of_nat i) c j"
  by (induction i arbitrary: m a) (simp_all add: algebra_simps)

lemma stosl_stosb:
  "c AND 0xFF = c \<Longrightarrow>
   stosl m a (push_bit 24 c OR push_bit 16 c OR push_bit 8 c OR c) n = stosb m a (ucast c) (4 * n)"
proof (induction n arbitrary: m a)
  case (Suc n)
  have "stosb m a (ucast c) (4 + 4 * n) = stosb (stosb m a (ucast c) 4) (a + 4) (ucast c) (4 * n)"
    using stosb_add [of m a "ucast c" 4 "4 * n"] by simp
  with Suc show ?case by (simp add: store32_replicate)
qed simp

lemma ucast_and_FF: "(ucast (c AND 0xFF) :: u8) = ucast (c :: u32)"
proof -
  have "(0xFF :: u32) = mask 8" by (simp add: mask_eq_exp_minus_1)
  then have "bit (0xFF :: u32) n" if "n < 8" for n using that by (simp only: bit_mask_iff) simp
  then show ?thesis by (intro bit_word_eqI) (auto simp: bit_simps)
qed

lemma memset_apply:
  "memset m dst c n = (\<lambda>x. if in_range dst (unat n) x then ucast c else m x)"
proof (cases "dst mod 4 = 0 \<and> n mod 4 = 0")
  case True
  have n: "unat n \<le> 2 ^ 32" using unsigned_less [of n, where 'a = nat] by simp
  have "unat (n mod 4) = unat n mod 4" by (simp add: unat_mod_distrib)
  with True have "4 * (unat n div 4) = unat n" by (simp add: mult.commute mod_0_imp_dvd)
  moreover have "unat (n div 4) = unat n div 4" by (simp add: unat_div_distrib)
  moreover have "(c AND 0xFF) AND 0xFF = c AND 0xFF" by (simp add: and.assoc)
  ultimately have "memset m dst c n = stosb m dst (ucast (c AND 0xFF)) (unat n)"
    using True unfolding memset_def Let_def by (metis stosl_stosb)
  with n show ?thesis by (simp add: stosb_apply ucast_and_FF)
next
  case False
  have n: "unat n \<le> 2 ^ 32" using unsigned_less [of n, where 'a = nat] by simp
  with False show ?thesis by (subst memset_def) (simp only: if_False stosb_apply)
qed

section \<open>memmove, memcpy, memcmp\<close>

fun copy_fwd :: "memory \<Rightarrow> u32 \<Rightarrow> u32 \<Rightarrow> nat \<Rightarrow> memory" where
  "copy_fwd m d s 0 = m"
| "copy_fwd m d s (Suc n) = copy_fwd (m(d := m s)) (d + 1) (s + 1) n"

fun copy_bwd :: "memory \<Rightarrow> u32 \<Rightarrow> u32 \<Rightarrow> nat \<Rightarrow> memory" where
  "copy_bwd m d s 0 = m"
| "copy_bwd m d s (Suc n) = copy_bwd (m(d - 1 := m (s - 1))) (d - 1) (s - 1) n"

definition memmove :: "memory \<Rightarrow> u32 \<Rightarrow> u32 \<Rightarrow> u32 \<Rightarrow> memory" where
  "memmove m dst src n =
     (if src < dst \<and> src + n > dst then copy_bwd m (dst + n) (src + n) (unat n)
      else copy_fwd m dst src (unat n))"

definition memcpy :: "memory \<Rightarrow> u32 \<Rightarrow> u32 \<Rightarrow> u32 \<Rightarrow> memory" where
  "memcpy m dst src n = memmove m dst src n"

fun memcmp :: "memory \<Rightarrow> u32 \<Rightarrow> u32 \<Rightarrow> nat \<Rightarrow> int" where
  "memcmp m v1 v2 0 = 0"
| "memcmp m v1 v2 (Suc n) =
     (if m v1 \<noteq> m v2 then uint (m v1) - uint (m v2) else memcmp m (v1 + 1) (v2 + 1) n)"

text \<open>The reference: every byte of the destination takes the value its source byte had
  before the call.\<close>

definition copy_ref :: "memory \<Rightarrow> u32 \<Rightarrow> u32 \<Rightarrow> nat \<Rightarrow> memory" where
  "copy_ref m d s n = (\<lambda>x. if in_range d n x then m (s + (x - d)) else m x)"

text \<open>Copying upwards is right when the destination does not start strictly inside the
  source range; copying downwards when the source does not start inside the destination.\<close>

lemma in_range_Suc: "in_range a (Suc n) x \<longleftrightarrow> x = a \<or> (x \<noteq> a \<and> in_range (a + 1) n x)"
proof (cases "x = a")
  case False
  then have "x - a \<noteq> 0" by simp
  then have "unat (x - a - 1) = unat (x - a) - 1" and "0 < unat (x - a)"
    by (simp_all add: unat_minus_one unat_gt_0)
  with False show ?thesis by (auto simp: in_range_def diff_diff_add)
qed simp

lemma copy_fwd_ref:
  assumes "n \<le> 2 ^ 32" and "d = s \<or> n \<le> unat (d - s)"
  shows "copy_fwd m d s n = copy_ref m d s n"
  using assms
proof (induction n arbitrary: m d s)
  case 0
  then show ?case by (simp add: copy_ref_def in_range_def)
next
  case (Suc n)
  have IH: "copy_fwd (m(d := m s)) (d + 1) (s + 1) n = copy_ref (m(d := m s)) (d + 1) (s + 1) n"
    using Suc.prems by (intro Suc.IH) auto
  have "copy_ref (m(d := m s)) (d + 1) (s + 1) n x = copy_ref m d s (Suc n) x" for x
  proof (cases "x = d")
    case True
    have "\<not> in_range (d + 1) n d"
    proof -
      have "unat (- 1 :: u32) = 2 ^ 32 - 1" by (simp add: unsigned_minus_1_eq_mask mask_eq_exp_minus_1)
      with Suc.prems(1) show ?thesis by (simp add: in_range_def)
    qed
    with True show ?thesis by (simp add: copy_ref_def)
  next
    case False
    have "s + (x - d) \<noteq> d" if "in_range (d + 1) n x"
    proof
      assume eq: "s + (x - d) = d"
      then have xd: "x - d = d - s" by (metis add_diff_cancel_left')
      from that False have "unat (x - d) < Suc n" using in_range_Suc [of d n x] by (simp add: in_range_def)
      with xd False Suc.prems(2) show False by auto
    qed
    with False show ?thesis
      by (auto simp: copy_ref_def in_range_Suc [of d n x] algebra_simps)
  qed
  with IH show ?case by (simp add: fun_eq_iff)
qed

lemma copy_bwd_ref:
  assumes "n \<le> 2 ^ 32" and "d = s \<or> n \<le> unat (s - d)"
  shows "copy_bwd m (d + of_nat n) (s + of_nat n) n = copy_ref m d s n"
  using assms
proof (induction n arbitrary: m)
  case 0
  then show ?case by (simp add: copy_ref_def in_range_def)
next
  case (Suc n)
  let ?m = "m(d + of_nat n := m (s + of_nat n))"
  have IH: "copy_bwd ?m (d + of_nat n) (s + of_nat n) n = copy_ref ?m d s n"
    using Suc.prems by (intro Suc.IH) auto
  have n: "unat (of_nat n :: u32) = n" using Suc.prems(1) by (simp add: unat_of_nat)
  have "copy_ref ?m d s n x = copy_ref m d s (Suc n) x" for x
  proof (cases "x = d + of_nat n")
    case True
    with n show ?thesis by (simp add: copy_ref_def in_range_def)
  next
    case False
    then have "unat (x - d) \<noteq> n" by auto
    then have r: "in_range d (Suc n) x \<longleftrightarrow> in_range d n x" by (auto simp: in_range_def)
    have "s + (x - d) \<noteq> d + of_nat n" if "in_range d n x"
    proof
      assume eq: "s + (x - d) = d + of_nat n"
      then have "s - d = of_nat n - (x - d)" by (simp add: algebra_simps)
      moreover have "x - d \<le> of_nat n" using that n by (simp add: in_range_def word_le_nat_alt)
      ultimately have "unat (s - d) = n - unat (x - d)" by (simp only: unat_sub n)
      with Suc.prems(2) False eq show False by auto
    qed
    with False r show ?thesis by (auto simp: copy_ref_def)
  qed
  with IH show ?case by (simp add: fun_eq_iff)
qed

lemma memmove_ref:
  assumes "unat src + unat n \<le> 2 ^ 32 - 1" and "unat dst + unat n \<le> 2 ^ 32 - 1"
  shows "memmove m dst src n = copy_ref m dst src (unat n)"
proof -
  have n: "unat n \<le> 2 ^ 32" using unsigned_less [of n, where 'a = nat] by simp
  have sum: "unat (src + n) = unat src + unat n" using assms(1) by (simp add: unat_plus_if')
  show ?thesis
  proof (cases "src < dst \<and> src + n > dst")
    case True
    then have "unat (src - dst) = 2 ^ 32 + unat src - unat dst"
      by (simp add: unat_sub_if' word_less_nat_alt)
    moreover have "unat dst + unat n \<le> 2 ^ 32" using assms(2) by simp
    ultimately have "unat n \<le> unat (src - dst)" by simp
    then have "copy_bwd m (dst + of_nat (unat n)) (src + of_nat (unat n)) (unat n)
      = copy_ref m dst src (unat n)"
      using n by (intro copy_bwd_ref) auto
    with True show ?thesis by (simp add: memmove_def)
  next
    case False
    have "dst = src \<or> unat n \<le> unat (dst - src)"
    proof (cases "src \<le> dst")
      case True
      with False sum show ?thesis
        by (auto simp: unat_sub word_less_nat_alt word_le_nat_alt word_unat_eq_iff)
    next
      case False
      then have "unat (dst - src) = 2 ^ 32 + unat dst - unat src"
        by (simp add: unat_sub_if' word_le_nat_alt)
      with assms(1) show ?thesis by linarith
    qed
    then have "copy_fwd m dst src (unat n) = copy_ref m dst src (unat n)"
      using n by (intro copy_fwd_ref) auto
    with False show ?thesis by (auto simp: memmove_def)
  qed
qed

lemma memcmp_eq_0: "memcmp m a b n = 0 \<longleftrightarrow> (\<forall>k < n. m (a + of_nat k) = m (b + of_nat k))"
proof (induction n arbitrary: a b)
  case (Suc n)
  have "(\<forall>k < Suc n. m (a + of_nat k) = m (b + of_nat k)) \<longleftrightarrow>
    m a = m b \<and> (\<forall>k < n. m (a + 1 + of_nat k) = m (b + 1 + of_nat k))"
    by (auto simp: less_Suc_eq_0_disj algebra_simps)
  moreover have "uint (m a) = uint (m b) \<longleftrightarrow> m a = m b" by (simp add: word_uint_eq_iff)
  ultimately show ?case using Suc [of "a + 1" "b + 1"] by simp
qed simp

text \<open>C5 [memset_exact]: \<open>memset(dst, c, n)\<close> stores the low byte of \<open>c\<close> at each of the \<open>n\<close>
  addresses from \<open>dst\<close> on (modulo \<open>2^32\<close>) and changes no other byte, whether it takes the
  word path \<open>stosl\<close> (address and length multiples of four) or the byte path \<open>stosb\<close>.\<close>

theorem memset_exact:
  "memset m dst c n x = (if unat (x - dst) < unat n then ucast c else m x)"
  by (simp add: memset_apply in_range_def)

text \<open>C4 [memmove_parallel]: \<open>memmove\<close> copies as if it had read the whole source before it
  wrote anything, however the two ranges overlap, provided neither range runs past the top
  of the address space: byte \<open>i\<close> of the destination is the old byte \<open>i\<close> of the source, and
  every byte outside the destination is unchanged.\<close>

theorem memmove_parallel:
  assumes "unat src + unat n \<le> 2 ^ 32 - 1" and "unat dst + unat n \<le> 2 ^ 32 - 1"
  shows "memmove m dst src n x = (if unat (x - dst) < unat n then m (src + (x - dst)) else m x)"
  using memmove_ref [OF assms] by (simp add: copy_ref_def in_range_def)

theorem memmove_parallel_witness: "memmove (\<lambda>x. ucast x) 0x1002 0x1000 8 0x1009 = 7"
  using memmove_parallel [of "0x1000" 8 "0x1002" "\<lambda>x. ucast x" "0x1009"] by simp

end
