(* ===== verification/Kstate.thy ===== *)
theory Kstate
  imports Cmem
begin

text \<open>
  The kernel's data: the structures of \<open>proc.h\<close>, \<open>file.h\<close>, \<open>fs.h\<close>, \<open>buf.h\<close>,
  \<open>sleeplock.h\<close>, \<open>x86.h\<close> and \<open>stat.h\<close> as records, and the global variables of the kernel
  as one record \<open>kernel\<close>. A pointer into a fixed table (\<open>struct proc *\<close>,
  \<open>struct file *\<close>, \<open>struct inode *\<close>, \<open>struct buf *\<close>) is the index of its entry, with
  \<open>None\<close> for the null pointer; a pointer to a page of memory is its kernel virtual address.

  A spin lock is represented in the kernel record by whether the executing processor
  holds it, which is what \<open>holding()\<close> computes, and \<open>ncli\<close> is the depth of \<open>pushcli\<close>
  nesting of that processor; theory \<open>Spinlock\<close> has the complete lock
  (owner, nesting of \<open>pushcli\<close>, several processors) and shows that this view is exact.
  Locks and sleep channels are named by the object they protect or stand for.
\<close>

section \<open>Locks and channels\<close>

datatype sleepid = SLBuf nat | SLInode nat

datatype lockid =
  L_kmem | L_ptable | L_icache | L_ftable | L_bcache | L_log | L_cons | L_ide | L_ticks
  | L_pipe u32 | L_sleep sleepid

datatype chan =
  C_ticks | C_proc nat | C_log | C_buf nat | C_sleep sleepid | C_nread u32 | C_nwrite u32
  | C_input

record sleeplock =
  sl_locked :: bool
  sl_pid :: int

section \<open>Processes\<close>

datatype procstate = UNUSED | EMBRYO | SLEEPING | RUNNABLE | RUNNING | ZOMBIE

record page =
  v_address :: u32
  file_offset :: int
  in_RAM :: u32
  isAllocated :: int
  age :: u32

record trapframe =
  tf_edi :: u32
  tf_esi :: u32
  tf_ebp :: u32
  tf_oesp :: u32
  tf_ebx :: u32
  tf_edx :: u32
  tf_ecx :: u32
  tf_eax :: u32
  tf_gs :: u16
  tf_fs :: u16
  tf_es :: u16
  tf_ds :: u16
  tf_trapno :: u32
  tf_err :: u32
  tf_eip :: u32
  tf_cs :: u16
  tf_eflags :: u32
  tf_esp :: u32
  tf_ss :: u16

record kcontext =
  ctx_edi :: u32
  ctx_esi :: u32
  ctx_ebx :: u32
  ctx_ebp :: u32
  ctx_eip :: u32

record proc =
  p_sz :: u32
  p_pgdir :: u32
  p_kstack :: u32
  p_state :: procstate
  p_pid :: int
  p_parent :: "nat option"
  p_tf :: trapframe
  p_context :: kcontext
  p_chan :: "chan option"
  p_killed :: bool
  p_ofile :: "nat option list"
  p_cwd :: "nat option"
  p_name :: "u8 list"
  p_swapFile :: "nat option"
  p_pagesDS :: "page list"
  p_fileOffset :: u32
  p_numberOfAllocatedPages :: int
  p_numberOfPagedOut :: u32
  p_numberOfPageFaults :: int
  p_totalNumberOfPagedOut :: int
  p_inRAMQueue :: "int list"
  p_availableOffsetQueue :: "int list"

text \<open>The page replacement policy the kernel is compiled with (\<open>SELECTION\<close> in the Makefile).\<close>

datatype policy = SCFIFO | NFUA | LAPA | AQ | NO_SELECTION

section \<open>Files, inodes, buffers, pipes\<close>

datatype ftype = FD_NONE | FD_PIPE | FD_INODE

record kfile =
  f_type :: ftype
  f_ref :: int
  f_readable :: u8
  f_writable :: u8
  f_pipe :: u32
  f_ip :: "nat option"
  f_off :: u32

record inode =
  ip_dev :: u32
  ip_inum :: u32
  ip_ref :: int
  ip_valid :: bool
  ip_type :: int
  ip_major :: int
  ip_minor :: int
  ip_nlink :: int
  ip_size :: u32
  ip_addrs :: "u32 list"

record superblock =
  sb_size :: u32
  sb_nblocks :: u32
  sb_ninodes :: u32
  sb_nlog :: u32
  sb_logstart :: u32
  sb_inodestart :: u32
  sb_bmapstart :: u32

text \<open>The two bits of \<open>flags\<close>, \<open>B_VALID\<close> and \<open>B_DIRTY\<close>, are two booleans.\<close>

record buf =
  b_valid :: bool
  b_dirty :: bool
  b_dev :: u32
  b_blockno :: u32
  b_refcnt :: u32
  b_prev :: nat
  b_next :: nat
  b_qnext :: "nat option"
  b_data :: "u8 list"

record pipe =
  pi_data :: "u8 list"
  pi_nread :: u32
  pi_nwrite :: u32
  pi_readopen :: bool
  pi_writeopen :: bool

record logheader =
  lh_n :: int
  lh_block :: "u32 list"

record log =
  log_start :: u32
  log_size :: u32
  log_outstanding :: int
  log_committing :: bool
  log_dev :: u32
  log_lh :: logheader

record console =
  cons_locking :: bool
  cons_panicked :: bool
  in_buf :: "u8 list"
  in_r :: u32
  in_w :: u32
  in_e :: u32
  crt_mem :: "u16 list"
  crt_pos :: int
  uart_present :: bool
  uart_out :: "u8 list"

section \<open>The kernel\<close>

text \<open>
  \<open>sel\<close>, \<open>k_end\<close>, \<open>k_data\<close>, \<open>k_forkret\<close> and \<open>k_trapret\<close> are fixed by the build (policy, and the
  linker symbols \<open>end\<close>, \<open>data\<close>, \<open>forkret\<close> and \<open>trapret\<close>); \<open>cur\<close> is \<open>mycpu()->proc\<close>; \<open>disk\<close> and \<open>disksize\<close> are the blocks
  behind \<open>iderw\<close>; \<open>disk_hist\<close> is no variable of the kernel: it records every block write
  the disk has performed, in order, for statements about crashes, and no operation reads it;
  \<open>cr3\<close> is the page table register.
\<close>

record kernel =
  sel :: policy
  k_end :: u32
  k_data :: u32
  k_forkret :: u32
  k_trapret :: u32
  locks :: "lockid \<Rightarrow> bool"
  ncli :: int
  sleeplocks :: "sleepid \<Rightarrow> sleeplock"
  cur :: "nat option"
  cr3 :: u32
  mem :: memory
  kmem_use_lock :: bool
  kmem_freelist :: u32
  kpgdir :: u32
  procs :: "proc list"
  initproc :: "nat option"
  nextpid :: int
  initial_size :: int
  forkret_first :: bool
  ticks :: u32
  pipes :: "u32 \<Rightarrow> pipe option"
  ftable :: "kfile list"
  icache :: "inode list"
  sb :: superblock
  bufs :: "buf list"
  klog :: log
  disk :: "u32 \<Rightarrow> u8 list"
  disksize :: u32
  disk_hist :: "(u32 \<times> u8 list) list"
  idequeue :: "nat option"
  havedisk1 :: bool
  cons :: console
  kbd_shift :: u8

type_synonym 'a kres = "(kernel, 'a \<times> kernel) res"

section \<open>The state before \<open>main()\<close>\<close>

text \<open>All of it is zero-initialised static storage, but for the initialisers in the
  source (\<open>nextpid = 1\<close>, \<open>first = 1\<close>).\<close>

definition page0 :: page where
  "page0 = \<lparr>v_address = 0, file_offset = 0, in_RAM = 0, isAllocated = 0, age = 0\<rparr>"

definition tf0 :: trapframe where
  "tf0 = \<lparr>tf_edi = 0, tf_esi = 0, tf_ebp = 0, tf_oesp = 0, tf_ebx = 0, tf_edx = 0,
     tf_ecx = 0, tf_eax = 0, tf_gs = 0, tf_fs = 0, tf_es = 0, tf_ds = 0, tf_trapno = 0, tf_err = 0, tf_eip = 0, tf_cs = 0,
     tf_eflags = 0, tf_esp = 0, tf_ss = 0\<rparr>"

definition context0 :: kcontext where
  "context0 = \<lparr>ctx_edi = 0, ctx_esi = 0, ctx_ebx = 0, ctx_ebp = 0, ctx_eip = 0\<rparr>"

definition proc0 :: proc where
  "proc0 = \<lparr>p_sz = 0, p_pgdir = 0, p_kstack = 0, p_state = UNUSED, p_pid = 0, p_parent = None,
     p_tf = tf0, p_context = context0, p_chan = None, p_killed = False,
     p_ofile = replicate NOFILE None, p_cwd = None, p_name = replicate 16 0, p_swapFile = None,
     p_pagesDS = replicate MAX_TOTAL_PAGES page0, p_fileOffset = 0,
     p_numberOfAllocatedPages = 0, p_numberOfPagedOut = 0, p_numberOfPageFaults = 0,
     p_totalNumberOfPagedOut = 0, p_inRAMQueue = replicate MAX_PSYC_PAGES 0,
     p_availableOffsetQueue = replicate MAX_PSYC_PAGES 0\<rparr>"

definition file0 :: kfile where
  "file0 = \<lparr>f_type = FD_NONE, f_ref = 0, f_readable = 0, f_writable = 0, f_pipe = 0, f_ip = None,
     f_off = 0\<rparr>"

definition inode0 :: inode where
  "inode0 = \<lparr>ip_dev = 0, ip_inum = 0, ip_ref = 0, ip_valid = False, ip_type = 0, ip_major = 0,
     ip_minor = 0, ip_nlink = 0, ip_size = 0, ip_addrs = replicate 13 0\<rparr>"

definition buf0 :: buf where
  "buf0 = \<lparr>b_valid = False, b_dirty = False, b_dev = 0, b_blockno = 0, b_refcnt = 0, b_prev = 0,
     b_next = 0, b_qnext = None, b_data = replicate 512 0\<rparr>"

definition kernel0 :: kernel where
  "kernel0 = \<lparr>sel = SCFIFO, k_end = 0x80110000, k_data = 0x80108000, k_forkret = 0x80103e00, k_trapret = 0x80105a00, locks = (\<lambda>_. False), ncli = 0,
     sleeplocks = (\<lambda>_. \<lparr>sl_locked = False, sl_pid = 0\<rparr>), cur = None, cr3 = 0, mem = (\<lambda>_. 0),
     kmem_use_lock = False, kmem_freelist = 0, kpgdir = 0, procs = replicate NPROC proc0,
     initproc = None, nextpid = 1, initial_size = 0, forkret_first = True, ticks = 0,
     pipes = (\<lambda>_. None), ftable = replicate NFILE file0, icache = replicate NINODE inode0,
     sb = \<lparr>sb_size = 0, sb_nblocks = 0, sb_ninodes = 0, sb_nlog = 0, sb_logstart = 0,
       sb_inodestart = 0, sb_bmapstart = 0\<rparr>,
     bufs = replicate (Suc NBUF) buf0,
     klog = \<lparr>log_start = 0, log_size = 0, log_outstanding = 0, log_committing = False,
       log_dev = 0, log_lh = \<lparr>lh_n = 0, lh_block = replicate LOGSIZE 0\<rparr>\<rparr>,
     disk = (\<lambda>_. replicate 512 0), disksize = 0, disk_hist = [], idequeue = None, havedisk1 = False,
     cons = \<lparr>cons_locking = False, cons_panicked = False, in_buf = replicate 128 0, in_r = 0,
       in_w = 0, in_e = 0, crt_mem = replicate 2000 0, crt_pos = 0, uart_present = False, uart_out = []\<rparr>, kbd_shift = 0\<rparr>"

end
