(* ===== verification/Spinlock.thy ===== *)
theory Spinlock
  imports Kstate
begin

text \<open>
  Spin locks (\<open>spinlock.c\<close>, \<open>mycpu\<close> of \<open>proc.c\<close>). The first part is the complete lock on
  a machine with several processors: \<open>pushcli\<close>/\<open>popcli\<close> nesting, \<open>holding\<close>, \<open>acquire\<close>,
  \<open>release\<close>, \<open>getcallerpcs\<close>. The second part splits \<open>acquire\<close> and \<open>release\<close> into their
  atomic actions and proves mutual exclusion for every interleaving of the processors.
  The third part is the view of one processor that the rest of the development uses
  (\<open>acquire\<close> and \<open>release\<close> on the kernel record) and its refinement.
\<close>

section \<open>Processors and locks\<close>

record cpu =
  c_apicid :: u8
  c_ncli :: int
  c_intena :: bool
  c_IF :: bool

record spinlock =
  lk_locked :: u32
  lk_cpu :: "nat option"
  lk_pcs :: "u32 list"

record smp =
  cpus :: "cpu list"
  lks :: "lockid \<Rightarrow> spinlock"

definition initlock :: spinlock where
  "initlock = \<lparr>lk_locked = 0, lk_cpu = None, lk_pcs = replicate 10 0\<rparr>"

text \<open>\<open>mycpu()\<close>, run on processor \<open>i\<close>: refuses to run with interrupts on, then looks the
  local APIC id up in \<open>cpus\<close>.\<close>

definition mycpu :: "nat \<Rightarrow> smp \<Rightarrow> (smp, nat) res" where
  "mycpu i m =
     (if c_IF (cpus m ! i) then Panic (''mycpu called with interrupts enabled'' @ [CHR 0x0A])
      else case find_from (\<lambda>j. c_apicid (cpus m ! j) = c_apicid (cpus m ! i)) 0 (length (cpus m)) of
        Some j \<Rightarrow> Ok j
      | None \<Rightarrow> Panic (''unknown apicid'' @ [CHR 0x0A]))"

definition upd_cpu :: "nat \<Rightarrow> (cpu \<Rightarrow> cpu) \<Rightarrow> smp \<Rightarrow> smp" where
  "upd_cpu i f m = m\<lparr>cpus := (cpus m)[i := f (cpus m ! i)]\<rparr>"

definition pushcli :: "nat \<Rightarrow> smp \<Rightarrow> (smp, smp) res" where
  "pushcli i m =
     (let eflags = c_IF (cpus m ! i);
          m = upd_cpu i (\<lambda>c. c\<lparr>c_IF := False\<rparr>) m in
      rbind (mycpu i m) (\<lambda>j.
        let m = (if c_ncli (cpus m ! j) = 0 then upd_cpu j (\<lambda>c. c\<lparr>c_intena := eflags\<rparr>) m else m) in
        Ok (upd_cpu j (\<lambda>c. c\<lparr>c_ncli := c_ncli c + 1\<rparr>) m)))"

definition popcli :: "nat \<Rightarrow> smp \<Rightarrow> (smp, smp) res" where
  "popcli i m =
     (if c_IF (cpus m ! i) then Panic ''popcli - interruptible''
      else rbind (mycpu i m) (\<lambda>j.
        let m = upd_cpu j (\<lambda>c. c\<lparr>c_ncli := c_ncli c - 1\<rparr>) m in
        if c_ncli (cpus m ! j) < 0 then Panic ''popcli''
        else if c_ncli (cpus m ! j) = 0 \<and> c_intena (cpus m ! j)
        then Ok (upd_cpu i (\<lambda>c. c\<lparr>c_IF := True\<rparr>) m)
        else Ok m))"

definition holding :: "nat \<Rightarrow> lockid \<Rightarrow> smp \<Rightarrow> (smp, bool) res" where
  "holding i l m =
     (if lk_locked (lks m l) = 0 then Ok False
      else rbind (mycpu i m) (\<lambda>j. Ok (lk_cpu (lks m l) = Some j)))"

text \<open>\<open>getcallerpcs\<close> follows the chain of saved frame pointers in memory, at most ten
  frames, and fills the rest of the array with zeros.\<close>

fun callerpcs :: "memory \<Rightarrow> u32 \<Rightarrow> nat \<Rightarrow> u32 list" where
  "callerpcs m ebp 0 = []"
| "callerpcs m ebp (Suc n) =
     (if ebp = 0 \<or> ebp < KERNBASE \<or> ebp = 0xffffffff then replicate (Suc n) 0
      else load32 m (ebp + 4) # callerpcs m (load32 m ebp) n)"

definition getcallerpcs :: "memory \<Rightarrow> u32 \<Rightarrow> u32 list" where
  "getcallerpcs m v = callerpcs m (v - 8) 10"

lemma length_getcallerpcs [simp]: "length (getcallerpcs m v) = 10"
proof -
  have "length (callerpcs m ebp n) = n" for ebp n
    by (induction n arbitrary: ebp) auto
  then show ?thesis by (simp add: getcallerpcs_def)
qed

text \<open>\<open>acquire\<close> on processor \<open>i\<close>; \<open>v\<close> is the address of its argument on the stack of memory
  \<open>mm\<close>. With the lock taken by another processor it spins: seen from this processor alone, it
  does not return.\<close>

definition acquire_cpu :: "memory \<Rightarrow> u32 \<Rightarrow> nat \<Rightarrow> lockid \<Rightarrow> smp \<Rightarrow> (smp, smp) res" where
  "acquire_cpu mm v i l m =
     rbind (pushcli i m) (\<lambda>m.
     rbind (holding i l m) (\<lambda>h.
       if h then Panic ''acquire''
       else if lk_locked (lks m l) \<noteq> 0 then Hang
       else
         let m = m\<lparr>lks := (lks m)(l := (lks m l)\<lparr>lk_locked := 1\<rparr>)\<rparr> in
         rbind (mycpu i m) (\<lambda>j.
         Ok (m\<lparr>lks := (lks m)(l := (lks m l)\<lparr>lk_cpu := Some j, lk_pcs := getcallerpcs mm v\<rparr>)\<rparr>))))"

definition release_cpu :: "nat \<Rightarrow> lockid \<Rightarrow> smp \<Rightarrow> (smp, smp) res" where
  "release_cpu i l m =
     rbind (holding i l m) (\<lambda>h.
       if \<not> h then Panic ''release''
       else
         let m = m\<lparr>lks := (lks m)(l := (lks m l)\<lparr>lk_pcs := (lk_pcs (lks m l))[0 := 0], lk_cpu := None\<rparr>)\<rparr>;
             m = m\<lparr>lks := (lks m)(l := (lks m l)\<lparr>lk_locked := 0\<rparr>)\<rparr> in
         popcli i m)"

section \<open>Nesting of interrupt disabling\<close>

text \<open>A well-formed machine: APIC ids identify processors, counts are not negative, and a
  processor whose count is positive has interrupts off.\<close>

definition smp_wf :: "smp \<Rightarrow> bool" where
  "smp_wf m \<longleftrightarrow> distinct (map c_apicid (cpus m)) \<and>
     (\<forall>i < length (cpus m). 0 \<le> c_ncli (cpus m ! i) \<and> (0 < c_ncli (cpus m ! i) \<longrightarrow> \<not> c_IF (cpus m ! i)))"

lemma length_upd_cpu [simp]: "length (cpus (upd_cpu i f m)) = length (cpus m)"
  and lks_upd_cpu [simp]: "lks (upd_cpu i f m) = lks m"
  and nth_upd_cpu: "i < length (cpus m) \<Longrightarrow>
    cpus (upd_cpu i f m) ! j = (if j = i then f (cpus m ! i) else cpus m ! j)"
  by (simp_all add: upd_cpu_def nth_list_update)

lemma apicids_upd_cpu [simp]:
  "(\<And>c. c_apicid (f c) = c_apicid c) \<Longrightarrow>
     map c_apicid (cpus (upd_cpu i f m)) = map c_apicid (cpus m)"
  by (cases "i < length (cpus m)") (simp_all add: upd_cpu_def map_update list_update_beyond
      list_update_same_conv)

lemma mycpu_self:
  assumes "distinct (map c_apicid (cpus m))" "i < length (cpus m)" "\<not> c_IF (cpus m ! i)"
  shows "mycpu i m = Ok i"
proof -
  have "c_apicid (cpus m ! j) = c_apicid (cpus m ! i) \<longleftrightarrow> j = i" if "j < length (cpus m)" for j
    using assms(1,2) that by (metis length_map nth_eq_iff_index_eq nth_map)
  then have "find_from (\<lambda>j. c_apicid (cpus m ! j) = c_apicid (cpus m ! i)) 0 (length (cpus m)) = Some i"
    using assms(2) by (auto simp: find_from_eq_Some_iff)
  with assms(3) show ?thesis by (simp add: mycpu_def)
qed

lemma upd_cpu_upd_cpu [simp]:
  "upd_cpu i g (upd_cpu i f m) = upd_cpu i (g \<circ> f) m"
  by (cases "i < length (cpus m)") (simp_all add: upd_cpu_def list_update_beyond)

text \<open>What the two routines do to the processor they run on.\<close>

definition push_c :: "cpu \<Rightarrow> cpu" where
  "push_c c = c\<lparr>c_IF := False, c_intena := (if c_ncli c = 0 then c_IF c else c_intena c),
     c_ncli := c_ncli c + 1\<rparr>"

definition pop_c :: "cpu \<Rightarrow> cpu" where
  "pop_c c = c\<lparr>c_ncli := c_ncli c - 1, c_IF := (c_ncli c = 1 \<and> c_intena c)\<rparr>"

lemma upd_cpu_cong: "i < length (cpus m) \<Longrightarrow> f (cpus m ! i) = g (cpus m ! i) \<Longrightarrow>
    upd_cpu i f m = upd_cpu i g m"
  by (simp add: upd_cpu_def)

lemma upd_cpu_id: "f (cpus m ! i) = cpus m ! i \<Longrightarrow> upd_cpu i f m = m"
  by (simp add: upd_cpu_def)

lemma pushcli_eq:
  assumes "smp_wf m" "i < length (cpus m)"
  shows "pushcli i m = Ok (upd_cpu i push_c m)"
proof -
  have "mycpu i (upd_cpu i (\<lambda>c. c\<lparr>c_IF := False\<rparr>) m) = Ok i"
    using assms by (intro mycpu_self) (simp_all add: smp_wf_def nth_upd_cpu)
  with assms(2) show ?thesis
    by (auto simp: pushcli_def Let_def nth_upd_cpu push_c_def intro!: upd_cpu_cong)
qed

lemma popcli_eq:
  assumes "smp_wf m" "i < length (cpus m)" "0 < c_ncli (cpus m ! i)"
  shows "popcli i m = Ok (upd_cpu i pop_c m)"
proof -
  have off: "\<not> c_IF (cpus m ! i)" using assms by (simp add: smp_wf_def)
  then have "mycpu i m = Ok i" using assms by (intro mycpu_self) (simp_all add: smp_wf_def)
  with off assms(2,3) show ?thesis
    by (auto simp: popcli_def Let_def nth_upd_cpu pop_c_def intro!: upd_cpu_cong)
qed

lemma smp_wf_push: "smp_wf m \<Longrightarrow> i < length (cpus m) \<Longrightarrow> smp_wf (upd_cpu i push_c m)"
  by (auto simp: smp_wf_def nth_upd_cpu push_c_def)

lemma smp_wf_pop:
  "smp_wf m \<Longrightarrow> i < length (cpus m) \<Longrightarrow> 0 < c_ncli (cpus m ! i) \<Longrightarrow> smp_wf (upd_cpu i pop_c m)"
  by (auto simp: smp_wf_def nth_upd_cpu pop_c_def)

fun pushes :: "nat \<Rightarrow> nat \<Rightarrow> smp \<Rightarrow> (smp, smp) res" where
  "pushes 0 i m = Ok m"
| "pushes (Suc n) i m = rbind (pushcli i m) (pushes n i)"

fun pops :: "nat \<Rightarrow> nat \<Rightarrow> smp \<Rightarrow> (smp, smp) res" where
  "pops 0 i m = Ok m"
| "pops (Suc n) i m = rbind (pops n i m) (popcli i)"

text \<open>The state after any number of matched calls: only the saved flag may have changed, and
  only when the processor was not already inside a \<open>pushcli\<close>.\<close>

definition settle :: "cpu \<Rightarrow> cpu" where
  "settle c = (if c_ncli c = 0 then c\<lparr>c_intena := c_IF c\<rparr> else c)"

lemma pop_push_settle:
  "0 \<le> c_ncli c \<Longrightarrow> (0 < c_ncli c \<longrightarrow> \<not> c_IF c) \<Longrightarrow> pop_c (push_c c) = settle c"
  by (cases c) (auto simp: pop_c_def push_c_def settle_def)

lemma settle_push [simp]: "0 \<le> c_ncli c \<Longrightarrow> settle (push_c c) = push_c c"
  by (simp add: settle_def push_c_def)

lemma pops_pushes:
  assumes "smp_wf m" "i < length (cpus m)"
  shows "rbind (pushes n i m) (pops n i) = Ok (if n = 0 then m else upd_cpu i settle m)"
  using assms
proof (induction n arbitrary: m)
  case (Suc n)
  let ?m = "upd_cpu i push_c m"
  have wf: "smp_wf ?m" by (rule smp_wf_push [OF Suc.prems])
  have c: "0 \<le> c_ncli (cpus m ! i)" "0 < c_ncli (cpus m ! i) \<longrightarrow> \<not> c_IF (cpus m ! i)"
    using Suc.prems by (auto simp: smp_wf_def)
  have "rbind (pushes (Suc n) i m) (pops (Suc n) i) = rbind (rbind (pushes n i ?m) (pops n i)) (popcli i)"
  proof -
    have "pops (Suc n) i = (\<lambda>x. rbind (pops n i x) (popcli i))" by (rule ext) simp
    then show ?thesis by (simp only: pushes.simps pushcli_eq [OF Suc.prems] rbind.simps rbind_assoc)
  qed
  also have "\<dots> = rbind (Ok ?m) (popcli i)"
  proof -
    have "upd_cpu i settle ?m = ?m"
      using Suc.prems(2) c by (intro upd_cpu_id) (simp add: nth_upd_cpu)
    with Suc.IH [OF wf] Suc.prems(2) show ?thesis by simp
  qed
  also have "\<dots> = Ok (upd_cpu i pop_c ?m)"
    using Suc.prems(2) c by (simp add: popcli_eq [OF wf] nth_upd_cpu push_c_def)
  also have "\<dots> = Ok (upd_cpu i settle m)"
    using Suc.prems(2) c by (auto simp: pop_push_settle intro!: upd_cpu_cong)
  finally show ?case by (simp only: nat.distinct if_False)
qed simp

definition smp_up :: smp where
  "smp_up = \<lparr>cpus = [\<lparr>c_apicid = 0, c_ncli = 0, c_intena = False, c_IF = True\<rparr>],
     lks = (\<lambda>_. initlock)\<rparr>"

text \<open>\<open>pushcli\<close> and \<open>popcli\<close> are matched: after any number of
  \<open>pushcli\<close> calls and as many \<open>popcli\<close> calls the processor's interrupt flag and nesting
  count are what they were, no other processor and no lock has changed, and in between
  (whenever at least one \<open>pushcli\<close> is pending) interrupts are off.\<close>

theorem pushcli_popcli_nest:
  assumes "smp_wf m" "i < length (cpus m)"
  shows "\<exists>m1 m2. pushes n i m = Ok m1 \<and> pops n i m1 = Ok m2 \<and>
    c_IF (cpus m2 ! i) = c_IF (cpus m ! i) \<and> c_ncli (cpus m2 ! i) = c_ncli (cpus m ! i) \<and>
    (\<forall>j. j \<noteq> i \<longrightarrow> cpus m2 ! j = cpus m ! j) \<and> lks m2 = lks m \<and>
    (0 < n \<longrightarrow> \<not> c_IF (cpus m1 ! i))"
proof -
  have off: "\<exists>m1. pushes n i m = Ok m1 \<and> smp_wf m1 \<and> length (cpus m1) = length (cpus m) \<and>
      c_ncli (cpus m1 ! i) = c_ncli (cpus m ! i) + int n"
    using assms
  proof (induction n arbitrary: m)
    case (Suc n)
    from Suc.IH [OF smp_wf_push [OF Suc.prems]] Suc.prems show ?case
      by (auto simp: pushcli_eq nth_upd_cpu push_c_def)
  qed simp
  then obtain m1 where m1: "pushes n i m = Ok m1" "smp_wf m1" "length (cpus m1) = length (cpus m)"
    "c_ncli (cpus m1 ! i) = c_ncli (cpus m ! i) + int n" by blast
  have "0 \<le> c_ncli (cpus m ! i)" using assms by (simp add: smp_wf_def)
  with m1 assms(2) have "0 < n \<longrightarrow> \<not> c_IF (cpus m1 ! i)" by (auto simp: smp_wf_def)
  moreover have "pops n i m1 = Ok (if n = 0 then m else upd_cpu i settle m)"
    using pops_pushes [OF assms, of n] m1(1) by simp
  ultimately show ?thesis
    using m1(1) assms(2) by (auto simp: nth_upd_cpu settle_def)
qed

theorem pushcli_popcli_nest_witness:
  "\<exists>m1 m2. pushes 2 0 (smp_up) = Ok m1 \<and> pops 2 0 m1 = Ok m2 \<and> c_IF (cpus m2 ! 0) \<and>
     \<not> c_IF (cpus m1 ! 0)"
  using pushcli_popcli_nest [of "smp_up" 0 2]
  by (auto simp: smp_up_def smp_wf_def)

section \<open>Interleavings: mutual exclusion\<close>

text \<open>Where a processor is: running ordinary code, spinning in \<open>acquire\<close>, past the
  successful \<open>xchg\<close> but before \<open>lk->cpu = mycpu()\<close>, or in \<open>release\<close> between clearing
  \<open>lk->cpu\<close> and storing 0 to \<open>lk->locked\<close>. \<open>held\<close> records, for the statements only, which
  locks a processor has taken and not yet given back.\<close>

datatype lpc = Run | Spin lockid | Got lockid | Rel lockid

record smp_run =
  mach :: smp
  pc :: "nat \<Rightarrow> lpc"
  held :: "nat \<Rightarrow> lockid set"

definition set_lk :: "lockid \<Rightarrow> (spinlock \<Rightarrow> spinlock) \<Rightarrow> smp \<Rightarrow> smp" where
  "set_lk l f m = m\<lparr>lks := (lks m)(l := f (lks m l))\<rparr>"

inductive lock_step :: "smp_run \<Rightarrow> smp_run \<Rightarrow> bool" where
  call: "i < length (cpus (mach r)) \<Longrightarrow> pc r i = Run \<Longrightarrow> pushcli i (mach r) = Ok m \<Longrightarrow>
    holding i l m = Ok False \<Longrightarrow> lock_step r (r\<lparr>mach := m, pc := (pc r)(i := Spin l)\<rparr>)"
| spin: "i < length (cpus (mach r)) \<Longrightarrow> pc r i = Spin l \<Longrightarrow> lk_locked (lks (mach r) l) \<noteq> 0 \<Longrightarrow>
    lock_step r (r\<lparr>mach := set_lk l (\<lambda>k. k\<lparr>lk_locked := 1\<rparr>) (mach r)\<rparr>)"
| take: "i < length (cpus (mach r)) \<Longrightarrow> pc r i = Spin l \<Longrightarrow> lk_locked (lks (mach r) l) = 0 \<Longrightarrow>
    lock_step r (r\<lparr>mach := set_lk l (\<lambda>k. k\<lparr>lk_locked := 1\<rparr>) (mach r),
      pc := (pc r)(i := Got l), held := (held r)(i := insert l (held r i))\<rparr>)"
| own: "i < length (cpus (mach r)) \<Longrightarrow> pc r i = Got l \<Longrightarrow>
    lock_step r (r\<lparr>mach := set_lk l (\<lambda>k. k\<lparr>lk_cpu := Some i\<rparr>) (mach r), pc := (pc r)(i := Run)\<rparr>)"
| disown: "i < length (cpus (mach r)) \<Longrightarrow> pc r i = Run \<Longrightarrow> holding i l (mach r) = Ok True \<Longrightarrow>
    lock_step r (r\<lparr>mach := set_lk l (\<lambda>k. k\<lparr>lk_cpu := None\<rparr>) (mach r), pc := (pc r)(i := Rel l)\<rparr>)"
| drop: "i < length (cpus (mach r)) \<Longrightarrow> pc r i = Rel l \<Longrightarrow>
    popcli i (set_lk l (\<lambda>k. k\<lparr>lk_locked := 0\<rparr>) (mach r)) = Ok m \<Longrightarrow>
    lock_step r (r\<lparr>mach := m, pc := (pc r)(i := Run), held := (held r)(i := held r i - {l})\<rparr>)"
| irq: "i < length (cpus (mach r)) \<Longrightarrow> pc r i = Run \<Longrightarrow> c_ncli (cpus (mach r) ! i) = 0 \<Longrightarrow>
    lock_step r (r\<lparr>mach := upd_cpu i (\<lambda>c. c\<lparr>c_IF := b\<rparr>) (mach r)\<rparr>)"

definition smp_init :: "cpu list \<Rightarrow> smp_run" where
  "smp_init cs = \<lparr>mach = \<lparr>cpus = cs, lks = (\<lambda>_. initlock)\<rparr>, pc = (\<lambda>_. Run), held = (\<lambda>_. {})\<rparr>"

inductive smp_reach :: "cpu list \<Rightarrow> smp_run \<Rightarrow> bool" for cs where
  init: "distinct (map c_apicid cs) \<Longrightarrow> (\<forall>c \<in> set cs. c_ncli c = 0) \<Longrightarrow> smp_reach cs (smp_init cs)"
| step: "smp_reach cs r \<Longrightarrow> lock_step r r' \<Longrightarrow> smp_reach cs r'"

definition lock_inv :: "smp_run \<Rightarrow> bool" where
  "lock_inv r \<longleftrightarrow> smp_wf (mach r) \<and>
     (\<forall>i j l. l \<in> held r i \<longrightarrow> l \<in> held r j \<longrightarrow> i = j) \<and>
     (\<forall>l. lk_locked (lks (mach r) l) \<noteq> 0 \<longleftrightarrow> (\<exists>i. l \<in> held r i)) \<and>
     (\<forall>i l. lk_cpu (lks (mach r) l) = Some i \<longleftrightarrow> l \<in> held r i \<and> pc r i \<noteq> Got l \<and> pc r i \<noteq> Rel l) \<and>
     (\<forall>i l. pc r i = Got l \<or> pc r i = Rel l \<longrightarrow> l \<in> held r i) \<and>
     (\<forall>i < length (cpus (mach r)). finite (held r i) \<and>
        c_ncli (cpus (mach r) ! i) =
          int (card (held r i)) + (case pc r i of Spin l \<Rightarrow> 1 | _ \<Rightarrow> 0))"

lemma set_lk_simps [simp]:
  "cpus (set_lk l f m) = cpus m" "lks (set_lk l f m) = (lks m)(l := f (lks m l))"
  "smp_wf (set_lk l f m) = smp_wf m"
  by (simp_all add: set_lk_def smp_wf_def)

lemma lock_inv_init: "distinct (map c_apicid cs) \<Longrightarrow> \<forall>c \<in> set cs. c_ncli c = 0 \<Longrightarrow> lock_inv (smp_init cs)"
  by (auto simp: lock_inv_def smp_init_def smp_wf_def initlock_def)

lemma holding_iff:
  assumes "smp_wf m" "i < length (cpus m)" "\<not> c_IF (cpus m ! i)"
  shows "holding i l m = Ok (lk_locked (lks m l) \<noteq> 0 \<and> lk_cpu (lks m l) = Some i)"
  using assms mycpu_self [of m i] by (auto simp: holding_def smp_wf_def)

lemma holding_TrueD:
  assumes "smp_wf m" "i < length (cpus m)" "holding i l m = Ok True"
  shows "lk_cpu (lks m l) = Some i"
proof -
  from assms(3) have "\<not> c_IF (cpus m ! i)" by (auto simp: holding_def mycpu_def split: if_splits)
  with assms show ?thesis by (simp add: holding_iff)
qed

lemma lock_step_inv: "lock_step r r' \<Longrightarrow> lock_inv r \<Longrightarrow> lock_inv r'"
proof (induction rule: lock_step.induct)
  case (call i r m l)
  from call have "smp_wf (mach r)" by (simp add: lock_inv_def)
  with call have "m = upd_cpu i push_c (mach r)" by (simp add: pushcli_eq)
  with call show ?case
    by (auto simp: lock_inv_def smp_wf_push nth_upd_cpu push_c_def)
next
  case (spin i r l)
  then show ?case unfolding lock_inv_def by auto
next
  case (take i r l)
  then have "\<And>j. l \<notin> held r j" by (auto simp: lock_inv_def)
  with take show ?case by (auto simp: lock_inv_def split: if_splits) metis
next
  case (own i r l)
  then show ?case unfolding lock_inv_def by (auto split: if_splits)
next
  case (disown i r l)
  then have "smp_wf (mach r)" by (simp add: lock_inv_def)
  with disown have "lk_cpu (lks (mach r) l) = Some i" by (intro holding_TrueD)
  with disown show ?case unfolding lock_inv_def by (auto split: if_splits)
next
  case (drop i r l m)
  then have l: "l \<in> held r i" by (auto simp: lock_inv_def)
  from drop have "finite (held r i)" by (simp add: lock_inv_def)
  with l have "0 < card (held r i)" by (metis card_gt_0_iff empty_iff)
  with drop have m: "m = upd_cpu i pop_c (set_lk l (\<lambda>k. k\<lparr>lk_locked := 0\<rparr>) (mach r))"
    and n: "0 < c_ncli (cpus (mach r) ! i)"
    by (auto simp: lock_inv_def popcli_eq)
  have wf: "smp_wf m" using m n drop by (simp add: smp_wf_pop lock_inv_def)
  from l m n wf drop show ?case
    by (auto simp: lock_inv_def nth_upd_cpu pop_c_def card_Diff_singleton split: if_splits)
next
  case (irq i r b)
  then show ?case by (auto simp: lock_inv_def smp_wf_def nth_upd_cpu split: if_splits)
qed

lemma smp_reach_inv: "smp_reach cs r \<Longrightarrow> lock_inv r"
  by (induction rule: smp_reach.induct) (auto intro: lock_inv_init lock_step_inv)

text \<open>C1 [spinlock_mutual_exclusion]: whatever the processors do and however their steps
  interleave, two processors never have the same spin lock, a processor that has one runs
  with interrupts disabled, and in ordinary code \<open>holding()\<close> answers exactly whether the
  processor has the lock.\<close>

theorem spinlock_mutual_exclusion:
  assumes "smp_reach cs r" and "l \<in> held r i" and "i < length (cpus (mach r))"
  shows "(\<forall>j. l \<in> held r j \<longrightarrow> j = i) \<and> \<not> c_IF (cpus (mach r) ! i) \<and>
    (pc r i = Run \<longrightarrow> (\<forall>l'. holding i l' (mach r) = Ok (l' \<in> held r i)))"
proof -
  from assms(1) have inv: "lock_inv r" by (rule smp_reach_inv)
  with assms(2,3) have "0 < card (held r i)" by (auto simp: lock_inv_def card_gt_0_iff)
  with inv assms(3) have "0 < c_ncli (cpus (mach r) ! i)"
    by (auto simp: lock_inv_def split: lpc.splits)
  with inv assms(3) have off: "\<not> c_IF (cpus (mach r) ! i)" by (auto simp: lock_inv_def smp_wf_def)
  with inv assms(3) have "holding i l' (mach r) = Ok (l' \<in> held r i)" if "pc r i = Run" for l'
    using that by (auto simp: lock_inv_def holding_iff)
  with inv off assms(2) show ?thesis by (auto simp: lock_inv_def)
qed

theorem spinlock_mutual_exclusion_witness:
  defines "c \<equiv> \<lambda>a. \<lparr>c_apicid = a, c_ncli = 0, c_intena = False, c_IF = True\<rparr>"
  shows "\<exists>r. smp_reach [c 0, c 1] r \<and> L_kmem \<in> held r 1 \<and> \<not> c_IF (cpus (mach r) ! 1)"
proof -
  let ?cs = "[c 0, c 1]"
  let ?r0 = "smp_init ?cs"
  let ?m1 = "upd_cpu 1 push_c (mach ?r0)"
  let ?r1 = "?r0\<lparr>mach := ?m1, pc := (pc ?r0)(1 := Spin L_kmem)\<rparr>"
  let ?r2 = "?r1\<lparr>mach := set_lk L_kmem (\<lambda>k. k\<lparr>lk_locked := 1\<rparr>) (mach ?r1),
    pc := (pc ?r1)(1 := Got L_kmem), held := (held ?r1)(1 := insert L_kmem (held ?r1 1))\<rparr>"
  have 0: "smp_reach ?cs ?r0" by (rule smp_reach.init) (auto simp: c_def)
  have "smp_wf (mach ?r0)" by (auto simp: smp_wf_def smp_init_def c_def nth_Cons')
  then have "pushcli 1 (mach ?r0) = Ok ?m1"
    by (rule pushcli_eq) (simp add: smp_init_def)
  then have "lock_step ?r0 ?r1"
    by (rule lock_step.call [rotated 2]) (simp_all add: smp_init_def holding_def initlock_def)
  with 0 have 1: "smp_reach ?cs ?r1" by (rule smp_reach.step)
  have "lock_step ?r1 ?r2"
    by (rule lock_step.take) (simp_all add: smp_init_def initlock_def)
  with 1 have 2: "smp_reach ?cs ?r2" by (rule smp_reach.step)
  have "L_kmem \<in> held ?r2 1" "1 < length (cpus (mach ?r2))" by (simp_all add: smp_init_def)
  with spinlock_mutual_exclusion [OF 2 this] 2 show ?thesis by blast
qed

section \<open>One processor's view\<close>

text \<open>The routines on the kernel record, and what \<open>holding\<close> of the complete lock
  contributes to it.\<close>

definition acquire :: "lockid \<Rightarrow> kernel \<Rightarrow> (kernel, kernel) res" where
  [op_defs]: "acquire l s =
     (if locks s l then Panic ''acquire''
      else Ok (s\<lparr>locks := (locks s)(l := True), ncli := ncli s + 1\<rparr>))"

definition release :: "lockid \<Rightarrow> kernel \<Rightarrow> (kernel, kernel) res" where
  [op_defs]: "release l s =
     (if \<not> locks s l then Panic ''release''
      else Ok (s\<lparr>locks := (locks s)(l := False), ncli := ncli s - 1\<rparr>))"

definition view :: "nat \<Rightarrow> smp \<Rightarrow> lockid \<Rightarrow> bool" where
  "view i m l \<longleftrightarrow> lk_locked (lks m l) \<noteq> 0 \<and> lk_cpu (lks m l) = Some i"



lemma acquire_free [simp]: "\<not> locks s l \<Longrightarrow> acquire l s = Ok (s\<lparr>locks := (locks s)(l := True), ncli := ncli s + 1\<rparr>)"
  by (simp add: acquire_def)

lemma release_held [simp]: "locks s l \<Longrightarrow> release l s = Ok (s\<lparr>locks := (locks s)(l := False), ncli := ncli s - 1\<rparr>)"
  by (simp add: release_def)

lemma locks_restore [simp]: "\<not> locks s l \<Longrightarrow> (locks s)(l := False) = locks s"
  by (simp add: fun_upd_idem)

end
