(* ===== verification/Kalloc.thy ===== *)
theory Kalloc
  imports Spinlock "HOL-Library.Multiset"
begin

text \<open>
  The physical page allocator (\<open>kalloc.c\<close>). The free list is threaded through the free
  pages themselves, in the byte memory; the abstraction is the set of free pages. The
  contract of the allocator is the locale \<open>page_allocator\<close>, interpreted on \<open>kalloc\<close> and
  \<open>kfree\<close>.
\<close>

section \<open>The code\<close>

definition kfree :: "u32 \<Rightarrow> kernel \<Rightarrow> (kernel, kernel) res" where
  "kfree v s =
     (if v mod PGSIZE \<noteq> 0 \<or> v < k_end s \<or> V2P v \<ge> PHYSTOP then Panic ''kfree''
      else
        let s = s\<lparr>mem := memset (mem s) v 1 PGSIZE\<rparr> in
        rbind (if kmem_use_lock s then acquire L_kmem s else Ok s) (\<lambda>s.
        let s = s\<lparr>mem := store32 (mem s) v (kmem_freelist s)\<rparr>;
            s = s\<lparr>kmem_freelist := v\<rparr> in
        if kmem_use_lock s then release L_kmem s else Ok s))"

definition kalloc :: "kernel \<Rightarrow> u32 kres" where
  "kalloc s =
     rbind (if kmem_use_lock s then acquire L_kmem s else Ok s) (\<lambda>s.
     let r = kmem_freelist s;
         s = (if r \<noteq> 0 then s\<lparr>kmem_freelist := load32 (mem s) r\<rparr> else s) in
     rbind (if kmem_use_lock s then release L_kmem s else Ok s) (\<lambda>s. Ok (r, s)))"

text \<open>The counting loop of \<open>getCurrentCapacity\<close>: it need not end if the list is cyclic.\<close>

partial_function (option) count_free :: "memory \<Rightarrow> u32 \<Rightarrow> int \<Rightarrow> int option" where
  "count_free m temp counter =
     (if temp = 0 then Some counter else count_free m (load32 m temp) (counter + 1))"

definition getCurrentCapacity :: "kernel \<Rightarrow> int kres" where
  "getCurrentCapacity s =
     rbind (if kmem_use_lock s then acquire L_kmem s else Ok s) (\<lambda>s.
     case count_free (mem s) (kmem_freelist s) 0 of
       None \<Rightarrow> Hang
     | Some counter \<Rightarrow>
         rbind (if kmem_use_lock s then release L_kmem s else Ok s) (\<lambda>s. Ok (counter, s)))"

lemma V2P_less_PHYSTOP: "V2P v < PHYSTOP \<Longrightarrow> 0x80000000 \<le> v \<and> v < 0x8E000000"
  by (simp add: V2P_def word_less_nat_alt word_le_nat_alt unat_sub_if' split: if_splits)

lemma kfree_OkD: "kfree v s = Ok s' \<Longrightarrow> V2P v < PHYSTOP"
  by (auto simp: kfree_def split: if_splits)

function freerange_from :: "u32 \<Rightarrow> u32 \<Rightarrow> kernel \<Rightarrow> (kernel, kernel) res" where
  "freerange_from p vend s =
     (if p + PGSIZE \<le> vend then rbind (kfree p s) (\<lambda>s. freerange_from (p + PGSIZE) vend s)
      else Ok s)"
  by pat_completeness auto
termination
  by (relation "measure (\<lambda>(p, _). 2 ^ 32 - unat p)")
     (auto dest!: kfree_OkD V2P_less_PHYSTOP simp: word_less_nat_alt word_le_nat_alt unat_plus_if')

declare freerange_from.simps [simp del]

definition freerange :: "u32 \<Rightarrow> u32 \<Rightarrow> kernel \<Rightarrow> (kernel, kernel) res" where
  "freerange vstart vend s = freerange_from (PGROUNDUP vstart) vend s"

definition kinit1 :: "u32 \<Rightarrow> u32 \<Rightarrow> kernel \<Rightarrow> (kernel, kernel) res" where
  "kinit1 vstart vend s =
     freerange vstart vend (s\<lparr>locks := (locks s)(L_kmem := False), kmem_use_lock := False\<rparr>)"

definition kinit2 :: "u32 \<Rightarrow> u32 \<Rightarrow> kernel \<Rightarrow> (kernel, kernel) res" where
  "kinit2 vstart vend s = rbind (freerange vstart vend s) (\<lambda>s. Ok (s\<lparr>kmem_use_lock := True\<rparr>))"

section \<open>The free list in memory\<close>

fun flist :: "memory \<Rightarrow> u32 \<Rightarrow> u32 list \<Rightarrow> bool" where
  "flist m p [] \<longleftrightarrow> p = 0"
| "flist m p (x # xs) \<longleftrightarrow> p = x \<and> x \<noteq> 0 \<and> flist m (load32 m x) xs"

text \<open>A page the allocator may own, and the invariant of the allocator with free set \<open>F\<close>.\<close>

definition kpage :: "kernel \<Rightarrow> u32 \<Rightarrow> bool" where
  "kpage s v \<longleftrightarrow> page_aligned v \<and> k_end s \<le> v \<and> V2P v < PHYSTOP"

definition kmem_inv :: "kernel \<Rightarrow> u32 set \<Rightarrow> bool" where
  [inv_defs]: "kmem_inv s F \<longleftrightarrow> \<not> locks s L_kmem \<and> (\<forall>v \<in> F. kpage s v) \<and>
     (\<exists>xs. flist (mem s) (kmem_freelist s) xs \<and> distinct xs \<and> set xs = F)"

lemma kpage_not0 [simp]: "kpage s v \<Longrightarrow> v \<noteq> 0"
  by (auto simp: kpage_def V2P_def)

lemma kpage_aligned [simp, dest]: "kpage s v \<Longrightarrow> page_aligned v"
  by (simp add: kpage_def)

lemma load32_link:
  "(\<And>x. in_range v 4096 x \<Longrightarrow> m x = m' x) \<Longrightarrow> load32 m v = load32 m' v"
  using load32_page [of 0 v m m'] by simp

lemma flist_cong:
  "(\<And>v x. v \<in> set xs \<Longrightarrow> in_range v 4096 x \<Longrightarrow> m x = m' x) \<Longrightarrow> flist m p xs = flist m' p xs"
proof (induction xs arbitrary: p)
  case (Cons a xs)
  have "load32 m a = load32 m' a" by (rule load32_link, rule Cons.prems [of a]) simp
  moreover have "flist m (load32 m' a) xs = flist m' (load32 m' a) xs"
    by (rule Cons.IH, rule Cons.prems) auto
  ultimately show ?case by simp
qed simp

lemma flist_empty_iff: "flist m p xs \<Longrightarrow> xs = [] \<longleftrightarrow> p = 0"
  by (cases xs) auto

lemma count_free_flist: "flist m p xs \<Longrightarrow> count_free m p n = Some (n + int (length xs))"
  by (induction xs arbitrary: p n) (simp_all add: count_free.simps)

lemma kmem_inv_write:
  assumes "kmem_inv s F" and "\<And>v x. v \<in> F \<Longrightarrow> in_range v 4096 x \<Longrightarrow> m x = mem s x"
  shows "kmem_inv (s\<lparr>mem := m\<rparr>) F"
proof -
  from assms(1) obtain xs where xs: "flist (mem s) (kmem_freelist s) xs" "distinct xs" "set xs = F"
    by (auto simp: kmem_inv_def)
  then have "flist m (kmem_freelist s) xs"
    using flist_cong [of xs m "mem s" "kmem_freelist s"] assms(2) by simp
  with xs assms(1) show ?thesis by (auto simp: kmem_inv_def kpage_def)
qed

section \<open>What the routines do under the invariant\<close>

lemma kalloc_empty:
  assumes "kmem_inv s {}"
  shows "kalloc s = Ok (0, s)"
  using assms by (auto simp: kmem_inv_def kalloc_def fun_upd_idem)

lemma kalloc_some:
  assumes "kmem_inv s F" and "F \<noteq> {}"
  shows "\<exists>r p. kalloc s = Ok (r, s\<lparr>kmem_freelist := p\<rparr>) \<and> r \<in> F \<and> kmem_inv (s\<lparr>kmem_freelist := p\<rparr>) (F - {r})"
proof -
  from assms obtain x xs where xs: "flist (mem s) (kmem_freelist s) (x # xs)" "distinct (x # xs)"
    "set (x # xs) = F" by (metis kmem_inv_def list.exhaust set_empty)
  with assms have "kalloc s = Ok (x, s\<lparr>kmem_freelist := load32 (mem s) x\<rparr>)"
    by (auto simp: kmem_inv_def kalloc_def fun_upd_idem)
  moreover have "kmem_inv (s\<lparr>kmem_freelist := load32 (mem s) x\<rparr>) (F - {x})"
    using assms(1) xs by (auto simp: kmem_inv_def kpage_def)
  moreover have "x \<in> F" using xs(3) by auto
  ultimately show ?thesis by blast
qed

lemma kfree_eq:
  assumes "kpage s v" and "\<not> locks s L_kmem"
  shows "kfree v s = Ok (s\<lparr>mem := store32 (memset (mem s) v 1 PGSIZE) v (kmem_freelist s), kmem_freelist := v\<rparr>)"
  using assms
  by (auto simp: kfree_def kpage_def page_aligned_word_mod not_less not_le fun_upd_idem Let_def)

lemma kfree_mem_outside:
  "\<not> in_range v 4096 x \<Longrightarrow> store32 (memset m v 1 PGSIZE) v p x = m x"
  using store32_page [of 0 v x "memset m v 1 PGSIZE" p] by (simp add: memset_apply)

lemma kfree_free:
  assumes "kmem_inv s F" "kpage s v" "v \<notin> F"
  shows "\<exists>m. kfree v s = Ok (s\<lparr>mem := m, kmem_freelist := v\<rparr>) \<and>
    kmem_inv (s\<lparr>mem := m, kmem_freelist := v\<rparr>) (insert v F) \<and>
    (\<forall>x. \<not> in_range v 4096 x \<longrightarrow> m x = mem s x)"
proof -
  let ?m = "store32 (memset (mem s) v 1 PGSIZE) v (kmem_freelist s)"
  from assms(1) obtain xs where xs: "flist (mem s) (kmem_freelist s) xs" "distinct xs" "set xs = F"
    by (auto simp: kmem_inv_def)
  have "?m x = mem s x" if "w \<in> set xs" "in_range w 4096 x" for w x
  proof (rule kfree_mem_outside)
    have "page_aligned w" "w \<noteq> v" using assms xs(3) that(1) by (auto simp: kmem_inv_def)
    with that(2) assms(2) show "\<not> in_range v 4096 x" by (auto dest: in_page_unique)
  qed
  then have "flist ?m (kmem_freelist s) xs" using xs(1) flist_cong [of xs ?m "mem s"] by simp
  with xs assms have "kmem_inv (s\<lparr>mem := ?m, kmem_freelist := v\<rparr>) (insert v F)"
    by (auto simp: kmem_inv_def kpage_def intro!: exI [of _ "v # xs"] dest: kpage_not0)
  with assms kfree_mem_outside show ?thesis
    by (auto simp: kmem_inv_def kfree_eq intro!: exI [of _ ?m])
qed

section \<open>The contract\<close>

text \<open>A client of the allocator: it asks for a page, or gives back one of the pages it has.\<close>

datatype client_op = Get | Put nat

fun run_client :: "('s \<Rightarrow> ('s, u32 \<times> 's) res) \<Rightarrow> (u32 \<Rightarrow> 's \<Rightarrow> ('s, 's) res) \<Rightarrow> client_op list \<Rightarrow>
    u32 list \<Rightarrow> 's \<Rightarrow> ('s, u32 list \<times> 's) res" where
  "run_client alloc free [] own s = Ok (own, s)"
| "run_client alloc free (Get # ops) own s =
     rbind (alloc s) (\<lambda>(r, s). run_client alloc free ops (if r = 0 then own else r # own) s)"
| "run_client alloc free (Put i # ops) own s =
     (if i < length own
      then rbind (free (own ! i) s)
        (\<lambda>s. run_client alloc free ops (take i own @ drop (Suc i) own) s)
      else run_client alloc free ops own s)"

locale page_allocator =
  fixes alloc :: "'s \<Rightarrow> ('s, u32 \<times> 's) res"
    and free :: "u32 \<Rightarrow> 's \<Rightarrow> ('s, 's) res"
    and inv :: "'s \<Rightarrow> u32 set \<Rightarrow> bool"
    and valid :: "'s \<Rightarrow> u32 \<Rightarrow> bool"
    and bytes :: "'s \<Rightarrow> memory"
  assumes alloc_none: "inv s {} \<Longrightarrow> alloc s = Ok (0, s)"
    and alloc_one: "inv s F \<Longrightarrow> F \<noteq> {} \<Longrightarrow> \<exists>r s'. alloc s = Ok (r, s') \<and> r \<in> F \<and>
      inv s' (F - {r}) \<and> valid s' = valid s \<and> bytes s' = bytes s"
    and free_one: "inv s F \<Longrightarrow> valid s v \<Longrightarrow> v \<notin> F \<Longrightarrow> \<exists>s'. free v s = Ok s' \<and>
      inv s' (insert v F) \<and> valid s' = valid s \<and> (\<forall>x. \<not> in_range v 4096 x \<longrightarrow> bytes s' x = bytes s x)"
    and free_valid: "inv s F \<Longrightarrow> v \<in> F \<Longrightarrow> valid s v"
    and valid_not0: "valid s v \<Longrightarrow> v \<noteq> 0"
begin

lemma client_partition:
  assumes "inv s F" "distinct own" "set own \<inter> F = {}" "\<forall>v \<in> set own. valid s v"
  shows "\<exists>own' s' F'. run_client alloc free ops own s = Ok (own', s') \<and> inv s' F' \<and>
    distinct own' \<and> set own' \<inter> F' = {} \<and> set own' \<union> F' = set own \<union> F"
  using assms
proof (induction ops arbitrary: own s F)
  case (Cons op ops)
  show ?case
  proof (cases op)
    case Get
    show ?thesis
    proof (cases "F = {}")
      case True
      with Cons.prems Get Cons.IH [of s F own] show ?thesis by (simp add: alloc_none)
    next
      case False
      with Cons.prems obtain r s' where r: "alloc s = Ok (r, s')" "r \<in> F" "inv s' (F - {r})"
        "valid s' = valid s" using alloc_one by blast
      have "r \<noteq> 0" using r(2) Cons.prems(1) free_valid valid_not0 by blast
      moreover have "set (r # own) \<union> (F - {r}) = set own \<union> F" using r(2) by auto
      moreover have "distinct (r # own)" "set (r # own) \<inter> (F - {r}) = {}"
        "\<forall>v \<in> set (r # own). valid s' v" using Cons.prems r free_valid by auto
      ultimately show ?thesis using Cons.IH [of s' "F - {r}" "r # own"] r Get by simp
    qed
  next
    case (Put i)
    show ?thesis
    proof (cases "i < length own")
      case True
      define rest where "rest = take i own @ drop (Suc i) own"
      have "mset own = mset (take i own @ own ! i # drop (Suc i) own)"
        using id_take_nth_drop [OF True] by simp
      then have ms: "mset own = mset (own ! i # rest)" by (simp add: rest_def)
      have rest: "set own = insert (own ! i) (set rest)" "distinct rest" "own ! i \<notin> set rest"
        using mset_eq_setD [OF ms] mset_eq_imp_distinct_iff [OF ms] Cons.prems(2) by auto
      with Cons.prems obtain s' where s': "free (own ! i) s = Ok s'" "inv s' (insert (own ! i) F)"
        "valid s' = valid s" using free_one [of s F "own ! i"] by auto
      have "\<exists>own' s'' F'. run_client alloc free ops rest s' = Ok (own', s'') \<and> inv s'' F' \<and>
        distinct own' \<and> set own' \<inter> F' = {} \<and> set own' \<union> F' = set rest \<union> insert (own ! i) F"
        using Cons.prems s' rest by (intro Cons.IH) auto
      with True s' rest Put show ?thesis by (simp add: rest_def [symmetric])
    next
      case False
      with Cons Put show ?thesis by simp
    qed
  qed
qed auto

end

interpretation kmem: page_allocator kalloc kfree kmem_inv kpage mem
proof
  fix s F
  assume "kmem_inv s F" "F \<noteq> {}"
  then show "\<exists>r s'. kalloc s = Ok (r, s') \<and> r \<in> F \<and> kmem_inv s' (F - {r}) \<and> kpage s' = kpage s \<and>
    mem s' = mem s"
    using kalloc_some [of s F] by (fastforce simp: kpage_def)
next
  fix s F v
  assume "kmem_inv s F" "kpage s v" "v \<notin> F"
  then show "\<exists>s'. kfree v s = Ok s' \<and> kmem_inv s' (insert v F) \<and> kpage s' = kpage s \<and>
    (\<forall>x. \<not> in_range v 4096 x \<longrightarrow> mem s' x = mem s x)"
    using kfree_free [of s F v] by (fastforce simp: kpage_def)
qed (auto simp: kalloc_empty kmem_inv_def)

text \<open>C6 [kalloc_kfree_partition]: whatever sequence of \<open>kalloc\<close> and \<open>kfree\<close> calls a client
  that frees only pages it has been given makes, no call panics, no page is handed out twice
  or lost: the pages the client has are distinct, disjoint from the free list, and together
  with it make up the same set of pages as at the start.\<close>

theorem kalloc_kfree_partition:
  assumes "kmem_inv s F" "distinct own" "set own \<inter> F = {}" "\<forall>v \<in> set own. kpage s v"
  shows "\<exists>own' s' F'. run_client kalloc kfree ops own s = Ok (own', s') \<and> kmem_inv s' F' \<and>
    distinct own' \<and> set own' \<inter> F' = {} \<and> set own' \<union> F' = set own \<union> F"
  using assms by (rule kmem.client_partition)

theorem kalloc_kfree_partition_witness:
  "\<exists>own' s' F'. run_client kalloc kfree [Put 0, Get, Get] [0x80200000] kernel0 = Ok (own', s') \<and>
     distinct own' \<and> set own' \<union> F' = {0x80200000}"
proof -
  have "kmem_inv kernel0 {}" "kpage kernel0 0x80200000"
    by (auto simp: kmem_inv_def kpage_def kernel0_def page_aligned_word_mod V2P_def
        intro!: exI [of _ "[]"])
  then show ?thesis
    using kalloc_kfree_partition [of kernel0 "{}" "[0x80200000]" "[Put 0, Get, Get]"] by auto
qed

section \<open>Initialisation\<close>

lemma page_alignedE:
  assumes "page_aligned v"
  obtains i where "unat v = 4096 * i"
  using assms by (auto simp: page_aligned_mod elim: dvdE [OF mod_0_imp_dvd])

lemma round_up_le: "(k + 4095) div 4096 * 4096 \<le> 4096 * i \<longleftrightarrow> k \<le> 4096 * (i :: nat)"
proof -
  have "(k + 4095) div 4096 \<le> i \<longleftrightarrow> k + 4095 < 4096 * (i + 1)"
    by (simp add: div_less_iff_less_mult less_Suc_eq_le [symmetric] mult.commute)
  then show ?thesis by (simp add: mult.commute less_Suc_eq_le)
qed

definition pages_between :: "u32 \<Rightarrow> u32 \<Rightarrow> u32 set" where
  "pages_between p vend = {v. page_aligned v \<and> unat p \<le> unat v \<and> unat v + 4096 \<le> unat vend}"

lemma pages_between_step:
  assumes "page_aligned p" "unat p + 4096 \<le> unat vend"
  shows "pages_between p vend = insert p (pages_between (p + 4096) vend)"
proof -
  have p: "unat (p + 4096) = unat p + 4096"
    using assms(2) unsigned_less [of vend, where 'a = nat] by (simp add: unat_plus_if')
  have "v = p \<or> unat p + 4096 \<le> unat v" if v: "page_aligned v" "unat p \<le> unat v" for v
  proof -
    obtain i j where "unat p = 4096 * i" "unat v = 4096 * j"
      using page_alignedE [OF assms(1)] page_alignedE [OF v(1)] by metis
    with v(2) show ?thesis by (auto simp: word_unat_eq_iff)
  qed
  with assms p show ?thesis by (auto simp: pages_between_def)
qed

lemma freerange_from_ok:
  assumes "kmem_inv s F" "page_aligned p" "k_end s \<le> p" "unat p \<le> unat vend"
    "unat vend \<le> 0x8E000000" "0x80000000 \<le> unat p" "pages_between p vend \<inter> F = {}"
  shows "\<exists>m q. freerange_from p vend s = Ok (s\<lparr>mem := m, kmem_freelist := q\<rparr>) \<and>
    kmem_inv (s\<lparr>mem := m, kmem_freelist := q\<rparr>) (F \<union> pages_between p vend)"
  using assms
proof (induction p vend s arbitrary: F rule: freerange_from.induct)
  case (1 p vend s)
  have p: "unat (p + 4096) = unat p + 4096" using "1.prems"(4,5) by (simp add: unat_plus_if')
  show ?case
  proof (cases "p + PGSIZE \<le> vend")
    case True
    then have le: "unat p + 4096 \<le> unat vend" by (simp add: word_le_nat_alt p)
    note step = pages_between_step [OF "1.prems"(2) le]
    have "kpage s p"
      using "1.prems"(2,3,5,6) le by (simp add: kpage_def V2P_def word_less_nat_alt unat_sub_if')
    with "1.prems"(1,7) step obtain m where m: "kfree p s = Ok (s\<lparr>mem := m, kmem_freelist := p\<rparr>)"
      "kmem_inv (s\<lparr>mem := m, kmem_freelist := p\<rparr>) (insert p F)"
      using kfree_free [of s F p] by auto
    have nin: "pages_between (p + 4096) vend \<inter> insert p F = {}"
      using "1.prems"(7) step p by (auto simp: pages_between_def)
    have al: "page_aligned (p + PGSIZE)"
      using "1.prems"(2) p by (simp add: page_aligned_mod)
    have "k_end s \<le> p + 4096" using "1.prems"(3) p by (simp add: word_le_nat_alt)
    with "1.prems"(5,6) True m nin al p le show ?thesis
      using "1.IH" [OF True m(1) m(2)] step by (simp add: freerange_from.simps [of p])
  next
    case False
    then have "pages_between p vend = {}"
      using p by (auto simp: pages_between_def word_le_nat_alt)
    with False "1.prems"(1) show ?thesis
      by (auto simp: freerange_from.simps [of p] intro!: exI [of _ "mem s"] exI [of _ "kmem_freelist s"])
  qed
qed

lemma kmem_inv_use_lock: "kmem_inv (s\<lparr>kmem_use_lock := b\<rparr>) F = kmem_inv s F"
  by (simp add: kmem_inv_def kpage_def)

text \<open>C8 [kinit_frees_all]: the two initialisation phases, with the addresses \<open>main()\<close>
  passes (\<open>end\<close>, \<open>mid\<close>, \<open>P2V(PHYSTOP)\<close>), succeed and leave on the free list every whole
  page from the end of the kernel image to the end of physical memory, each once, with the
  allocator's lock in use.\<close>

theorem kinit_frees_all:
  assumes "0x80000000 \<le> unat (k_end s)" "unat (k_end s) \<le> unat mid" "page_aligned mid"
    "unat mid \<le> 0x8E000000" "kmem_freelist s = 0"
  shows "\<exists>s'. rbind (kinit1 (k_end s) mid s) (kinit2 mid (P2V PHYSTOP)) = Ok s' \<and>
    kmem_use_lock s' \<and> kmem_inv s' {v. page_aligned v \<and> k_end s \<le> v \<and> v < P2V PHYSTOP}"
proof -
  let ?s = "s\<lparr>locks := (locks s)(L_kmem := False), kmem_use_lock := False\<rparr>"
  let ?p = "PGROUNDUP (k_end s)"
  have p: "unat ?p = (unat (k_end s) + 4095) div 4096 * 4096"
    using assms by (intro unat_PGROUNDUP) simp
  obtain j where j: "unat mid = 4096 * j" using assms(3) by (rule page_alignedE)
  have "(unat (k_end s) + 4095) div 4096 \<le> j" using assms(2) j by linarith
  then have b: "unat (k_end s) \<le> unat ?p" "unat ?p \<le> unat mid" "0x80000000 \<le> unat ?p"
    using p j assms(1) by linarith+
  have mid: "PGROUNDUP mid = mid"
    using j assms(4) by (simp add: word_unat_eq_iff unat_PGROUNDUP)
  have top: "unat (P2V PHYSTOP) = 0x8E000000" by (simp add: P2V_def)
  have "kmem_inv ?s {}" using assms(5) by (auto simp: kmem_inv_def intro!: exI [of _ "[]"])
  with b assms(4) obtain m q where 1: "kinit1 (k_end s) mid s = Ok (?s\<lparr>mem := m, kmem_freelist := q\<rparr>)"
    and i1: "kmem_inv (?s\<lparr>mem := m, kmem_freelist := q\<rparr>) (pages_between ?p mid)"
    using freerange_from_ok [of ?s "{}" ?p mid]
    by (auto simp: kinit1_def freerange_def word_le_nat_alt)
  let ?t = "?s\<lparr>mem := m, kmem_freelist := q\<rparr>"
  have "pages_between mid (P2V PHYSTOP) \<inter> pages_between ?p mid = {}" by (auto simp: pages_between_def)
  with i1 assms(1-4) top obtain m' q' where
    2: "freerange mid (P2V PHYSTOP) ?t = Ok (?t\<lparr>mem := m', kmem_freelist := q'\<rparr>)"
    and i2: "kmem_inv (?t\<lparr>mem := m', kmem_freelist := q'\<rparr>)
      (pages_between ?p mid \<union> pages_between mid (P2V PHYSTOP))"
    using freerange_from_ok [of ?t "pages_between ?p mid" mid "P2V PHYSTOP"]
    by (auto simp: freerange_def word_le_nat_alt mid)
  have "pages_between ?p mid \<union> pages_between mid (P2V PHYSTOP)
    = {v. page_aligned v \<and> k_end s \<le> v \<and> v < P2V PHYSTOP}" 
  proof (intro set_eqI)
    fix v
    show "v \<in> pages_between ?p mid \<union> pages_between mid (P2V PHYSTOP) \<longleftrightarrow>
      v \<in> {v. page_aligned v \<and> k_end s \<le> v \<and> v < P2V PHYSTOP}"
    proof (cases "page_aligned v")
      case True
      then obtain i where i: "unat v = 4096 * i" by (rule page_alignedE)
      have "unat (k_end s) \<le> unat v \<longleftrightarrow> unat ?p \<le> unat v" unfolding p i by (simp add: round_up_le)
      then show ?thesis
        using True i j b assms(4) top by (auto simp: pages_between_def word_le_nat_alt word_less_nat_alt)
    qed (simp add: pages_between_def)
  qed
  with i2 have "kmem_inv ((?t\<lparr>mem := m', kmem_freelist := q'\<rparr>)\<lparr>kmem_use_lock := True\<rparr>)
    {v. page_aligned v \<and> k_end s \<le> v \<and> v < P2V PHYSTOP}" by (simp only: kmem_inv_use_lock)
  moreover have "rbind (kinit1 (k_end s) mid s) (kinit2 mid (P2V PHYSTOP))
    = Ok ((?t\<lparr>mem := m', kmem_freelist := q'\<rparr>)\<lparr>kmem_use_lock := True\<rparr>)"
    by (simp only: 1 2 kinit2_def rbind.simps)
  ultimately show ?thesis by (intro exI conjI) (assumption, simp)
qed

theorem kinit_frees_all_witness:
  "\<exists>s'. rbind (kinit1 0x80110000 0x80400000 kernel0) (kinit2 0x80400000 (P2V PHYSTOP)) = Ok s' \<and>
     kmem_use_lock s' \<and> kmem_inv s' {v. page_aligned v \<and> 0x80110000 \<le> v \<and> v < P2V PHYSTOP}"
proof -
  have "k_end kernel0 = 0x80110000" "kmem_freelist kernel0 = 0" by (simp_all add: kernel0_def)
  with kinit_frees_all [of kernel0 "0x80400000"] show ?thesis
    by (simp add: page_aligned_word_mod)
qed

text \<open>C9 [getCurrentCapacity_counts]: under the allocator's invariant \<open>getCurrentCapacity()\<close>
  returns, with the number of free pages, and changes nothing; the count fits an \<open>int\<close>.\<close>

theorem getCurrentCapacity_counts:
  assumes "kmem_inv s F"
  shows "getCurrentCapacity s = Ok (int (card F), s) \<and> card F < 2 ^ 31"
proof -
  from assms obtain xs where xs: "flist (mem s) (kmem_freelist s) xs" "distinct xs" "set xs = F"
    and l: "\<not> locks s L_kmem" by (auto simp: kmem_inv_def)
  then have "card F = length xs" using distinct_card [of xs] by simp
  with xs(1) l have "getCurrentCapacity s = Ok (int (card F), s)"
    by (simp add: getCurrentCapacity_def count_free_flist fun_upd_idem)
  moreover have "card F < 2 ^ 31"
  proof -
    have "unat v < 0x8E000000" "unat v \<ge> 0x80000000" if "v \<in> F" for v
      using that assms V2P_less_PHYSTOP [of v]
      by (auto simp: kmem_inv_def kpage_def word_less_nat_alt word_le_nat_alt)
    then have "unat ` F \<subseteq> {0x80000000 ..< 0x8E000000}" by fastforce
    then have "card (unat ` F) \<le> card {0x80000000 ..< 0x8E000000 :: nat}"
      by (intro card_mono) auto
    moreover have "card (unat ` F) = card F" by (intro card_image) (simp add: inj_on_def word_unat_eq_iff)
    ultimately show ?thesis by simp
  qed
  ultimately show ?thesis by simp
qed

theorem getCurrentCapacity_counts_witness: "getCurrentCapacity kernel0 = Ok (0, kernel0)"
  using getCurrentCapacity_counts [of kernel0 "{}"]
  by (simp add: kmem_inv_def kernel0_def exI [of _ "[]"])

end
