(* ===== verification/Ptable.thy ===== *)
theory Ptable
  imports Kalloc
begin

text \<open>
  Sleeping and waking (\<open>proc.c\<close>: \<open>myproc\<close>, \<open>sched\<close>, \<open>yield\<close>, \<open>sleep\<close>, \<open>wakeup\<close>,
  \<open>kill\<close>) and sleep locks (\<open>sleeplock.c\<close>). A routine that calls \<open>sched()\<close> ends with
  \<open>Block s\<close>, where \<open>s\<close> is the state in which the scheduler takes over, still holding
  \<open>ptable.lock\<close>; what \<open>sleep\<close> does after the process has been scheduled again is
  \<open>sleep_wake\<close>.
\<close>

section \<open>The code\<close>

definition myproc :: "kernel \<Rightarrow> nat option" where
  [simp]: "myproc s = cur s"

text \<open>\<open>curproc->field\<close> for a process pointer that may be null.\<close>

definition curproc :: "kernel \<Rightarrow> (kernel, nat) res" where
  "curproc s = (case myproc s of Some i \<Rightarrow> Ok i | None \<Rightarrow> Undef ''null proc'')"

definition upd_proc :: "nat \<Rightarrow> (proc \<Rightarrow> proc) \<Rightarrow> kernel \<Rightarrow> kernel" where
  "upd_proc i f s = s\<lparr>procs := (procs s)[i := f (procs s ! i)]\<rparr>"

definition pinit :: "kernel \<Rightarrow> kernel" where
  "pinit s = s\<lparr>locks := (locks s)(L_ptable := False)\<rparr>"

definition sched :: "kernel \<Rightarrow> (kernel, 'a) res" where
  "sched s =
     (if \<not> locks s L_ptable then Panic ''sched ptable.lock''
      else if ncli s \<noteq> 1 then Panic ''sched locks''
      else rbind (curproc s) (\<lambda>p.
        if p_state (procs s ! p) = RUNNING then Panic ''sched running''
        else Block s))"

definition yield :: "kernel \<Rightarrow> (kernel, 'a) res" where
  "yield s =
     rbind (acquire L_ptable s) (\<lambda>s.
     rbind (curproc s) (\<lambda>p.
     sched (upd_proc p (\<lambda>p. p\<lparr>p_state := RUNNABLE\<rparr>) s)))"

definition sleep :: "chan \<Rightarrow> lockid \<Rightarrow> kernel \<Rightarrow> (kernel, 'a) res" where
  "sleep ch lk s =
     (case myproc s of
        None \<Rightarrow> Panic ''sleep''
      | Some p \<Rightarrow>
          rbind (if lk \<noteq> L_ptable
                 then rbind (acquire L_ptable s) (release lk)
                 else Ok s) (\<lambda>s.
          sched (upd_proc p (\<lambda>p. p\<lparr>p_chan := Some ch, p_state := SLEEPING\<rparr>) s)))"

text \<open>The rest of \<open>sleep\<close>, run when the scheduler switches back to the process.\<close>

definition sleep_wake :: "lockid \<Rightarrow> kernel \<Rightarrow> (kernel, kernel) res" where
  "sleep_wake lk s =
     rbind (curproc s) (\<lambda>p.
     let s = upd_proc p (\<lambda>p. p\<lparr>p_chan := None\<rparr>) s in
     if lk \<noteq> L_ptable then rbind (release L_ptable s) (acquire lk) else Ok s)"

definition wakeup1 :: "chan option \<Rightarrow> kernel \<Rightarrow> kernel" where
  "wakeup1 ch s = s\<lparr>procs := map (\<lambda>p.
     if p_state p = SLEEPING \<and> p_chan p = ch then p\<lparr>p_state := RUNNABLE\<rparr> else p) (procs s)\<rparr>"

definition wakeup :: "chan \<Rightarrow> kernel \<Rightarrow> (kernel, kernel) res" where
  "wakeup ch s =
     rbind (acquire L_ptable s) (\<lambda>s.
     release L_ptable (wakeup1 (Some ch) s))"

definition kill :: "int \<Rightarrow> kernel \<Rightarrow> int kres" where
  "kill pid s =
     rbind (acquire L_ptable s) (\<lambda>s.
     case find_from (\<lambda>i. p_pid (procs s ! i) = pid) 0 (length (procs s)) of
       Some i \<Rightarrow>
         let s = upd_proc i (\<lambda>p. p\<lparr>p_killed := True\<rparr>) s;
             s = (if p_state (procs s ! i) = SLEEPING
                  then upd_proc i (\<lambda>p. p\<lparr>p_state := RUNNABLE\<rparr>) s else s) in
         rbind (release L_ptable s) (\<lambda>s. Ok (0, s))
     | None \<Rightarrow> rbind (release L_ptable s) (\<lambda>s. Ok (- 1, s)))"

section \<open>Sleep locks\<close>

definition initsleeplock :: "sleepid \<Rightarrow> kernel \<Rightarrow> kernel" where
  "initsleeplock l s = s\<lparr>locks := (locks s)(L_sleep l := False),
     sleeplocks := (sleeplocks s)(l := \<lparr>sl_locked = False, sl_pid = 0\<rparr>)\<rparr>"

definition acquiresleep :: "sleepid \<Rightarrow> kernel \<Rightarrow> (kernel, kernel) res" where
  "acquiresleep l s =
     rbind (acquire (L_sleep l) s) (\<lambda>s.
     if sl_locked (sleeplocks s l) then sleep (C_sleep l) (L_sleep l) s
     else rbind (curproc s) (\<lambda>p.
       release (L_sleep l)
         (s\<lparr>sleeplocks := (sleeplocks s)(l := \<lparr>sl_locked = True, sl_pid = p_pid (procs s ! p)\<rparr>)\<rparr>)))"

definition releasesleep :: "sleepid \<Rightarrow> kernel \<Rightarrow> (kernel, kernel) res" where
  "releasesleep l s =
     rbind (acquire (L_sleep l) s) (\<lambda>s.
     rbind (wakeup (C_sleep l)
       (s\<lparr>sleeplocks := (sleeplocks s)(l := \<lparr>sl_locked = False, sl_pid = 0\<rparr>)\<rparr>)) (\<lambda>s.
     release (L_sleep l) s))"

definition holdingsleep :: "sleepid \<Rightarrow> kernel \<Rightarrow> bool kres" where
  "holdingsleep l s =
     rbind (acquire (L_sleep l) s) (\<lambda>s.
     let r = sl_locked (sleeplocks s l) in
     rbind (release (L_sleep l) s) (\<lambda>s. Ok (r, s)))"

section \<open>Frame\<close>

text \<open>No spin lock is held: the condition under which system calls start and end.\<close>

definition unlocked :: "kernel \<Rightarrow> bool" where
  [inv_defs]: "unlocked s \<longleftrightarrow> locks s = (\<lambda>_. False) \<and> ncli s = 0"

lemma unlocked_locks [simp]: "unlocked s \<Longrightarrow> \<not> locks s l"
  and unlocked_ncli: "unlocked s \<Longrightarrow> ncli s = 0"
  by (simp_all add: unlocked_def)

lemma unlocked_upd [simp]:
  "unlocked (s\<lparr>procs := ps\<rparr>) = unlocked s" "unlocked (s\<lparr>sleeplocks := sl\<rparr>) = unlocked s"
  "unlocked (s\<lparr>bufs := bs\<rparr>) = unlocked s" "unlocked (s\<lparr>disk := d\<rparr>) = unlocked s"
  "unlocked (s\<lparr>disk_hist := h\<rparr>) = unlocked s" "unlocked (s\<lparr>klog := kl\<rparr>) = unlocked s"
  "unlocked (s\<lparr>icache := ic\<rparr>) = unlocked s" "unlocked (s\<lparr>ftable := ft\<rparr>) = unlocked s"
  "unlocked (s\<lparr>mem := m\<rparr>) = unlocked s" "unlocked (s\<lparr>sb := x\<rparr>) = unlocked s"
  by (simp_all add: unlocked_def)

lemma fun_upd_False [simp]: "\<not> f x \<Longrightarrow> f(x := False) = f" "\<not> f x \<Longrightarrow> f(y := b, x := False) = (if x = y then f else f(y := b))"
  by (auto simp: fun_eq_iff)

lemma upd_proc_simps [simp]:
  "locks (upd_proc i f s) = locks s" "ncli (upd_proc i f s) = ncli s"
  "cur (upd_proc i f s) = cur s" "length (procs (upd_proc i f s)) = length (procs s)"
  "i < length (procs s) \<Longrightarrow> procs (upd_proc i f s) ! j = (if j = i then f (procs s ! i) else procs s ! j)"
  by (simp_all add: upd_proc_def nth_list_update)

lemma wakeup_eq [simp]: "\<not> locks s L_ptable \<Longrightarrow> wakeup ch s = Ok (wakeup1 (Some ch) s)"
  by (simp add: wakeup_def wakeup1_def)

lemma wakeup1_simps [simp]:
  "locks (wakeup1 ch s) = locks s" "ncli (wakeup1 ch s) = ncli s" "cur (wakeup1 ch s) = cur s"
  "length (procs (wakeup1 ch s)) = length (procs s)" "sleeplocks (wakeup1 ch s) = sleeplocks s"
  "i < length (procs s) \<Longrightarrow> procs (wakeup1 ch s) ! i = (if p_state (procs s ! i) = SLEEPING \<and>
     p_chan (procs s ! i) = ch then (procs s ! i)\<lparr>p_state := RUNNABLE\<rparr> else procs s ! i)"
  by (simp_all add: wakeup1_def)

lemma acquiresleep_free:
  assumes "unlocked s" "\<not> sl_locked (sleeplocks s l)" "cur s = Some p"
  shows "acquiresleep l s =
    Ok (s\<lparr>sleeplocks := (sleeplocks s)(l := \<lparr>sl_locked = True, sl_pid = p_pid (procs s ! p)\<rparr>)\<rparr>)"
  using assms by (simp add: acquiresleep_def curproc_def)

lemma acquiresleep_held:
  assumes "unlocked s" "sl_locked (sleeplocks s l)" "cur s = Some p" "p < length (procs s)"
  shows "\<exists>s'. acquiresleep l s = Block s' \<and> sleeplocks s' = sleeplocks s \<and> locks s' = (\<lambda>_. False)(L_ptable := True) \<and>
    procs s' = (procs s)[p := (procs s ! p)\<lparr>p_chan := Some (C_sleep l), p_state := SLEEPING\<rparr>]"
  using assms by (auto simp: acquiresleep_def sleep_def sched_def curproc_def upd_proc_def unlocked_def)

lemma releasesleep_eq:
  assumes "unlocked s"
  shows "releasesleep l s = Ok (wakeup1 (Some (C_sleep l))
    (s\<lparr>sleeplocks := (sleeplocks s)(l := \<lparr>sl_locked = False, sl_pid = 0\<rparr>)\<rparr>))"
  using assms by (simp add: releasesleep_def wakeup1_def)

lemma holdingsleep_eq: "unlocked s \<Longrightarrow> holdingsleep l s = Ok (sl_locked (sleeplocks s l), s)"
  by (simp add: holdingsleep_def)

end
