(* ===== verification/Bio.thy ===== *)
theory Bio
  imports Ptable
begin

text \<open>
  The buffer cache (\<open>bio.c\<close>) over the synchronous disk of \<open>memide.c\<close>. The buffers form a
  circular doubly linked list through \<open>prev\<close>/\<open>next\<close>, most recently used first; entry \<open>NBUF\<close>
  of \<open>bufs\<close> is \<open>bcache.head\<close>. The abstraction is what a reader of a block sees
  (\<open>bview\<close>), the set of dirty (pinned) blocks and the set of blocks whose buffer is held;
  the contract of the cache in those terms is the locale \<open>block_cache\<close>.
\<close>

section \<open>The code\<close>

definition upd_buf :: "nat \<Rightarrow> (buf \<Rightarrow> buf) \<Rightarrow> kernel \<Rightarrow> kernel" where
  "upd_buf i f s = s\<lparr>bufs := (bufs s)[i := f (bufs s ! i)]\<rparr>"

subsection \<open>memide.c\<close>

definition ideinit_mem :: "(u32 \<Rightarrow> u8 list) \<Rightarrow> u32 \<Rightarrow> kernel \<Rightarrow> kernel" where
  "ideinit_mem img imgsize s = s\<lparr>disk := img, disksize := imgsize div 512\<rparr>"

definition iderw :: "nat \<Rightarrow> kernel \<Rightarrow> (kernel, kernel) res" where
  "iderw i s =
     rbind (holdingsleep (SLBuf i) s) (\<lambda>(h, s).
     let b = bufs s ! i in
     if \<not> h then Panic ''iderw: buf not locked''
     else if b_valid b \<and> \<not> b_dirty b then Panic ''iderw: nothing to do''
     else if b_dev b \<noteq> 1 then Panic ''iderw: request not for disk 1''
     else if b_blockno b \<ge> disksize s then Panic ''iderw: block out of range''
     else if b_dirty b
     then Ok (upd_buf i (\<lambda>b. b\<lparr>b_valid := True, b_dirty := False\<rparr>)
       (s\<lparr>disk := (disk s)(b_blockno b := b_data b),
          disk_hist := disk_hist s @ [(b_blockno b, b_data b)]\<rparr>))
     else Ok (upd_buf i (\<lambda>b. b\<lparr>b_valid := True, b_data := disk s (b_blockno b)\<rparr>) s))"

subsection \<open>bio.c\<close>

definition binit_step :: "nat \<Rightarrow> kernel \<Rightarrow> kernel" where
  "binit_step b s =
     (let s = upd_buf b (\<lambda>c. c\<lparr>b_next := b_next (bufs s ! NBUF)\<rparr>) s;
          s = upd_buf b (\<lambda>c. c\<lparr>b_prev := NBUF\<rparr>) s;
          s = initsleeplock (SLBuf b) s;
          s = upd_buf (b_next (bufs s ! NBUF)) (\<lambda>c. c\<lparr>b_prev := b\<rparr>) s in
      upd_buf NBUF (\<lambda>c. c\<lparr>b_next := b\<rparr>) s)"

definition binit :: "kernel \<Rightarrow> kernel" where
  "binit s =
     (let s = s\<lparr>locks := (locks s)(L_bcache := False)\<rparr>;
          s = upd_buf NBUF (\<lambda>c. c\<lparr>b_prev := NBUF, b_next := NBUF\<rparr>) s in
      fold binit_step [0..<NBUF] s)"

text \<open>The two loops of \<open>bget\<close> over the list; a list that does not come back to the head
  would never end.\<close>

partial_function (option) scan_next :: "buf list \<Rightarrow> nat \<Rightarrow> (buf \<Rightarrow> bool) \<Rightarrow> nat option option" where
  "scan_next bs b P =
     (if b = NBUF then Some None else if P (bs ! b) then Some (Some b)
      else scan_next bs (b_next (bs ! b)) P)"

partial_function (option) scan_prev :: "buf list \<Rightarrow> nat \<Rightarrow> (buf \<Rightarrow> bool) \<Rightarrow> nat option option" where
  "scan_prev bs b P =
     (if b = NBUF then Some None else if P (bs ! b) then Some (Some b)
      else scan_prev bs (b_prev (bs ! b)) P)"

definition bget :: "u32 \<Rightarrow> u32 \<Rightarrow> kernel \<Rightarrow> nat kres" where
  "bget dev blockno s =
     rbind (acquire L_bcache s) (\<lambda>s.
     case scan_next (bufs s) (b_next (bufs s ! NBUF)) (\<lambda>b. b_dev b = dev \<and> b_blockno b = blockno) of
       None \<Rightarrow> Hang
     | Some (Some i) \<Rightarrow>
         rbind (release L_bcache (upd_buf i (\<lambda>b. b\<lparr>b_refcnt := b_refcnt b + 1\<rparr>) s)) (\<lambda>s.
         rbind (acquiresleep (SLBuf i) s) (\<lambda>s. Ok (i, s)))
     | Some None \<Rightarrow>
         (case scan_prev (bufs s) (b_prev (bufs s ! NBUF)) (\<lambda>b. b_refcnt b = 0 \<and> \<not> b_dirty b) of
            None \<Rightarrow> Hang
          | Some (Some i) \<Rightarrow>
              rbind (release L_bcache (upd_buf i (\<lambda>b. b\<lparr>b_valid := False, b_dirty := False,
                b_dev := dev, b_blockno := blockno, b_refcnt := 1\<rparr>) s)) (\<lambda>s.
              rbind (acquiresleep (SLBuf i) s) (\<lambda>s. Ok (i, s)))
          | Some None \<Rightarrow> Panic ''bget: no buffers''))"

definition bread :: "u32 \<Rightarrow> u32 \<Rightarrow> kernel \<Rightarrow> nat kres" where
  "bread dev blockno s =
     rbind (bget dev blockno s) (\<lambda>(i, s).
     if \<not> b_valid (bufs s ! i) then rbind (iderw i s) (\<lambda>s. Ok (i, s)) else Ok (i, s))"

definition bwrite :: "nat \<Rightarrow> kernel \<Rightarrow> (kernel, kernel) res" where
  "bwrite i s =
     rbind (holdingsleep (SLBuf i) s) (\<lambda>(h, s).
     if \<not> h then Panic ''bwrite''
     else iderw i (upd_buf i (\<lambda>b. b\<lparr>b_dirty := True\<rparr>) s))"

definition brelse :: "nat \<Rightarrow> kernel \<Rightarrow> (kernel, kernel) res" where
  "brelse i s =
     rbind (holdingsleep (SLBuf i) s) (\<lambda>(h, s).
     if \<not> h then Panic ''brelse''
     else
       rbind (releasesleep (SLBuf i) s) (\<lambda>s.
       rbind (acquire L_bcache s) (\<lambda>s.
       let s = upd_buf i (\<lambda>b. b\<lparr>b_refcnt := b_refcnt b - 1\<rparr>) s;
           s = (if b_refcnt (bufs s ! i) = 0
                then
                  let s = upd_buf (b_next (bufs s ! i)) (\<lambda>c. c\<lparr>b_prev := b_prev (bufs s ! i)\<rparr>) s;
                      s = upd_buf (b_prev (bufs s ! i)) (\<lambda>c. c\<lparr>b_next := b_next (bufs s ! i)\<rparr>) s;
                      s = upd_buf i (\<lambda>c. c\<lparr>b_next := b_next (bufs s ! NBUF)\<rparr>) s;
                      s = upd_buf i (\<lambda>c. c\<lparr>b_prev := NBUF\<rparr>) s;
                      s = upd_buf (b_next (bufs s ! NBUF)) (\<lambda>c. c\<lparr>b_prev := i\<rparr>) s in
                  upd_buf NBUF (\<lambda>c. c\<lparr>b_next := i\<rparr>) s
                else s) in
       release L_bcache s)))"

text \<open>A caller that has the buffer changes its contents.\<close>

definition set_data :: "nat \<Rightarrow> u8 list \<Rightarrow> kernel \<Rightarrow> kernel" where
  "set_data i d s = upd_buf i (\<lambda>b. b\<lparr>b_data := d\<rparr>) s"

section \<open>The linked list\<close>

fun linked :: "(nat \<Rightarrow> nat) \<Rightarrow> (nat \<Rightarrow> nat) \<Rightarrow> nat list \<Rightarrow> bool" where
  "linked n p [] \<longleftrightarrow> True"
| "linked n p [a] \<longleftrightarrow> True"
| "linked n p (a # b # zs) \<longleftrightarrow> n a = b \<and> p b = a \<and> linked n p (b # zs)"

lemma linked_append: "linked n p (xs @ a # ys) \<longleftrightarrow> linked n p (xs @ [a]) \<and> linked n p (a # ys)"
  by (induction n p xs rule: linked.induct) (auto simp: linked.simps(3) neq_Nil_conv Cons_eq_append_conv)

lemma linked_cong:
  "(\<And>a. a \<in> set (butlast zs) \<Longrightarrow> n a = n' a) \<Longrightarrow> (\<And>a. a \<in> set (tl zs) \<Longrightarrow> p a = p' a) \<Longrightarrow>
     linked n p zs = linked n' p' zs"
  by (induction n p zs rule: linked.induct) auto

lemma linked_next: "linked n p (xs @ a # b # ys) \<Longrightarrow> n a = b"
  and linked_prev: "linked n p (xs @ a # b # ys) \<Longrightarrow> p b = a"
  by (simp_all add: linked_append [of n p xs a "b # ys"])

lemma linked_snoc:
  "linked n p (a # xs @ [x]) \<longleftrightarrow> linked n p (a # xs) \<and> n (last (a # xs)) = x \<and> p x = last (a # xs)"
  by (induction xs arbitrary: a) auto

text \<open>Taking an element out, and putting one in front.\<close>

lemma linked_remove:
  assumes "linked n p (xs @ a # x # b # ys)" "distinct (butlast (xs @ a # x # b # ys))"
    "distinct (tl (xs @ a # x # b # ys))"
  shows "linked (n(a := b)) (p(b := a)) (xs @ a # b # ys)"
proof -
  have 1: "linked n p (xs @ [a])" and 2: "linked n p (b # ys)"
    using assms(1) linked_append [of n p xs a "x # b # ys"] by simp_all
  have "a \<notin> set xs" "a \<notin> set (butlast (b # ys))"
    using assms(2) by (auto simp: butlast_append split: if_splits)
  moreover have "b \<notin> set (tl (xs @ [a]))" "b \<notin> set ys"
    using assms(3) by (cases xs; auto)+
  ultimately have "linked (n(a := b)) (p(b := a)) (xs @ [a]) = linked n p (xs @ [a])"
    "linked (n(a := b)) (p(b := a)) (b # ys) = linked n p (b # ys)"
    by (intro linked_cong; auto)+
  with 1 2 have "linked (n(a := b)) (p(b := a)) (xs @ [a])" "linked (n(a := b)) (p(b := a)) (b # ys)"
    by simp_all
  then show ?thesis by (simp add: linked_append [of _ _ xs a "b # ys"])
qed

lemma linked_insert:
  assumes "linked n p (h # b # ys)" "x \<notin> set (h # butlast (b # ys))" "x \<notin> set (b # ys)"
    "h \<notin> set (butlast (b # ys))" "b \<notin> set ys"
  shows "linked (n(x := b, h := x)) (p(x := h, b := x)) (h # x # b # ys)"
proof -
  have "linked (n(x := b, h := x)) (p(x := h, b := x)) (b # ys) = linked n p (b # ys)"
    using assms by (intro linked_cong) auto
  with assms show ?thesis by auto
qed

section \<open>Invariant and abstraction\<close>

definition mru_list :: "kernel \<Rightarrow> nat list \<Rightarrow> bool" where
  "mru_list s xs \<longleftrightarrow> distinct xs \<and> set xs = {..<NBUF} \<and>
     linked (\<lambda>i. b_next (bufs s ! i)) (\<lambda>i. b_prev (bufs s ! i)) (NBUF # xs @ [NBUF])"

abbreviation blocked :: "kernel \<Rightarrow> nat \<Rightarrow> bool" where
  "blocked s i \<equiv> sl_locked (sleeplocks s (SLBuf i))"

text \<open>What holds of buffer \<open>i\<close> while one process at a time is inside the file system.\<close>

definition buf_ok :: "kernel \<Rightarrow> nat \<Rightarrow> bool" where
  "buf_ok s i \<longleftrightarrow> (let b = bufs s ! i in
     length (b_data b) = 512 \<and>
     b_refcnt b = (if blocked s i then 1 else 0) \<and>
     (blocked s i \<or> b_dirty b \<or> b_valid b \<longrightarrow> b_dev b = 1 \<and> b_blockno b < disksize s) \<and>
     (b_dirty b \<or> blocked s i \<longrightarrow> b_valid b) \<and>
     (\<not> blocked s i \<and> b_valid b \<and> \<not> b_dirty b \<longrightarrow> b_data b = disk s (b_blockno b)))"

definition bcache_inv :: "kernel \<Rightarrow> bool" where
  [inv_defs]: "bcache_inv s \<longleftrightarrow> length (bufs s) = Suc NBUF \<and> (\<exists>xs. mru_list s xs) \<and>
     (\<forall>i < NBUF. buf_ok s i) \<and> (\<forall>b. length (disk s b) = 512) \<and>
     (\<forall>i < NBUF. \<forall>j < NBUF. b_dev (bufs s ! i) = 1 \<and> b_dev (bufs s ! j) = 1 \<and>
        b_blockno (bufs s ! i) = b_blockno (bufs s ! j) \<longrightarrow> i = j)"

text \<open>Buffer \<open>i\<close> stands for block \<open>b\<close>; what a reader of \<open>b\<close> sees; the blocks that are pinned
  by \<open>B_DIRTY\<close>, and those whose buffer a process holds.\<close>

definition buf_for :: "kernel \<Rightarrow> u32 \<Rightarrow> nat \<Rightarrow> bool" where
  "buf_for s b i \<longleftrightarrow> i < NBUF \<and> b_dev (bufs s ! i) = 1 \<and> b_blockno (bufs s ! i) = b"

definition bview :: "kernel \<Rightarrow> u32 \<Rightarrow> u8 list" where
  "bview s b = (case find_from (\<lambda>i. buf_for s b i \<and> b_valid (bufs s ! i)) 0 NBUF of
     Some i \<Rightarrow> b_data (bufs s ! i) | None \<Rightarrow> disk s b)"

definition bdirty :: "kernel \<Rightarrow> u32 set" where
  "bdirty s = {b. \<exists>i. buf_for s b i \<and> b_dirty (bufs s ! i)}"

definition bheld :: "kernel \<Rightarrow> u32 set" where
  "bheld s = {b. \<exists>i. buf_for s b i \<and> blocked s i}"

definition bio_rest :: "kernel \<Rightarrow> kernel" where
  "bio_rest s = s\<lparr>sleeplocks := sleeplocks kernel0, procs := [], bufs := [], disk := disk kernel0,
     disk_hist := []\<rparr>"

definition bio_frame :: "kernel \<Rightarrow> kernel \<Rightarrow> bool" where
  "bio_frame s s' \<longleftrightarrow> bio_rest s' = bio_rest s \<and> length (procs s') = length (procs s)"

lemma bio_frame_refl [simp]: "bio_frame s s"
  by (simp add: bio_frame_def)

lemma bio_frame_trans [trans]: "bio_frame s s' \<Longrightarrow> bio_frame s' s'' \<Longrightarrow> bio_frame s s''"
  by (simp add: bio_frame_def)

lemma bio_frame_field:
  assumes "bio_frame s s'" and "\<And>t. f (bio_rest t) = f t"
  shows "f s' = f s"
  using assms by (metis bio_frame_def)

lemma bio_frame_simps:
  assumes "bio_frame s s'"
  shows "locks s' = locks s" "ncli s' = ncli s" "cur s' = cur s" "disksize s' = disksize s"
    "klog s' = klog s" "sb s' = sb s" "icache s' = icache s" "ftable s' = ftable s"
    "mem s' = mem s" "unlocked s' = unlocked s"
  by (rule bio_frame_field [OF assms]; simp add: bio_rest_def unlocked_def)+

lemma bio_frame_procs: "bio_frame s s' \<Longrightarrow> length (procs s') = length (procs s)"
  by (simp add: bio_frame_def)

lemma buf_for_unique: "bcache_inv s \<Longrightarrow> buf_for s b i \<Longrightarrow> buf_for s b j \<Longrightarrow> i = j"
  by (auto simp: bcache_inv_def buf_for_def)

lemma bview_cached:
  assumes "bcache_inv s" "buf_for s b i"
  shows "bview s b = (if b_valid (bufs s ! i) then b_data (bufs s ! i) else disk s b)"
proof (cases "find_from (\<lambda>i. buf_for s b i \<and> b_valid (bufs s ! i)) 0 NBUF")
  case None
  have "i < NBUF" using assms(2) by (simp add: buf_for_def)
  with assms find_from_NoneD [OF None, of i] None show ?thesis by (auto simp: bview_def)
next
  case (Some j)
  with find_from_SomeD [OF Some] assms buf_for_unique [of s b i j] show ?thesis
    by (auto simp: bview_def)
qed

lemma bview_uncached: "(\<And>i. \<not> buf_for s b i) \<Longrightarrow> bview s b = disk s b"
  by (auto simp: bview_def split: option.split dest: find_from_SomeD)

lemma free_buf_exists:
  assumes "bcache_inv s" "card (bdirty s \<union> bheld s) < NBUF"
  shows "\<exists>i < NBUF. b_refcnt (bufs s ! i) = 0 \<and> \<not> b_dirty (bufs s ! i)"
proof (rule ccontr)
  assume *: "\<not> ?thesis"
  have busy: "b_dirty (bufs s ! i) \<or> blocked s i" if "i < NBUF" for i
    using * that assms(1) by (auto simp: bcache_inv_def buf_ok_def Let_def split: if_splits)
  have dev: "b_dev (bufs s ! i) = 1" if "i < NBUF" for i
    using busy [OF that] that assms(1) by (auto simp: bcache_inv_def buf_ok_def Let_def)
  let ?f = "\<lambda>i. b_blockno (bufs s ! i)"
  have "?f ` {..<NBUF} \<subseteq> bdirty s \<union> bheld s"
    using busy dev by (auto simp: bdirty_def bheld_def buf_for_def)
  moreover have "inj_on ?f {..<NBUF}"
    using assms(1) dev by (intro inj_onI) (auto simp: bcache_inv_def)
  moreover have "finite (bdirty s \<union> bheld s)"
  proof (rule finite_subset)
    show "bdirty s \<union> bheld s \<subseteq> ?f ` {..<NBUF}" by (auto simp: bdirty_def bheld_def buf_for_def)
  qed simp
  ultimately have "card {..<NBUF} \<le> card (bdirty s \<union> bheld s)" by (metis card_image card_mono)
  with assms(2) show False by simp
qed

section \<open>Scanning\<close>

lemma scan_next_find:
  assumes "linked (\<lambda>i. b_next (bs ! i)) p (xs @ [NBUF])" "NBUF \<notin> set xs"
  shows "scan_next bs (hd (xs @ [NBUF])) P = Some (find (\<lambda>i. P (bs ! i)) xs)"
  using assms
proof (induction xs)
  case (Cons x xs)
  then show ?case by (cases xs) (auto simp: scan_next.simps)
qed (simp add: scan_next.simps)

lemma scan_prev_find:
  assumes "linked n (\<lambda>i. b_prev (bs ! i)) (NBUF # xs)" "NBUF \<notin> set xs"
  shows "scan_prev bs (last (NBUF # xs)) P = Some (find (\<lambda>i. P (bs ! i)) (rev xs))"
  using assms
proof (induction xs rule: rev_induct)
  case (snoc x xs)
  have "linked n (\<lambda>i. b_prev (bs ! i)) (NBUF # xs)"
    and "b_prev (bs ! x) = last (NBUF # xs)"
    using snoc.prems(1) by (simp_all only: linked_snoc)
  with snoc show ?case by (simp add: scan_prev.simps)
qed (simp add: scan_prev.simps)

lemma scans:
  assumes "mru_list s xs"
  shows "scan_next (bufs s) (b_next (bufs s ! NBUF)) P = Some (find (\<lambda>i. P (bufs s ! i)) xs)"
    and "scan_prev (bufs s) (b_prev (bufs s ! NBUF)) P = Some (find (\<lambda>i. P (bufs s ! i)) (rev xs))"
proof -
  let ?n = "\<lambda>i. b_next (bufs s ! i)" and ?p = "\<lambda>i. b_prev (bufs s ! i)"
  from assms have l: "linked ?n ?p (NBUF # xs @ [NBUF])" and n: "NBUF \<notin> set xs"
    by (simp_all add: mru_list_def)
  have hd: "b_next (bufs s ! NBUF) = hd (xs @ [NBUF])" "linked ?n ?p (xs @ [NBUF])"
    using l by (cases xs; simp)+
  from scan_next_find [OF hd(2) n] hd(1)
  show "scan_next (bufs s) (b_next (bufs s ! NBUF)) P = Some (find (\<lambda>i. P (bufs s ! i)) xs)" by simp
  have "linked ?n ?p (NBUF # xs)" "b_prev (bufs s ! NBUF) = last (NBUF # xs)"
    using l by (simp_all only: linked_snoc)
  with scan_prev_find [of ?n "bufs s" xs P] n
  show "scan_prev (bufs s) (b_prev (bufs s ! NBUF)) P = Some (find (\<lambda>i. P (bufs s ! i)) (rev xs))" by simp
qed

section \<open>Updating one buffer\<close>

lemma mru_list_upd:
  assumes "mru_list s xs" "length (bufs s) = Suc NBUF" "i < NBUF"
    "bufs s' = (bufs s)[i := c]" "b_next c = b_next (bufs s ! i)" "b_prev c = b_prev (bufs s ! i)"
  shows "mru_list s' xs"
proof -
  have "(\<lambda>j. b_next (bufs s' ! j)) = (\<lambda>j. b_next (bufs s ! j))"
    "(\<lambda>j. b_prev (bufs s' ! j)) = (\<lambda>j. b_prev (bufs s ! j))"
    using assms(2-6) by (auto simp: fun_eq_iff nth_list_update)
  with assms(1) show ?thesis by (simp add: mru_list_def)
qed

text \<open>A step that replaces buffer \<open>i\<close> by \<open>c\<close>, and changes the disk at most at its block.\<close>

definition buf_step :: "kernel \<Rightarrow> kernel \<Rightarrow> nat \<Rightarrow> buf \<Rightarrow> bool" where
  "buf_step s s' i c \<longleftrightarrow> bcache_inv s \<and> i < NBUF \<and> bufs s' = (bufs s)[i := c] \<and>
     disksize s' = disksize s \<and> b_next c = b_next (bufs s ! i) \<and> b_prev c = b_prev (bufs s ! i) \<and>
     (\<forall>j. j \<noteq> i \<longrightarrow> blocked s' j = blocked s j) \<and>
     (\<forall>b. disk s' b \<noteq> disk s b \<longrightarrow> b_dev c = 1 \<and> b = b_blockno c) \<and>
     (\<forall>b. length (disk s' b) = 512) \<and>
     (\<forall>j < NBUF. j \<noteq> i \<and> b_dev c = 1 \<and> b_dev (bufs s ! j) = 1 \<longrightarrow>
        b_blockno (bufs s ! j) \<noteq> b_blockno c) \<and>
     buf_ok s' i"

lemma buf_step_nth: "buf_step s s' i c \<Longrightarrow> bufs s' ! j = (if j = i then c else bufs s ! j)"
  by (simp add: buf_step_def bcache_inv_def nth_list_update)

lemma buf_step_ok:
  assumes "buf_step s s' i c" "j < NBUF"
  shows "buf_ok s' j"
proof (cases "j = i")
  case False
  have "buf_ok s j" using assms by (simp add: buf_step_def bcache_inv_def)
  moreover have "disk s' (b_blockno (bufs s ! j)) = disk s (b_blockno (bufs s ! j))"
    if "b_dev (bufs s ! j) = 1" using that False assms unfolding buf_step_def by metis
  moreover have "blocked s' j = blocked s j" "disksize s' = disksize s" "bufs s' ! j = bufs s ! j"
    using False assms(1) by (simp_all add: buf_step_def buf_step_nth [OF assms(1)])
  ultimately show ?thesis by (auto simp: buf_ok_def Let_def)
qed (use assms(1) in \<open>simp add: buf_step_def\<close>)

lemma buf_step_inv:
  assumes "buf_step s s' i c"
  shows "bcache_inv s'"
proof -
  have inv: "bcache_inv s" and len: "length (bufs s) = Suc NBUF" and "i < NBUF"
    using assms by (simp_all add: buf_step_def bcache_inv_def)
  then obtain xs where "mru_list s xs" by (auto simp: bcache_inv_def)
  then have "mru_list s' xs"
    by (rule mru_list_upd [where i = i and c = c]) (use assms len in \<open>simp_all add: buf_step_def\<close>)
  moreover have "length (bufs s') = Suc NBUF" "\<forall>b. length (disk s' b) = 512"
    using len assms by (simp_all add: buf_step_def)
  moreover have "k = j" if "k < NBUF" "j < NBUF" "b_dev (bufs s' ! k) = 1" "b_dev (bufs s' ! j) = 1"
    "b_blockno (bufs s' ! k) = b_blockno (bufs s' ! j)" for k j
  proof -
    have "\<forall>j < NBUF. j \<noteq> i \<and> b_dev c = 1 \<and> b_dev (bufs s ! j) = 1 \<longrightarrow>
        b_blockno (bufs s ! j) \<noteq> b_blockno c" using assms by (simp add: buf_step_def)
    moreover have "b_dev (bufs s ! k) = 1 \<Longrightarrow> b_dev (bufs s ! j) = 1 \<Longrightarrow>
        b_blockno (bufs s ! k) = b_blockno (bufs s ! j) \<Longrightarrow> k = j"
      using that(1,2) inv by (simp add: bcache_inv_def)
    ultimately show ?thesis
      using that by (cases "k = i"; cases "j = i") (auto simp: buf_step_nth [OF assms])
  qed
  ultimately show ?thesis unfolding bcache_inv_def using buf_step_ok [OF assms] by blast
qed

lemma buf_step_for:
  assumes "buf_step s s' i c"
  shows "buf_for s' b j \<longleftrightarrow> (if j = i then b_dev c = 1 \<and> b_blockno c = b else buf_for s b j)"
proof -
  have "i < NBUF" using assms by (simp add: buf_step_def)
  then show ?thesis by (auto simp: buf_for_def buf_step_nth [OF assms])
qed

lemma buf_step_view:
  "buf_step s s' i c \<Longrightarrow> b_dev c = 1 \<Longrightarrow> b_valid c \<Longrightarrow> bview s' (b_blockno c) = b_data c"
  using bview_cached [OF buf_step_inv, of s s' i c "b_blockno c" i]
  by (simp add: buf_step_for buf_step_nth)

lemma buf_step_view_other:
  assumes st: "buf_step s s' i c" and new: "b_dev c = 1 \<Longrightarrow> b \<noteq> b_blockno c"
    and old: "buf_for s b i \<Longrightarrow> b_valid (bufs s ! i) \<Longrightarrow> b_data (bufs s ! i) = disk s b"
  shows "bview s' b = bview s b"
proof -
  have inv: "bcache_inv s" "bcache_inv s'" using st buf_step_inv by (auto simp: buf_step_def)
  have d: "disk s' b = disk s b" using st new unfolding buf_step_def by blast
  consider j where "buf_for s b j" "j \<noteq> i" | "buf_for s b i" | "\<And>j. \<not> buf_for s b j" by blast
  then show ?thesis
  proof cases
    case (1 j)
    then have for': "buf_for s' b j" and eq: "bufs s' ! j = bufs s ! j"
      by (simp_all add: buf_step_for [OF st] buf_step_nth [OF st])
    show ?thesis by (simp only: bview_cached [OF inv(1) 1(1)] bview_cached [OF inv(2) for'] d eq)
  next
    case 2
    have "\<not> buf_for s' b j" for j
      using new buf_for_unique [OF inv(1) 2, of j] by (cases "j = i") (auto simp: buf_step_for [OF st])
    then have "bview s' b = disk s b" using bview_uncached [of s' b] d by simp
    then show ?thesis using bview_cached [OF inv(1) 2] old [OF 2] by simp
  next
    case 3
    then have "\<not> buf_for s' b j" for j using new by (auto simp: buf_step_for [OF st])
    then have "bview s' b = disk s b" using bview_uncached [of s' b] d by simp
    then show ?thesis using bview_uncached [OF 3] by simp
  qed
qed

lemma buf_step_fresh:
  "buf_step s s' i c \<Longrightarrow> b_dev c = 1 \<Longrightarrow> buf_for s (b_blockno c) j \<Longrightarrow> j = i"
  by (auto simp: buf_step_def buf_for_def)

lemma buf_step_set:
  assumes st: "buf_step s s' i c" and dev: "b_dev c = 1" and old: "Q i \<Longrightarrow> b_blockno (bufs s ! i) = b_blockno c"
    and Q': "\<And>j. j \<noteq> i \<Longrightarrow> Q' j = Q j"
  shows "{b. \<exists>j. buf_for s' b j \<and> Q' j} =
    (if Q' i then insert (b_blockno c) {b. \<exists>j. buf_for s b j \<and> Q j} else {b. \<exists>j. buf_for s b j \<and> Q j} - {b_blockno c})"
proof (rule set_eqI)
  fix b
  show "b \<in> {b. \<exists>j. buf_for s' b j \<and> Q' j} \<longleftrightarrow> b \<in> (if Q' i then insert (b_blockno c)
    {b. \<exists>j. buf_for s b j \<and> Q j} else {b. \<exists>j. buf_for s b j \<and> Q j} - {b_blockno c})"
  proof (cases "b = b_blockno c")
    case True
    then have "buf_for s' b j \<longleftrightarrow> j = i" for j
      using buf_step_fresh [OF st dev, of j] dev by (auto simp: buf_step_for [OF st])
    with True show ?thesis by simp
  next
    case False
    have "j \<noteq> i" if "buf_for s b j" "Q j" for j
      using that False old by (auto simp: buf_for_def)
    with False Q' have "(\<exists>j. buf_for s' b j \<and> Q' j) \<longleftrightarrow> (\<exists>j. buf_for s b j \<and> Q j)"
      using buf_step_for [OF st, of b] by metis
    with False show ?thesis by simp
  qed
qed

lemma buf_step_dirty:
  assumes "buf_step s s' i c" "b_dev c = 1"
    "b_dirty (bufs s ! i) \<Longrightarrow> b_blockno (bufs s ! i) = b_blockno c"
  shows "bdirty s' = (if b_dirty c then insert (b_blockno c) (bdirty s) else bdirty s - {b_blockno c})"
  using buf_step_set [OF assms(1,2), of "\<lambda>j. b_dirty (bufs s ! j)" "\<lambda>j. b_dirty (bufs s' ! j)"] assms(3)
  by (simp add: bdirty_def buf_step_nth [OF assms(1)])

lemma buf_step_held:
  assumes "buf_step s s' i c" "b_dev c = 1"
    "blocked s i \<Longrightarrow> b_blockno (bufs s ! i) = b_blockno c"
  shows "bheld s' = (if blocked s' i then insert (b_blockno c) (bheld s) else bheld s - {b_blockno c})"
proof -
  have "\<And>j. j \<noteq> i \<Longrightarrow> blocked s' j = blocked s j" using assms(1) by (simp add: buf_step_def)
  with buf_step_set [OF assms(1,2), of "blocked s" "blocked s'"] assms(3) show ?thesis
    by (simp add: bheld_def)
qed

section \<open>What the routines do\<close>

lemma find_SomeD: "find P xs = Some x \<Longrightarrow> x \<in> set xs \<and> P x"
  by (induction xs) (auto split: if_splits)

lemma bget_hit:
  assumes "bcache_inv s" "unlocked s" "cur s = Some p" "buf_for s b i" "\<not> blocked s i"
  shows "bget 1 b s = Ok (i, s\<lparr>bufs := (bufs s)[i := (bufs s ! i)\<lparr>b_refcnt := 1\<rparr>],
    sleeplocks := (sleeplocks s)(SLBuf i := \<lparr>sl_locked = True, sl_pid = p_pid (procs s ! p)\<rparr>)\<rparr>)"
proof -
  obtain xs where xs: "mru_list s xs" using assms(1) by (auto simp: bcache_inv_def)
  let ?P = "\<lambda>j. b_dev (bufs s ! j) = 1 \<and> b_blockno (bufs s ! j) = b"
  have "find ?P xs = Some i"
  proof (cases "find ?P xs")
    case None
    then show ?thesis using assms(4) xs by (auto simp: find_None_iff mru_list_def buf_for_def)
  next
    case (Some j)
    then have "buf_for s b j" using xs find_SomeD [OF Some] by (simp add: mru_list_def buf_for_def)
    with assms Some buf_for_unique show ?thesis by blast
  qed
  moreover have "i < NBUF" "b_refcnt (bufs s ! i) = 0"
    using assms by (auto simp: bcache_inv_def buf_for_def buf_ok_def Let_def)
  ultimately show ?thesis
    using assms(2,3,5) scans(1) [OF xs]
    by (simp add: bget_def upd_buf_def acquiresleep_free unlocked_def)
qed

lemma bview_length: "bcache_inv s \<Longrightarrow> length (bview s b) = 512"
  by (auto simp: bview_def bcache_inv_def buf_ok_def Let_def split: option.split dest!: find_from_SomeD)

lemma read_step:
  assumes "bcache_inv s" "b < disksize s" "i < NBUF" "\<not> blocked s i" "\<And>j. buf_for s b j \<Longrightarrow> j = i"
    "b_next c = b_next (bufs s ! i)" "b_prev c = b_prev (bufs s ! i)" "length (b_data c) = 512"
    "b_refcnt c = 1" "b_dev c = 1" "b_blockno c = b" "b_valid c"
  shows "buf_step s (s\<lparr>bufs := (bufs s)[i := c], sleeplocks := (sleeplocks s)(SLBuf i := \<lparr>sl_locked = True, sl_pid = q\<rparr>)\<rparr>) i c"
proof -
  have "length (bufs s) = Suc NBUF" "\<forall>b. length (disk s b) = 512" using assms(1) by (simp_all add: bcache_inv_def)
  moreover have "\<forall>j < NBUF. j \<noteq> i \<and> b_dev (bufs s ! j) = 1 \<longrightarrow> b_blockno (bufs s ! j) \<noteq> b"
    using assms(5) by (auto simp: buf_for_def)
  ultimately show ?thesis using assms by (simp add: buf_step_def buf_ok_def)
qed

lemma bget_miss:
  assumes "bcache_inv s" "unlocked s" "cur s = Some p" "\<And>i. \<not> buf_for s b i"
    "\<exists>i < NBUF. b_refcnt (bufs s ! i) = 0 \<and> \<not> b_dirty (bufs s ! i)"
  shows "\<exists>i < NBUF. b_refcnt (bufs s ! i) = 0 \<and> \<not> b_dirty (bufs s ! i) \<and>
    bget 1 b s = Ok (i, s\<lparr>bufs := (bufs s)[i := (bufs s ! i)\<lparr>b_valid := False, b_dirty := False,
      b_dev := 1, b_blockno := b, b_refcnt := 1\<rparr>],
    sleeplocks := (sleeplocks s)(SLBuf i := \<lparr>sl_locked = True, sl_pid = p_pid (procs s ! p)\<rparr>)\<rparr>)"
proof -
  obtain xs where xs: "mru_list s xs" using assms(1) by (auto simp: bcache_inv_def)
  then have set: "set xs = {..<NBUF}" by (simp add: mru_list_def)
  let ?P = "\<lambda>j. b_dev (bufs s ! j) = 1 \<and> b_blockno (bufs s ! j) = b"
  let ?Q = "\<lambda>j. b_refcnt (bufs s ! j) = 0 \<and> \<not> b_dirty (bufs s ! j)"
  have none: "find ?P xs = None" using assms(4) set by (auto simp: find_None_iff buf_for_def)
  obtain i where i: "find ?Q (rev xs) = Some i" "i < NBUF" "?Q i"
  proof (cases "find ?Q (rev xs)")
    case None
    then show ?thesis using assms(5) set by (auto simp: find_None_iff)
  next
    case (Some j)
    with find_SomeD [OF Some] set show ?thesis by (intro that) auto
  qed
  then have "\<not> blocked s i" using assms(1) by (auto simp: bcache_inv_def buf_ok_def Let_def split: if_splits)
  with i none assms(2,3) scans [OF xs] show ?thesis
    by (intro exI [of _ i]) (simp add: bget_def upd_buf_def acquiresleep_free unlocked_def)
qed

text \<open>\<open>bread\<close>: on a block that no one holds, with a buffer to spare, it returns the block's
  buffer, locked and valid, and nothing that a reader can see changes.\<close>

lemma bread_ok:
  assumes "bcache_inv s" "unlocked s" "cur s = Some p" "b < disksize s" "b \<notin> bheld s"
    "b \<in> bdirty s \<or> card (bdirty s \<union> bheld s) < NBUF"
  shows "\<exists>i s'. bread 1 b s = Ok (i, s') \<and> bcache_inv s' \<and> bio_frame s s' \<and> buf_for s' b i \<and> blocked s' i \<and>
    b_data (bufs s' ! i) = bview s b \<and> bview s' = bview s \<and> bdirty s' = bdirty s \<and>
    bheld s' = insert b (bheld s) \<and> disk s' = disk s \<and> disk_hist s' = disk_hist s \<and> procs s' = procs s \<and>
    (\<forall>x j. buf_for s x j \<and> blocked s j \<longrightarrow> buf_for s' x j \<and> blocked s' j)"
proof -
  let ?sl = "\<lambda>i. (sleeplocks s)(SLBuf i := \<lparr>sl_locked = True, sl_pid = p_pid (procs s ! p)\<rparr>)"
  have *: "\<exists>i c. bread 1 b s = Ok (i, s\<lparr>bufs := (bufs s)[i := c], sleeplocks := ?sl i\<rparr>) \<and>
      buf_step s (s\<lparr>bufs := (bufs s)[i := c], sleeplocks := ?sl i\<rparr>) i c \<and>
      b_dev c = 1 \<and> b_blockno c = b \<and> b_valid c \<and> b_data c = bview s b \<and> \<not> blocked s i \<and>
      (b_dirty c \<longleftrightarrow> b \<in> bdirty s) \<and> (b_dirty (bufs s ! i) \<longrightarrow> b_blockno (bufs s ! i) = b)"
  proof (cases "\<exists>i. buf_for s b i")
    case True
    then obtain i where i: "buf_for s b i" by blast
    have nb: "\<not> blocked s i" using assms(5) i by (auto simp: bheld_def)
    have ok: "buf_ok s i" "i < NBUF" "length (bufs s) = Suc NBUF"
      using assms(1) i by (auto simp: bcache_inv_def buf_for_def)
    have u: "\<And>j. buf_for s b j \<Longrightarrow> j = i" using buf_for_unique [OF assms(1) i] by blast
    then have d: "b \<in> bdirty s \<longleftrightarrow> b_dirty (bufs s ! i)" unfolding bdirty_def using i by blast
    note hit = bget_hit [OF assms(1-3) i nb]
    define c where "c = (bufs s ! i)\<lparr>b_refcnt := 1, b_valid := True, b_data := bview s b\<rparr>"
    have "bread 1 b s = Ok (i, s\<lparr>bufs := (bufs s)[i := c], sleeplocks := ?sl i\<rparr>)"
    proof (cases "b_valid (bufs s ! i)")
      case True
      then have "c = (bufs s ! i)\<lparr>b_refcnt := 1\<rparr>"
        unfolding c_def using bview_cached [OF assms(1) i] by simp
      with True ok show ?thesis by (simp add: bread_def hit)
    next
      case False
      with ok(1) have "\<not> b_dirty (bufs s ! i)" by (auto simp: buf_ok_def Let_def)
      with False ok i assms(2,4) bview_cached [OF assms(1) i] show ?thesis
        by (simp add: bread_def hit iderw_def holdingsleep_eq upd_buf_def buf_for_def c_def Let_def)
    qed
    moreover have "buf_step s (s\<lparr>bufs := (bufs s)[i := c], sleeplocks := ?sl i\<rparr>) i c"
      by (rule read_step [OF assms(1,4) ok(2) nb u])
        (use i in \<open>simp_all add: c_def buf_for_def bview_length [OF assms(1)]\<close>)
    ultimately show ?thesis using i nb d by (intro exI [of _ i] exI [of _ c]) (simp add: c_def buf_for_def)
  next
    case False
    then have "b \<notin> bdirty s" by (auto simp: bdirty_def)
    with assms(6) free_buf_exists [OF assms(1)] have "\<exists>i < NBUF. b_refcnt (bufs s ! i) = 0 \<and> \<not> b_dirty (bufs s ! i)"
      by blast
    with bget_miss [OF assms(1-3)] False obtain i where i: "i < NBUF" "b_refcnt (bufs s ! i) = 0"
      "\<not> b_dirty (bufs s ! i)" and miss: "bget 1 b s = Ok (i, s\<lparr>bufs := (bufs s)[i := (bufs s ! i)\<lparr>b_valid := False,
      b_dirty := False, b_dev := 1, b_blockno := b, b_refcnt := 1\<rparr>], sleeplocks := ?sl i\<rparr>)" by blast
    have nb: "\<not> blocked s i" "length (bufs s) = Suc NBUF"
      using assms(1) i(1,2) by (auto simp: bcache_inv_def buf_ok_def Let_def split: if_splits)
    define c where "c = (bufs s ! i)\<lparr>b_dirty := False, b_dev := 1, b_blockno := b, b_refcnt := 1,
      b_valid := True, b_data := disk s b\<rparr>"
    have "bread 1 b s = Ok (i, s\<lparr>bufs := (bufs s)[i := c], sleeplocks := ?sl i\<rparr>)"
      using nb i assms(2,4) by (simp add: bread_def miss iderw_def holdingsleep_eq upd_buf_def c_def Let_def not_le)
    moreover have "buf_step s (s\<lparr>bufs := (bufs s)[i := c], sleeplocks := ?sl i\<rparr>) i c"
      using False assms(1)
      by (intro read_step [OF assms(1,4) i(1) nb(1)]) (auto simp: c_def bcache_inv_def)
    moreover have "bview s b = disk s b" using False by (intro bview_uncached) blast
    ultimately show ?thesis using i nb \<open>b \<notin> bdirty s\<close>
      by (intro exI [of _ i] exI [of _ c]) (simp add: c_def)
  qed
  then obtain i c where 1: "bread 1 b s = Ok (i, s\<lparr>bufs := (bufs s)[i := c], sleeplocks := ?sl i\<rparr>)"
    and st: "buf_step s (s\<lparr>bufs := (bufs s)[i := c], sleeplocks := ?sl i\<rparr>) i c"
    and c: "b_dev c = 1" "b_blockno c = b" "b_valid c" "b_data c = bview s b" "\<not> blocked s i"
      "b_dirty c \<longleftrightarrow> b \<in> bdirty s" "b_dirty (bufs s ! i) \<longrightarrow> b_blockno (bufs s ! i) = b"
    by blast
  let ?s = "s\<lparr>bufs := (bufs s)[i := c], sleeplocks := ?sl i\<rparr>"
  have "bview ?s x = bview s x" for x
  proof (cases "x = b")
    case True
    then show ?thesis using buf_step_view [OF st c(1,3)] c(2,4) by simp
  next
    case False
    show ?thesis
    proof (rule buf_step_view_other [OF st])
      assume "buf_for s x i" "b_valid (bufs s ! i)"
      with c(5,7) False assms(1) show "b_data (bufs s ! i) = disk s x"
        by (auto simp: bcache_inv_def buf_for_def buf_ok_def Let_def)
    qed (use False c in auto)
  qed
  moreover have "bdirty ?s = bdirty s" using buf_step_dirty [OF st c(1)] c by auto
  moreover have "bheld ?s = insert b (bheld s)" using buf_step_held [OF st c(1)] c by simp
  moreover have "bio_frame s ?s" by (simp add: bio_frame_def bio_rest_def)
  moreover have "\<forall>x j. buf_for s x j \<and> blocked s j \<longrightarrow> buf_for ?s x j \<and> blocked ?s j"
    using c(5) by (auto simp: buf_step_for [OF st])
  moreover have "buf_for ?s b i" "bufs ?s ! i = c" using c buf_step_for [OF st] buf_step_nth [OF st] by auto
  ultimately show ?thesis
    using 1 c buf_step_inv [OF st] by (intro exI [of _ i] exI [of _ ?s]) (auto simp: fun_eq_iff)
qed

lemma held_step:
  assumes "bcache_inv s" "buf_for s b i" "blocked s i"
  shows "i < NBUF" "length (bufs s) = Suc NBUF" "buf_ok s i" "b < disksize s" "b_valid (bufs s ! i)"
    "b_dev (bufs s ! i) = 1" "b_blockno (bufs s ! i) = b" "b_refcnt (bufs s ! i) = 1" "length (b_data (bufs s ! i)) = 512"
    "\<forall>j < NBUF. j \<noteq> i \<and> b_dev (bufs s ! j) = 1 \<longrightarrow> b_blockno (bufs s ! j) \<noteq> b"
proof -
  show i: "i < NBUF" "b_dev (bufs s ! i) = 1" "b_blockno (bufs s ! i) = b"
    using assms(2) by (simp_all add: buf_for_def)
  show "length (bufs s) = Suc NBUF" and ok: "buf_ok s i"
    using assms(1) i(1) by (simp_all add: bcache_inv_def)
  show "b < disksize s" "b_valid (bufs s ! i)" "b_refcnt (bufs s ! i) = 1" "length (b_data (bufs s ! i)) = 512"
    using ok i assms(3) by (simp_all add: buf_ok_def Let_def)
  show "\<forall>j < NBUF. j \<noteq> i \<and> b_dev (bufs s ! j) = 1 \<longrightarrow> b_blockno (bufs s ! j) \<noteq> b"
    using buf_for_unique [OF assms(1,2)] by (auto simp: buf_for_def)
qed

lemma buf_step_for_same:
  assumes "buf_step s s' i c" "b_dev c = b_dev (bufs s ! i)" "b_blockno c = b_blockno (bufs s ! i)"
  shows "buf_for s' = buf_for s"
  using assms(2,3) by (intro ext) (simp add: buf_for_def buf_step_nth [OF assms(1)])

lemma held_dirty: "bcache_inv s \<Longrightarrow> buf_for s b i \<Longrightarrow> b \<in> bdirty s \<longleftrightarrow> b_dirty (bufs s ! i)"
  unfolding bdirty_def using buf_for_unique by blast

lemma set_data_ok:
  assumes "bcache_inv s" "buf_for s b i" "blocked s i" "length d = 512"
  defines "s' \<equiv> set_data i d s"
  shows "bcache_inv s'" "bio_frame s s'" "buf_for s' b i" "blocked s' i" "bview s' = (bview s)(b := d)"
    "bdirty s' = bdirty s" "bheld s' = bheld s" "disk s' = disk s" "disk_hist s' = disk_hist s"
    "b_data (bufs s' ! i) = d" "procs s' = procs s" "buf_for s' = buf_for s" "blocked s' = blocked s"
proof -
  note h = held_step [OF assms(1-3)]
  let ?c = "(bufs s ! i)\<lparr>b_data := d\<rparr>"
  have disk: "\<forall>b. length (disk s b) = 512" using assms(1) by (simp add: bcache_inv_def)
  have st: "buf_step s s' i ?c"
    using h assms(1,3,4) disk
    by (auto simp: buf_step_def s'_def set_data_def upd_buf_def buf_ok_def Let_def)
  show "bcache_inv s'" using buf_step_inv [OF st] .
  show frame: "bio_frame s s'" "disk s' = disk s" "disk_hist s' = disk_hist s" "procs s' = procs s"
    "blocked s' = blocked s" "blocked s' i"
    using assms(3) by (simp_all add: s'_def set_data_def upd_buf_def bio_frame_def bio_rest_def)
  show "buf_for s' b i" "b_data (bufs s' ! i) = d"
    using h by (simp_all add: buf_step_for [OF st] buf_step_nth [OF st])
  show "buf_for s' = buf_for s"
    by (rule buf_step_for_same [OF st]) simp_all
  show "bdirty s' = bdirty s"
    using buf_step_dirty [OF st] h held_dirty [OF assms(1,2)] by auto
  show "bheld s' = bheld s"
    using buf_step_held [OF st] h assms(2,3) frame by (auto simp: bheld_def)
  have "bview s' x = bview s x" if "x \<noteq> b" for x
    by (rule buf_step_view_other [OF st]) (use that h in \<open>auto simp: buf_for_def\<close>)
  moreover have "bview s' b = d" using buf_step_view [OF st] h by simp
  ultimately show "bview s' = (bview s)(b := d)" by auto
qed

lemma bwrite_ok:
  assumes "bcache_inv s" "unlocked s" "buf_for s b i" "blocked s i"
  shows "\<exists>s'. bwrite i s = Ok s' \<and> bcache_inv s' \<and> bio_frame s s' \<and> buf_for s' = buf_for s \<and> blocked s' = blocked s \<and>
    bview s' = bview s \<and> bdirty s' = bdirty s - {b} \<and> bheld s' = bheld s \<and>
    disk s' = (disk s)(b := bview s b) \<and> disk_hist s' = disk_hist s @ [(b, bview s b)] \<and> procs s' = procs s"
proof -
  note h = held_step [OF assms(1,3,4)]
  let ?c = "(bufs s ! i)\<lparr>b_valid := True, b_dirty := False\<rparr>"
  let ?d = "b_data (bufs s ! i)"
  let ?s = "s\<lparr>disk := (disk s)(b := ?d), disk_hist := disk_hist s @ [(b, ?d)], bufs := (bufs s)[i := ?c]\<rparr>"
  have v: "bview s b = ?d" using bview_cached [OF assms(1,3)] h by simp
  have disk: "\<forall>b. length (disk s b) = 512" using assms(1) by (simp add: bcache_inv_def)
  have 1: "bwrite i s = Ok ?s"
    using h assms(2,4) by (simp add: bwrite_def iderw_def holdingsleep_eq upd_buf_def Let_def not_le)
  have st: "buf_step s ?s i ?c"
    using h assms(1,4) disk by (auto simp: buf_step_def buf_ok_def Let_def)
  have "bdirty ?s = bdirty s - {b}" using buf_step_dirty [OF st] h by simp
  moreover have "bheld ?s = bheld s" using buf_step_held [OF st] h assms(3,4) by (auto simp: bheld_def)
  moreover have "bview ?s x = bview s x" for x
  proof (cases "x = b")
    case True
    then show ?thesis using buf_step_view [OF st] h v by simp
  next
    case False
    then show ?thesis by (intro buf_step_view_other [OF st]) (use h in \<open>auto simp: buf_for_def\<close>)
  qed
  moreover have "bio_frame s ?s" by (simp add: bio_frame_def bio_rest_def)
  moreover have "buf_for ?s = buf_for s" by (rule buf_step_for_same [OF st]) simp_all
  ultimately show ?thesis using 1 v buf_step_inv [OF st] by (intro exI [of _ ?s]) (auto simp: fun_eq_iff)
qed

text \<open>Moving a buffer to the front of the list.\<close>

lemma linked_to_front:
  assumes "linked n p (h # us @ i # vs @ [h])" "distinct (h # us @ i # vs)"
  defines "n1 \<equiv> n(p i := n i)" and "p1 \<equiv> p(n i := p i)"
  shows "linked (n1(i := n1 h, h := i)) (p1(i := h, n1 h := i)) (h # i # us @ vs @ [h])"
proof -
  define a where "a = last (h # us)"
  define b where "b = hd (vs @ [h])"
  have bl: "butlast (h # us) @ [a] = h # us" unfolding a_def by (rule append_butlast_last_id) simp
  have tl: "b # tl (vs @ [h]) = vs @ [h]" unfolding b_def by (cases vs) auto
  have l: "h # us @ i # vs @ [h] = butlast (h # us) @ a # i # b # tl (vs @ [h])"
    using bl tl by (metis append.assoc append_Cons append_Nil)
  have "n i = b" using assms(1) unfolding l by (metis append.assoc append_Cons append_Nil linked_next)
  moreover have "p i = a" using assms(1) unfolding l by (rule linked_prev)
  moreover have "linked (n(a := b)) (p(b := a)) (butlast (h # us) @ a # b # tl (vs @ [h]))"
  proof (rule linked_remove)
    have "distinct (butlast (h # us @ i # vs @ [h]))" "distinct (tl (h # us @ i # vs @ [h]))"
      using assms(2) by (auto simp: butlast_append)
    then show "linked n p (butlast (h # us) @ a # i # b # tl (vs @ [h]))"
      "distinct (butlast (butlast (h # us) @ a # i # b # tl (vs @ [h])))"
      "distinct (tl (butlast (h # us) @ a # i # b # tl (vs @ [h])))"
      using assms(1) unfolding l by blast+
  qed
  moreover have "butlast (h # us) @ a # b # tl (vs @ [h]) = h # us @ vs @ [h]"
    using bl tl by (metis append.assoc append_Cons append_Nil)
  ultimately have r: "linked n1 p1 (h # us @ vs @ [h])" by (simp add: n1_def p1_def)
  define c where "c = hd (us @ vs @ [h])"
  have c: "c # tl (us @ vs @ [h]) = us @ vs @ [h]" unfolding c_def by (cases "us @ vs @ [h]") auto
  have "n1 h = c" using r c by (metis linked.simps(3))
  moreover have "linked (n1(i := c, h := i)) (p1(i := h, c := i)) (h # i # c # tl (us @ vs @ [h]))"
  proof (rule linked_insert)
    show "linked n1 p1 (h # c # tl (us @ vs @ [h]))" using r c by simp
    show "i \<notin> set (h # butlast (c # tl (us @ vs @ [h])))" "i \<notin> set (c # tl (us @ vs @ [h]))"
      "h \<notin> set (butlast (c # tl (us @ vs @ [h])))"
      unfolding c using assms(2) by (auto simp: butlast_append)
    have "distinct (us @ vs @ [h])" using assms(2) by auto
    then have "distinct (c # tl (us @ vs @ [h]))" using c by simp
    then show "c \<notin> set (tl (us @ vs @ [h]))" by simp
  qed
  ultimately show ?thesis unfolding c by simp
qed

lemma linked_neighbours:
  assumes "linked n p (h # us @ i # vs @ [h])"
  shows "n i \<in> set (h # vs)" "p i \<in> set (h # us)"
proof -
  have "n i = hd (vs @ [h])"
    using assms linked_next [of n p "h # us" i "hd (vs @ [h])" "tl (vs @ [h])"] by simp
  then show "n i \<in> set (h # vs)" by (cases vs) auto
  have "h # us @ i # vs @ [h] = butlast (h # us) @ last (h # us) # i # vs @ [h]"
    by (metis append.assoc append_Cons append_Nil append_butlast_last_id list.distinct(1))
  then have "p i = last (h # us)" using assms linked_prev by metis
  then show "p i \<in> set (h # us)" by (metis last_in_set list.distinct(1))
qed

definition bcore :: "buf \<Rightarrow> buf" where
  "bcore b = b\<lparr>b_next := 0, b_prev := 0\<rparr>"

lemma bcore_field:
  "bcore b = bcore c \<Longrightarrow> b_data b = b_data c \<and> b_refcnt b = b_refcnt c \<and> b_valid b = b_valid c \<and>
     b_dirty b = b_dirty c \<and> b_dev b = b_dev c \<and> b_blockno b = b_blockno c"
  by (cases b; cases c) (simp add: bcore_def)

lemma bcore_same:
  assumes "\<And>j. bcore (bufs s' ! j) = bcore (bufs s ! j)" "sleeplocks s' = sleeplocks s" "disk s' = disk s" "disksize s' = disksize s"
  shows "buf_ok s' = buf_ok s" "buf_for s' = buf_for s" "bview s' = bview s" "bdirty s' = bdirty s" "bheld s' = bheld s"
proof -
  note f = bcore_field [OF assms(1)]
  show "buf_ok s' = buf_ok s" by (intro ext) (simp add: buf_ok_def f assms Let_def)
  show *: "buf_for s' = buf_for s" by (intro ext) (simp add: buf_for_def f)
  show "bview s' = bview s" by (intro ext) (simp add: bview_def f * assms split: option.split)
  show "bdirty s' = bdirty s" "bheld s' = bheld s" by (simp_all add: bdirty_def bheld_def f * assms)
qed

lemma bcore_inv:
  assumes "bcache_inv s" "\<And>j. bcore (bufs s' ! j) = bcore (bufs s ! j)" "sleeplocks s' = sleeplocks s"
    "disk s' = disk s" "disksize s' = disksize s" "length (bufs s') = length (bufs s)" "mru_list s' xs"
  shows "bcache_inv s'"
  using assms(1,6,7) bcore_field [OF assms(2)] bcore_same(1) [OF assms(2-5)] assms(4)
  unfolding bcache_inv_def by (metis (no_types, lifting))

text \<open>The two links as functions.\<close>

definition nx :: "kernel \<Rightarrow> nat \<Rightarrow> nat" where "nx s j = b_next (bufs s ! j)"
definition pv :: "kernel \<Rightarrow> nat \<Rightarrow> nat" where "pv s j = b_prev (bufs s ! j)"

lemma links_upd:
  assumes "k < length (bufs s)"
  shows "nx (upd_buf k (\<lambda>c. c\<lparr>b_next := x\<rparr>) s) = (nx s)(k := x)" "nx (upd_buf k (\<lambda>c. c\<lparr>b_prev := x\<rparr>) s) = nx s"
    "pv (upd_buf k (\<lambda>c. c\<lparr>b_prev := x\<rparr>) s) = (pv s)(k := x)" "pv (upd_buf k (\<lambda>c. c\<lparr>b_next := x\<rparr>) s) = pv s"
  using assms by (auto simp: nx_def pv_def upd_buf_def fun_eq_iff nth_list_update)

lemma bcore_upd:
  assumes "\<And>c. bcore (f c) = bcore c"
  shows "bcore (bufs (upd_buf k f s) ! j) = bcore (bufs s ! j)"
  using assms by (cases "k < length (bufs s)"; cases "j = k") (simp_all add: upd_buf_def list_update_beyond)

lemma bcore_links [simp]: "bcore (c\<lparr>b_next := x\<rparr>) = bcore c" "bcore (c\<lparr>b_prev := x\<rparr>) = bcore c"
  by (simp_all add: bcore_def)

lemma upd_buf_simps [simp]:
  "length (bufs (upd_buf k f s)) = length (bufs s)" "sleeplocks (upd_buf k f s) = sleeplocks s"
  "disk (upd_buf k f s) = disk s" "disksize (upd_buf k f s) = disksize s" "disk_hist (upd_buf k f s) = disk_hist s"
  "procs (upd_buf k f s) = procs s" "locks (upd_buf k f s) = locks s" "ncli (upd_buf k f s) = ncli s"
  "bio_rest (upd_buf k f s) = bio_rest s" "klog (upd_buf k f s) = klog s"
  by (simp_all add: upd_buf_def bio_rest_def)


definition to_front :: "nat \<Rightarrow> kernel \<Rightarrow> kernel" where
  "to_front i s =
     (let s = upd_buf (nx s i) (\<lambda>c. c\<lparr>b_prev := pv s i\<rparr>) s;
          s = upd_buf (pv s i) (\<lambda>c. c\<lparr>b_next := nx s i\<rparr>) s;
          s = upd_buf i (\<lambda>c. c\<lparr>b_next := nx s NBUF\<rparr>) s;
          s = upd_buf i (\<lambda>c. c\<lparr>b_prev := NBUF\<rparr>) s;
          s = upd_buf (nx s NBUF) (\<lambda>c. c\<lparr>b_prev := i\<rparr>) s in
      upd_buf NBUF (\<lambda>c. c\<lparr>b_next := i\<rparr>) s)"

lemma to_front_ind:
  assumes "P s" "\<And>k x t. P t \<Longrightarrow> P (upd_buf k (\<lambda>c. c\<lparr>b_next := x\<rparr>) t)" "\<And>k x t. P t \<Longrightarrow> P (upd_buf k (\<lambda>c. c\<lparr>b_prev := x\<rparr>) t)"
  shows "P (to_front i s)"
  unfolding to_front_def Let_def by (intro assms)

lemma to_front_simps [simp]:
  "length (bufs (to_front i s)) = length (bufs s)" "sleeplocks (to_front i s) = sleeplocks s"
  "disk (to_front i s) = disk s" "disksize (to_front i s) = disksize s" "disk_hist (to_front i s) = disk_hist s"
  "procs (to_front i s) = procs s" "bio_rest (to_front i s) = bio_rest s"
  "bcore (bufs (to_front i s) ! j) = bcore (bufs s ! j)"
  by (rule to_front_ind; simp add: bcore_upd)+

lemma to_front_mru:
  assumes "mru_list s (us @ i # vs)" "length (bufs s) = Suc NBUF"
  shows "mru_list (to_front i s) (i # us @ vs)"
proof -
  have l: "linked (nx s) (pv s) (NBUF # us @ i # vs @ [NBUF])" and set: "set (us @ i # vs) = {..<NBUF}"
    and dx: "distinct (us @ i # vs)"
    using assms(1) by (simp_all add: mru_list_def nx_def [abs_def] pv_def [abs_def])
  have d: "distinct (NBUF # us @ i # vs)" using dx set by (metis distinct.simps(2) lessThan_iff less_irrefl)
  have r: "nx s i \<in> set (NBUF # vs)" "pv s i \<in> set (NBUF # us)" using linked_neighbours [OF l] by auto
  have le: "k < Suc NBUF" if "k \<in> set (NBUF # us @ i # vs)" for k
    using that set by (metis lessI less_SucI lessThan_iff set_ConsD)
  have b: "nx s i < Suc NBUF" "pv s i < Suc NBUF" "i < Suc NBUF" using r le by auto
  have ne: "nx s i \<noteq> i" "pv s i \<noteq> i" "i \<noteq> NBUF" using r d by auto
  have bh: "((nx s)(pv s i := nx s i)) NBUF < Suc NBUF"
  proof -
    have "nx s NBUF = hd (us @ i # vs)" using l by (cases us) auto
    then have "nx s NBUF \<in> set (us @ i # vs)" by (cases us) auto
    then show ?thesis using le b by auto
  qed
  define n1 where "n1 = (nx s)(pv s i := nx s i)"
  define p1 where "p1 = (pv s)(nx s i := pv s i)"
  define s1 where "s1 = upd_buf (nx s i) (\<lambda>c. c\<lparr>b_prev := pv s i\<rparr>) s"
  have 1: "nx s1 = nx s" "pv s1 = p1" "length (bufs s1) = Suc NBUF"
    using b assms(2) by (simp_all add: s1_def links_upd p1_def)
  define s2 where "s2 = upd_buf (pv s1 i) (\<lambda>c. c\<lparr>b_next := nx s1 i\<rparr>) s1"
  have pi: "pv s1 i = pv s i" using ne by (simp add: 1 p1_def)
  have 2: "nx s2 = n1" "pv s2 = p1" "length (bufs s2) = Suc NBUF"
    unfolding s2_def pi 1(1) using b 1 by (simp_all add: links_upd n1_def)
  define s3 where "s3 = upd_buf i (\<lambda>c. c\<lparr>b_next := nx s2 NBUF\<rparr>) s2"
  have 3: "nx s3 = n1(i := n1 NBUF)" "pv s3 = p1" "length (bufs s3) = Suc NBUF"
    unfolding s3_def using b 2 by (simp_all add: links_upd)
  define s4 where "s4 = upd_buf i (\<lambda>c. c\<lparr>b_prev := NBUF\<rparr>) s3"
  have 4: "nx s4 = n1(i := n1 NBUF)" "pv s4 = p1(i := NBUF)" "length (bufs s4) = Suc NBUF"
    unfolding s4_def using b 3 by (simp_all add: links_upd)
  have h: "nx s4 NBUF = n1 NBUF" using ne by (simp add: 4)
  define s5 where "s5 = upd_buf (nx s4 NBUF) (\<lambda>c. c\<lparr>b_prev := i\<rparr>) s4"
  have 5: "nx s5 = n1(i := n1 NBUF)" "pv s5 = p1(i := NBUF, n1 NBUF := i)" "length (bufs s5) = Suc NBUF"
    unfolding s5_def h using bh [folded n1_def] 4 by (simp_all add: links_upd)
  have "to_front i s = upd_buf NBUF (\<lambda>c. c\<lparr>b_next := i\<rparr>) s5"
    by (simp only: to_front_def Let_def s1_def s2_def s3_def s4_def s5_def)
  then have "nx (to_front i s) = n1(i := n1 NBUF, NBUF := i)" "pv (to_front i s) = p1(i := NBUF, n1 NBUF := i)"
    using 5 by (simp_all add: links_upd)
  then have "linked (nx (to_front i s)) (pv (to_front i s)) (NBUF # i # us @ vs @ [NBUF])"
    using linked_to_front [OF l d] by (simp only: n1_def p1_def)
  then show ?thesis using set dx by (auto simp: mru_list_def nx_def [abs_def] pv_def [abs_def])
qed

lemma to_front_locks:
  "to_front i (s\<lparr>locks := l, ncli := n\<rparr>) = (to_front i s)\<lparr>locks := l, ncli := n\<rparr>"
proof -
  have c: "upd_buf k f (s\<lparr>locks := l, ncli := n\<rparr>) = (upd_buf k f s)\<lparr>locks := l, ncli := n\<rparr>"
    "nx (s\<lparr>locks := l, ncli := n\<rparr>) = nx s" "pv (s\<lparr>locks := l, ncli := n\<rparr>) = pv s" for k f s
    by (simp_all add: upd_buf_def nx_def [abs_def] pv_def [abs_def])
  show ?thesis by (simp only: to_front_def Let_def c)
qed

lemma to_front_lock_fields [simp]: "locks (to_front i s) = locks s" "ncli (to_front i s) = ncli s"
  by (rule to_front_ind; simp)+

lemma brelse_eq:
  assumes "unlocked s" "blocked s i" "i < length (bufs s)" "b_refcnt (bufs s ! i) = 1"
  defines "w \<equiv> wakeup1 (Some (C_sleep (SLBuf i))) (s\<lparr>sleeplocks := (sleeplocks s)(SLBuf i := \<lparr>sl_locked = False, sl_pid = 0\<rparr>)\<rparr>)"
  shows "brelse i s = Ok (to_front i (w\<lparr>bufs := (bufs s)[i := (bufs s ! i)\<lparr>b_refcnt := 0\<rparr>]\<rparr>))"
proof -
  let ?u = "w\<lparr>bufs := (bufs s)[i := (bufs s ! i)\<lparr>b_refcnt := 0\<rparr>]\<rparr>"
  let ?l = "(locks s)(L_bcache := True)" and ?n = "ncli s + 1"
  have w: "bufs w = bufs s" "locks w = locks s" "ncli w = ncli s" by (simp_all add: w_def wakeup1_def)
  have a: "acquire L_bcache w = Ok (w\<lparr>locks := ?l, ncli := ?n\<rparr>)" using assms(1) w by simp
  have b: "upd_buf i (\<lambda>b. b\<lparr>b_refcnt := b_refcnt b - 1\<rparr>) (w\<lparr>locks := ?l, ncli := ?n\<rparr>) = ?u\<lparr>locks := ?l, ncli := ?n\<rparr>"
    using assms(4) by (simp add: upd_buf_def w)
  have hs: "holdingsleep (SLBuf i) s = Ok (blocked s i, s)" by (rule holdingsleep_eq [OF assms(1)])
  have rs: "releasesleep (SLBuf i) s = Ok w" unfolding w_def by (rule releasesleep_eq [OF assms(1)])
  have z: "b_refcnt (bufs (?u\<lparr>locks := ?l, ncli := ?n\<rparr>) ! i) = 0" using assms(3) by simp
  have "brelse i s = release L_bcache (to_front i (?u\<lparr>locks := ?l, ncli := ?n\<rparr>))"
    unfolding brelse_def using assms(2) a b z hs rs by (simp only: rbind.simps prod.case Let_def if_True if_False not_True_eq_False simp_thms to_front_def nx_def pv_def)
  also have "\<dots> = Ok (to_front i ?u)"
    unfolding to_front_locks using assms(1) w by (simp add: release_def)
  finally show ?thesis .
qed

text \<open>\<open>brelse\<close>: a buffer that is pinned or unchanged is given back and becomes the most recently
  used.\<close>

lemma brelse_ok:
  assumes "bcache_inv s" "unlocked s" "buf_for s b i" "blocked s i" "b \<in> bdirty s \<or> bview s b = disk s b"
  shows "\<exists>s'. brelse i s = Ok s' \<and> bcache_inv s' \<and> bio_frame s s' \<and> buf_for s' = buf_for s \<and>
    (\<forall>j. blocked s' j = (blocked s j \<and> j \<noteq> i)) \<and>
    bview s' = bview s \<and> bdirty s' = bdirty s \<and> bheld s' = bheld s - {b} \<and>
    disk s' = disk s \<and> disk_hist s' = disk_hist s \<and>
    procs s' = procs (wakeup1 (Some (C_sleep (SLBuf i))) s)"
proof -
  note h = held_step [OF assms(1,3,4)]
  let ?c = "(bufs s ! i)\<lparr>b_refcnt := 0\<rparr>"
  let ?w = "wakeup1 (Some (C_sleep (SLBuf i))) (s\<lparr>sleeplocks := (sleeplocks s)(SLBuf i := \<lparr>sl_locked = False, sl_pid = 0\<rparr>)\<rparr>)"
  let ?t = "?w\<lparr>bufs := (bufs s)[i := ?c]\<rparr>"
  have disk: "\<forall>b. length (disk s b) = 512" using assms(1) by (simp add: bcache_inv_def)
  have clean: "b_data (bufs s ! i) = disk s b" if "\<not> b_dirty (bufs s ! i)"
    using that assms(5) held_dirty [OF assms(1,3)] bview_cached [OF assms(1,3)] h(5) by simp
  have st: "buf_step s ?t i ?c"
    using h assms(1) disk clean by (auto simp: buf_step_def buf_ok_def Let_def wakeup1_def)
  have 1: "brelse i s = Ok (to_front i ?t)"
    using brelse_eq [OF assms(2,4)] h by simp
  obtain xs where xs: "mru_list ?t xs" using buf_step_inv [OF st] by (auto simp: bcache_inv_def)
  then have "i \<in> set xs" using h(1) by (auto simp: mru_list_def)
  then obtain us vs where "xs = us @ i # vs" by (metis split_list)
  then have mru: "mru_list (to_front i ?t) (i # us @ vs)" using to_front_mru [of ?t us i vs] xs h(2) by simp
  have inv: "bcache_inv (to_front i ?t)"
    by (rule bcore_inv [OF buf_step_inv [OF st] _ _ _ _ _ mru]) simp_all
  note same = bcore_same [of "to_front i ?t" ?t, simplified]
  have "bdirty ?t = bdirty s" using buf_step_dirty [OF st] h held_dirty [OF assms(1,3)] by auto
  moreover have bl: "blocked ?t j = (blocked s j \<and> j \<noteq> i)" for j by simp
  moreover have "bheld ?t = bheld s - {b}" using buf_step_held [OF st] h assms(3,4) by simp
  moreover have "buf_for ?t = buf_for s" by (rule buf_step_for_same [OF st]) simp_all
  moreover have "bview ?t x = bview s x" for x
  proof (cases "x = b")
    case True
    then show ?thesis using buf_step_view [OF st] h bview_cached [OF assms(1,3)] by simp
  next
    case False
    then show ?thesis by (intro buf_step_view_other [OF st]) (use h in \<open>auto simp: buf_for_def\<close>)
  qed
  moreover have "bio_frame s (to_front i ?t)" by (simp add: bio_frame_def) (simp add: bio_rest_def wakeup1_def)
  ultimately show ?thesis using 1 inv same
    by (intro exI [of _ "to_front i ?t"]) (auto simp: fun_eq_iff wakeup1_def)
qed

text \<open>The effect of a sequence of block writes.\<close>

definition writes :: "(u32 \<times> u8 list) list \<Rightarrow> (u32 \<Rightarrow> u8 list) \<Rightarrow> u32 \<Rightarrow> u8 list" where
  "writes ws d = fold (\<lambda>(b, x) d. d(b := x)) ws d"

lemma writes_append: "writes (ws @ vs) d = writes vs (writes ws d)"
  by (simp add: writes_def)

lemma writes_simps [simp]: "writes [] d = d" "writes ((b, x) # ws) d = writes ws (d(b := x))"
  by (simp_all add: writes_def)

lemma writes_other: "b \<notin> fst ` set ws \<Longrightarrow> writes ws d b = d b"
  by (induction ws arbitrary: d) (auto simp: split_beta)


section \<open>The contract of the cache\<close>

text \<open>A state, what a reader of a block sees (\<open>view\<close>), the blocks that must not leave the cache
  (\<open>pinned\<close>), the blocks whose buffer is held, the disk and the writes it has performed. \<open>hold s b i\<close>: buffer
  \<open>i\<close> is held and stands for block \<open>b\<close>.\<close>

locale block_cache =
  fixes ok :: "'s \<Rightarrow> bool" and view :: "'s \<Rightarrow> u32 \<Rightarrow> u8 list" and pinned held :: "'s \<Rightarrow> u32 set"
    and dsk :: "'s \<Rightarrow> u32 \<Rightarrow> u8 list" and hist :: "'s \<Rightarrow> (u32 \<times> u8 list) list"
    and cap :: "'s \<Rightarrow> u32 \<Rightarrow> bool" and hold :: "'s \<Rightarrow> u32 \<Rightarrow> nat \<Rightarrow> bool" and data :: "'s \<Rightarrow> nat \<Rightarrow> u8 list"
    and frame :: "'s \<Rightarrow> 's \<Rightarrow> bool" and nbuf :: nat
    and rd :: "u32 \<Rightarrow> 's \<Rightarrow> ('s, nat \<times> 's) res" and wr rel :: "nat \<Rightarrow> 's \<Rightarrow> ('s, 's) res"
    and setd :: "nat \<Rightarrow> u8 list \<Rightarrow> 's \<Rightarrow> 's"
  assumes rd: "ok s \<Longrightarrow> cap s b \<Longrightarrow> b \<notin> held s \<Longrightarrow> b \<in> pinned s \<or> card (pinned s \<union> held s) < nbuf \<Longrightarrow>
      \<exists>i s'. rd b s = Ok (i, s') \<and> ok s' \<and> frame s s' \<and> hold s' b i \<and> (\<forall>x j. hold s x j \<longrightarrow> hold s' x j) \<and>
        view s' = view s \<and> pinned s' = pinned s \<and> held s' = insert b (held s) \<and> dsk s' = dsk s \<and> hist s' = hist s"
    and setd: "ok s \<Longrightarrow> hold s b i \<Longrightarrow> length d = 512 \<Longrightarrow> s' = setd i d s \<Longrightarrow>
        ok s' \<and> frame s s' \<and> hold s' = hold s \<and> view s' = (view s)(b := d) \<and> pinned s' = pinned s \<and>
        held s' = held s \<and> dsk s' = dsk s \<and> hist s' = hist s"
    and wr: "ok s \<Longrightarrow> hold s b i \<Longrightarrow>
      \<exists>s'. wr i s = Ok s' \<and> ok s' \<and> frame s s' \<and> hold s' = hold s \<and> view s' = view s \<and> pinned s' = pinned s - {b} \<and>
        held s' = held s \<and> dsk s' = (dsk s)(b := view s b) \<and> hist s' = hist s @ [(b, view s b)]"
    and rel: "ok s \<Longrightarrow> hold s b i \<Longrightarrow> b \<in> pinned s \<or> view s b = dsk s b \<Longrightarrow>
      \<exists>s'. rel i s = Ok s' \<and> ok s' \<and> frame s s' \<and> (\<forall>x j. hold s x j \<and> x \<noteq> b \<longrightarrow> hold s' x j) \<and> view s' = view s \<and>
        pinned s' = pinned s \<and> held s' = held s - {b} \<and> dsk s' = dsk s \<and> hist s' = hist s"
    and data: "ok s \<Longrightarrow> hold s b i \<Longrightarrow> data s i = view s b"
    and clean: "ok s \<Longrightarrow> b \<notin> pinned s \<Longrightarrow> b \<notin> held s \<Longrightarrow> view s b = dsk s b"
    and view_length: "ok s \<Longrightarrow> length (view s b) = 512"
    and frame_trans: "frame s s' \<Longrightarrow> frame s' s'' \<Longrightarrow> frame s s''"
    and frame_cap: "frame s s' \<Longrightarrow> cap s' = cap s"
begin

text \<open>From \<open>s\<close> to \<open>s'\<close> the blocks of \<open>ws\<close> were written, in order, and nothing else happened.\<close>

definition wrote :: "'s \<Rightarrow> (u32 \<times> u8 list) list \<Rightarrow> 's \<Rightarrow> bool" where
  "wrote s ws s' \<longleftrightarrow> ok s' \<and> held s' = {} \<and> view s' = writes ws (view s) \<and> dsk s' = writes ws (dsk s) \<and>
     hist s' = hist s @ ws \<and> pinned s' = pinned s - fst ` set ws"

lemma wrote_trans: "wrote s ws s' \<Longrightarrow> wrote s' vs s'' \<Longrightarrow> wrote s (ws @ vs) s''"
  by (auto simp: wrote_def writes_append)

lemma put_block:
  assumes "ok s" "hold s b i" "held s = {b}" "length d = 512"
  shows "\<exists>s'. rbind (wr i (setd i d s)) (rel i) = Ok s' \<and> wrote s [(b, d)] s' \<and> frame s s'"
proof -
  let ?s = "setd i d s"
  note a = setd [OF assms(1,2,4) refl]
  then obtain t where t: "wr i ?s = Ok t" "ok t" "frame ?s t" "hold t = hold s" "view t = (view s)(b := d)"
    "pinned t = pinned s - {b}" "held t = {b}" "dsk t = (dsk s)(b := d)" "hist t = hist s @ [(b, d)]"
    using wr [of ?s b i] assms(2,3) by auto
  moreover have "hold t b i" "view t b = dsk t b" using t assms(2) by simp_all
  ultimately obtain u where "rel i t = Ok u" "ok u" "frame t u" "view u = view t" "pinned u = pinned t"
    "held u = held t - {b}" "dsk u = dsk t" "hist u = hist t"
    using rel [of t b i] by blast
  with t a show ?thesis by (auto simp: wrote_def writes_def intro: frame_trans)
qed

text \<open>Both blocks are held: the source is copied, the destination written, and both are released.\<close>

lemma copy_held:
  assumes "ok s" "hold s src i" "hold s dst j" "src \<noteq> dst" "held s = {src, dst}"
    "src \<in> pinned s \<or> view s src = dsk s src"
  shows "\<exists>s'. rbind (wr j (setd j (data s i) s)) (\<lambda>s. rbind (rel i s) (rel j)) = Ok s' \<and>
    wrote s [(dst, view s src)] s' \<and> frame s s'"
proof -
  let ?d = "view s src"
  let ?s = "setd j ?d s"
  have d: "data s i = ?d" using data [OF assms(1,2)] .
  note a = setd [OF assms(1,3) view_length [OF assms(1)] refl, of src]
  then obtain t where t: "wr j ?s = Ok t" "ok t" "frame ?s t" "hold t = hold s" "view t = (view s)(dst := ?d)"
    "pinned t = pinned s - {dst}" "held t = {src, dst}" "dsk t = (dsk s)(dst := ?d)" "hist t = hist s @ [(dst, ?d)]"
    using wr [of ?s dst j] assms(3,5) by auto
  have "hold t src i" "src \<in> pinned t \<or> view t src = dsk t src" using t assms(2,4,6) by auto
  with t obtain u where u: "rel i t = Ok u" "ok u" "frame t u" "view u = view t" "pinned u = pinned t"
    "held u = {dst}" "dsk u = dsk t" "hist u = hist t" "hold u dst j"
    using rel [of t src i] assms(3,4) by fastforce
  moreover have "view u dst = dsk u dst" using u t by simp
  ultimately obtain v where "rel j u = Ok v" "ok v" "frame u v" "view v = view u" "pinned v = pinned u"
    "held v = {}" "dsk v = dsk u" "hist v = hist u"
    using rel [of u dst j] by fastforce
  with t u a d show ?thesis by (auto simp: wrote_def writes_def intro: frame_trans)
qed

text \<open>Reading one block, and reading two.\<close>

lemma read_one:
  assumes "ok s" "held s = {}" "cap s a" "card (pinned s) < nbuf"
  shows "\<exists>i s'. rd a s = Ok (i, s') \<and> ok s' \<and> frame s s' \<and> hold s' a i \<and> held s' = {a} \<and> view s' = view s \<and>
    pinned s' = pinned s \<and> dsk s' = dsk s \<and> hist s' = hist s"
  using rd [of s a] assms by auto

lemma read_two:
  assumes "ok s" "held s = {}" "cap s a" "cap s b" "a \<noteq> b" "card (pinned s) < nbuf"
    "b \<in> pinned s \<or> card (insert a (pinned s)) < nbuf"
  shows "\<exists>i s1 j s2. rd a s = Ok (i, s1) \<and> frame s s1 \<and> rd b s1 = Ok (j, s2) \<and> ok s2 \<and> frame s s2 \<and> hold s2 a i \<and> hold s2 b j \<and>
    held s2 = {a, b} \<and> view s2 = view s \<and> pinned s2 = pinned s \<and> dsk s2 = dsk s \<and> hist s2 = hist s"
proof -
  obtain i t where t: "rd a s = Ok (i, t)" "ok t" "frame s t" "hold t a i" "held t = {a}" "view t = view s"
    "pinned t = pinned s" "dsk t = dsk s" "hist t = hist s"
    using read_one [OF assms(1-3,6)] by blast
  have "cap t b" "b \<notin> held t" "b \<in> pinned t \<or> card (pinned t \<union> held t) < nbuf"
    using assms(4,5,7) t frame_cap [OF t(3)] by auto
  from rd [OF t(2) this] obtain j u where u: "rd b t = Ok (j, u)" "ok u" "frame t u" "hold u b j"
    "\<forall>x j. hold t x j \<longrightarrow> hold u x j" "view u = view t" "pinned u = pinned t" "held u = insert b (held t)"
    "dsk u = dsk t" "hist u = hist t"
    by blast
  then have "hold u a i" "held u = {a, b}" "frame s u" using t frame_trans [OF t(3) u(3)] by auto
  with t u show ?thesis
    by (intro exI [of _ i] exI [of _ t] exI [of _ j] exI [of _ u]) simp
qed

end

definition cache_ok :: "kernel \<Rightarrow> bool" where
  "cache_ok s \<longleftrightarrow> bcache_inv s \<and> unlocked s \<and> cur s \<noteq> None"

definition bhold :: "kernel \<Rightarrow> u32 \<Rightarrow> nat \<Rightarrow> bool" where
  "bhold s b i \<longleftrightarrow> buf_for s b i \<and> blocked s i"

lemma bview_clean: "bcache_inv s \<Longrightarrow> b \<notin> bdirty s \<Longrightarrow> b \<notin> bheld s \<Longrightarrow> bview s b = disk s b"
proof -
  assume a: "bcache_inv s" "b \<notin> bdirty s" "b \<notin> bheld s"
  show ?thesis
  proof (cases "\<exists>i. buf_for s b i")
    case True
    then obtain i where i: "buf_for s b i" by blast
    with a have "\<not> b_dirty (bufs s ! i)" "\<not> blocked s i" "buf_ok s i" "b_blockno (bufs s ! i) = b"
      by (auto simp: bdirty_def bheld_def bcache_inv_def buf_for_def)
    then show ?thesis using bview_cached [OF a(1) i] by (simp add: buf_ok_def Let_def)
  qed (use bview_uncached in blast)
qed

interpretation bc: block_cache cache_ok bview bdirty bheld disk disk_hist "\<lambda>s b. b < disksize s" bhold
  "\<lambda>s i. b_data (bufs s ! i)" bio_frame NBUF "bread 1" bwrite brelse set_data
proof (unfold_locales, goal_cases)
  case (1 s b)
  then obtain p where "bcache_inv s" "unlocked s" "cur s = Some p" by (auto simp: cache_ok_def)
  from bread_ok [OF this, of b] 1 obtain i s' where r: "bread 1 b s = Ok (i, s')" "bcache_inv s'" "bio_frame s s'"
    "buf_for s' b i" "blocked s' i" "bview s' = bview s" "bdirty s' = bdirty s" "bheld s' = insert b (bheld s)"
    "disk s' = disk s" "disk_hist s' = disk_hist s"
    "\<forall>x j. buf_for s x j \<and> blocked s j \<longrightarrow> buf_for s' x j \<and> blocked s' j"
    by blast
  have "cache_ok s'" using r(2) 1(1) bio_frame_simps [OF r(3)] by (simp add: cache_ok_def)
  moreover have "bhold s' b i" "\<forall>x j. bhold s x j \<longrightarrow> bhold s' x j" using r by (auto simp: bhold_def)
  ultimately show ?case using r by (intro exI [of _ i] exI [of _ s']) blast
next
  case (2 s b i d s')
  then have h: "bcache_inv s" "buf_for s b i" "blocked s i" by (auto simp: cache_ok_def bhold_def)
  note a = set_data_ok [OF this 2(3), folded 2(4)]
  have "cache_ok s'" using a(1) 2(1) bio_frame_simps [OF a(2)] by (simp add: cache_ok_def)
  with a show ?case by (simp add: bhold_def fun_eq_iff)
next
  case (3 s b i)
  then have "bcache_inv s" "unlocked s" "buf_for s b i" "blocked s i" by (auto simp: cache_ok_def bhold_def)
  from bwrite_ok [OF this] obtain s' where r: "bwrite i s = Ok s'" "bcache_inv s'" "bio_frame s s'"
    "buf_for s' = buf_for s" "blocked s' = blocked s" "bview s' = bview s" "bdirty s' = bdirty s - {b}"
    "bheld s' = bheld s" "disk s' = (disk s)(b := bview s b)" "disk_hist s' = disk_hist s @ [(b, bview s b)]"
    by blast
  have "cache_ok s'" using r(2) 3(1) bio_frame_simps [OF r(3)] by (simp add: cache_ok_def)
  moreover have "bhold s' = bhold s" using r(4,5) by (simp add: bhold_def fun_eq_iff)
  ultimately show ?case using r by (intro exI [of _ s']) blast
next
  case (4 s b i)
  then have "bcache_inv s" "unlocked s" "buf_for s b i" "blocked s i" by (auto simp: cache_ok_def bhold_def)
  from brelse_ok [OF this 4(3)] obtain s' where r: "brelse i s = Ok s'" "bcache_inv s'" "bio_frame s s'"
    "buf_for s' = buf_for s" "\<forall>j. blocked s' j = (blocked s j \<and> j \<noteq> i)" "bview s' = bview s" "bdirty s' = bdirty s"
    "bheld s' = bheld s - {b}" "disk s' = disk s" "disk_hist s' = disk_hist s"
    by blast
  have "cache_ok s'" using r(2) 4(1) bio_frame_simps [OF r(3)] by (simp add: cache_ok_def)
  moreover have "\<forall>x j. bhold s x j \<and> x \<noteq> b \<longrightarrow> bhold s' x j"
    using r(4,5) 4(2) by (auto simp: bhold_def buf_for_def)
  ultimately show ?case using r by (intro exI [of _ s']) blast
next
  case (5 s b i)
  then show ?case using bview_cached [of s b i] held_step(5) [of s b i] by (simp add: cache_ok_def bhold_def)
next
  case (6 s b)
  then show ?case by (simp add: cache_ok_def bview_clean)
next
  case (7 s b)
  then show ?case by (simp add: cache_ok_def bview_length)
next
  case (8 s s' s'')
  then show ?case by (rule bio_frame_trans)
next
  case (9 s s')
  then show ?case by (simp add: bio_frame_simps)
qed


section \<open>A sample cache\<close>

text \<open>The list as \<open>binit\<close> leaves it, up to the order, with buffer 0 given.\<close>

definition ring_bufs :: "buf \<Rightarrow> buf list" where
  "ring_bufs c = map (\<lambda>i. (if i = 0 then c else buf0)\<lparr>b_next := (if i = NBUF then 0 else i + 1),
     b_prev := (if i = 0 then NBUF else i - 1)\<rparr>) [0..<Suc NBUF]"

lemma ring_nth: "i < Suc NBUF \<Longrightarrow> ring_bufs c ! i = (if i = 0 then c else buf0)\<lparr>b_next := (if i = NBUF then 0 else i + 1),
     b_prev := (if i = 0 then NBUF else i - 1)\<rparr>" "length (ring_bufs c) = Suc NBUF"
  by (simp_all add: ring_bufs_def del: upt_Suc)

lemma linked_upt: "m \<le> n \<Longrightarrow> (\<forall>i. m \<le> i \<and> i < n \<longrightarrow> f i = Suc i \<and> g (Suc i) = i) \<Longrightarrow> linked f g [m..<Suc n]"
proof (induction "n - m" arbitrary: m)
  case (Suc x)
  then have "linked f g [Suc m..<Suc n]" "[m..<Suc n] = m # [Suc m..<Suc n]" "m < n" by (simp_all add: upt_rec)
  moreover have "[Suc m..<Suc n] = Suc m # [Suc (Suc m)..<Suc n]" using \<open>m < n\<close> by (simp add: upt_rec)
  ultimately show ?case using Suc.prems by simp
qed (simp add: upt_rec)

lemma ring_mru: "bufs s = ring_bufs c \<Longrightarrow> mru_list s [0..<NBUF]"
proof -
  assume b: "bufs s = ring_bufs c"
  let ?n = "\<lambda>i. b_next (bufs s ! i)" and ?p = "\<lambda>i. b_prev (bufs s ! i)"
  have f: "?n i = (if i = NBUF then 0 else i + 1)" "?p i = (if i = 0 then NBUF else i - 1)" if "i < Suc NBUF" for i
    using that by (simp_all add: b ring_nth)
  have "linked ?n ?p [0..<Suc NBUF]" by (rule linked_upt) (use f in auto)
  moreover have "?n NBUF = 0" "?p 0 = NBUF" using f by simp_all
  moreover have "[0..<Suc NBUF] = 0 # [1..<NBUF] @ [NBUF]" "[0..<NBUF] = 0 # [1..<NBUF]" by (simp_all add: upt_rec)
  ultimately show ?thesis by (auto simp: mru_list_def)
qed

lemma ring_inv:
  assumes "bufs s = ring_bufs c" "sleeplocks s = (\<lambda>_. \<lparr>sl_locked = False, sl_pid = 0\<rparr>)" "\<forall>b. length (disk s b) = 512"
    "length (b_data c) = 512" "b_refcnt c = 0"
    "b_valid c \<Longrightarrow> b_dev c = 1 \<and> b_blockno c < disksize s \<and> b_dirty c" "b_dirty c \<Longrightarrow> b_valid c"
  shows "bcache_inv s"
proof -
  have "buf_ok s i" if "i < NBUF" for i
    using that assms ring_nth(1) [of i c] by (auto simp: buf_ok_def buf0_def)
  moreover have "b_dev (bufs s ! i) = 1 \<Longrightarrow> i = 0" if "i < NBUF" for i
    using that assms(1) ring_nth(1) [of i c] by (auto simp: buf0_def split: if_splits)
  ultimately show ?thesis using assms(3) ring_mru [OF assms(1)] ring_nth(2) [of c]
    unfolding bcache_inv_def by (metis assms(1))
qed



definition bio_sample :: kernel where
  "bio_sample = kernel0\<lparr>cur := Some 0, disksize := 100, bufs := ring_bufs buf0\<rparr>"


end
