(* ===== verification/Bytes.thy ===== *)
theory Bytes
  imports Prelude
begin

text \<open>
  Little-endian fields in a block of bytes: what the casts of \<open>bp->data\<close> to
  \<open>struct dinode *\<close>, \<open>struct dirent *\<close>, \<open>struct logheader *\<close> and \<open>uint *\<close> amount to.
\<close>

unbundle bit_operations_syntax

definition blit :: "'a list \<Rightarrow> nat \<Rightarrow> 'a list \<Rightarrow> 'a list" where
  "blit d off xs = take off d @ xs @ drop (off + length xs) d"

definition slice :: "'a list \<Rightarrow> nat \<Rightarrow> nat \<Rightarrow> 'a list" where
  "slice d off n = take n (drop off d)"

definition le16 :: "u16 \<Rightarrow> u8 list" where
  "le16 w = [ucast w, ucast (drop_bit 8 w)]"

definition le32 :: "u32 \<Rightarrow> u8 list" where
  "le32 w = [ucast w, ucast (drop_bit 8 w), ucast (drop_bit 16 w), ucast (drop_bit 24 w)]"

definition rd16 :: "u8 list \<Rightarrow> nat \<Rightarrow> u16" where
  "rd16 d off = ucast (d ! off) OR push_bit 8 (ucast (d ! (off + 1)))"

definition rd32 :: "u8 list \<Rightarrow> nat \<Rightarrow> u32" where
  "rd32 d off = ucast (d ! off) OR push_bit 8 (ucast (d ! (off + 1))) OR
     push_bit 16 (ucast (d ! (off + 2))) OR push_bit 24 (ucast (d ! (off + 3)))"

definition wr16 :: "u8 list \<Rightarrow> nat \<Rightarrow> u16 \<Rightarrow> u8 list" where
  "wr16 d off w = blit d off (le16 w)"

definition wr32 :: "u8 list \<Rightarrow> nat \<Rightarrow> u32 \<Rightarrow> u8 list" where
  "wr32 d off w = blit d off (le32 w)"

lemma length_le [simp]: "length (le16 w) = 2" "length (le32 v) = 4"
  by (simp_all add: le16_def le32_def)

lemma length_blit [simp]: "off + length xs \<le> length d \<Longrightarrow> length (blit d off xs) = length d"
  by (simp add: blit_def)

lemma length_slice [simp]: "length (slice d off n) = min n (length d - off)"
  by (simp add: slice_def)

lemma nth_blit:
  "off + length xs \<le> length d \<Longrightarrow> i < length d \<Longrightarrow>
     blit d off xs ! i = (if off \<le> i \<and> i < off + length xs then xs ! (i - off) else d ! i)"
  by (auto simp: blit_def nth_append)

lemma slice_blit: "off + length xs \<le> length d \<Longrightarrow> slice (blit d off xs) off (length xs) = xs"
  by (auto simp: slice_def blit_def)

lemma slice_blit_other:
  assumes "off + length xs \<le> length d" "o' + n \<le> length d" "o' + n \<le> off \<or> off + length xs \<le> o'"
  shows "slice (blit d off xs) o' n = slice d o' n"
  using assms by (intro nth_equalityI) (auto simp: slice_def nth_blit)

lemma length_wr [simp]:
  "off + 2 \<le> length d \<Longrightarrow> length (wr16 d off w) = length d"
  "off + 4 \<le> length d \<Longrightarrow> length (wr32 d off v) = length d"
  by (simp_all add: wr16_def wr32_def)

text \<open>Round trips: a field reads back as written, and other fields keep their values.\<close>

lemma nth_wr16:
  assumes "off + 2 \<le> length d"
  shows "wr16 d off w ! off = ucast w" "wr16 d off w ! (off + 1) = ucast (drop_bit 8 w)"
  using assms by (simp_all add: wr16_def nth_blit le16_def)

lemma nth_wr32:
  assumes "off + 4 \<le> length d"
  shows "wr32 d off w ! off = ucast w" "wr32 d off w ! (off + 1) = ucast (drop_bit 8 w)"
    "wr32 d off w ! (off + 2) = ucast (drop_bit 16 w)" "wr32 d off w ! (off + 3) = ucast (drop_bit 24 w)"
  using assms by (simp_all add: wr32_def nth_blit le32_def)

lemma rd16_wr16 [simp]:
  assumes "off + 2 \<le> length d"
  shows "rd16 (wr16 d off w) off = w"
proof -
  have "ucast (ucast w :: u8) OR push_bit 8 (ucast (ucast (drop_bit 8 w) :: u8)) = (w :: u16)" (is "?l = w")
  proof (rule bit_word_eqI)
    fix n assume "n < LENGTH(16)"
    then consider "n < 8" | "8 \<le> n \<and> n < 16" by fastforce
    then show "bit ?l n = bit w n" by cases (auto simp: bit_simps)
  qed
  then show ?thesis by (simp only: rd16_def nth_wr16 [OF assms])
qed

lemma rd32_wr32 [simp]:
  assumes "off + 4 \<le> length d"
  shows "rd32 (wr32 d off w) off = w"
proof -
  have "ucast (ucast w :: u8) OR push_bit 8 (ucast (ucast (drop_bit 8 w) :: u8)) OR
    push_bit 16 (ucast (ucast (drop_bit 16 w) :: u8)) OR push_bit 24 (ucast (ucast (drop_bit 24 w) :: u8)) = (w :: u32)"
    (is "?l = w")
  proof (rule bit_word_eqI)
    fix n assume "n < LENGTH(32)"
    then consider "n < 8" | "8 \<le> n \<and> n < 16" | "16 \<le> n \<and> n < 24" | "24 \<le> n \<and> n < 32" by fastforce
    then show "bit ?l n = bit w n" by cases (auto simp: bit_simps)
  qed
  then show ?thesis by (simp only: rd32_def nth_wr32 [OF assms])
qed

lemma rd32_blit_other:
  "off + length xs \<le> length d \<Longrightarrow> o' + 4 \<le> length d \<Longrightarrow> o' + 4 \<le> off \<or> off + length xs \<le> o' \<Longrightarrow>
     rd32 (blit d off xs) o' = rd32 d o'"
  by (auto simp: rd32_def nth_blit)

lemma rd16_blit_other:
  "off + length xs \<le> length d \<Longrightarrow> o' + 2 \<le> length d \<Longrightarrow> o' + 2 \<le> off \<or> off + length xs \<le> o' \<Longrightarrow>
     rd16 (blit d off xs) o' = rd16 d o'"
  by (auto simp: rd16_def nth_blit)

lemma rd_wr_other [simp]:
  "off + 4 \<le> length d \<Longrightarrow> o' + 4 \<le> length d \<Longrightarrow> o' + 4 \<le> off \<or> off + 4 \<le> o' \<Longrightarrow>
     rd32 (wr32 d off w) o' = rd32 d o'"
  "off + 2 \<le> length d \<Longrightarrow> o' + 4 \<le> length d \<Longrightarrow> o' + 4 \<le> off \<or> off + 2 \<le> o' \<Longrightarrow>
     rd32 (wr16 d off v) o' = rd32 d o'"
  "off + 4 \<le> length d \<Longrightarrow> o' + 2 \<le> length d \<Longrightarrow> o' + 2 \<le> off \<or> off + 4 \<le> o' \<Longrightarrow>
     rd16 (wr32 d off w) o' = rd16 d o'"
  "off + 2 \<le> length d \<Longrightarrow> o' + 2 \<le> length d \<Longrightarrow> o' + 2 \<le> off \<or> off + 2 \<le> o' \<Longrightarrow>
     rd16 (wr16 d off v) o' = rd16 d o'"
  by (simp_all add: wr16_def wr32_def rd32_blit_other rd16_blit_other)

end
