(* ===== verification/Log.thy ===== *)
theory Log
  imports Bio Bytes
begin

text \<open>
  The redo log (\<open>log.c\<close>). The header block holds the number of logged blocks and their home
  block numbers; \<open>commit\<close> copies the pinned buffers to the log, writes the header, installs
  the blocks at home and clears the header.
\<close>

section \<open>The code\<close>

definition upd_log :: "(log \<Rightarrow> log) \<Rightarrow> kernel \<Rightarrow> kernel" where
  "upd_log f s = s\<lparr>klog := f (klog s)\<rparr>"

definition upd_lh :: "(logheader \<Rightarrow> logheader) \<Rightarrow> kernel \<Rightarrow> kernel" where
  "upd_lh f s = upd_log (\<lambda>l. l\<lparr>log_lh := f (log_lh l)\<rparr>) s"

abbreviation lhn :: "kernel \<Rightarrow> int" where
  "lhn s \<equiv> lh_n (log_lh (klog s))"

text \<open>Read the super block: seven words at the start of block 1.\<close>

definition sb_of :: "u8 list \<Rightarrow> superblock" where
  "sb_of d = \<lparr>sb_size = rd32 d 0, sb_nblocks = rd32 d 4, sb_ninodes = rd32 d 8, sb_nlog = rd32 d 12,
     sb_logstart = rd32 d 16, sb_inodestart = rd32 d 20, sb_bmapstart = rd32 d 24\<rparr>"

definition readsb :: "u32 \<Rightarrow> kernel \<Rightarrow> superblock kres" where
  "readsb dev s =
     rbind (bread dev 1 s) (\<lambda>(bp, s).
     let r = sb_of (b_data (bufs s ! bp)) in
     rbind (brelse bp s) (\<lambda>s. Ok (r, s)))"

text \<open>The loops run \<open>tail\<close> from 0 to \<open>log.lh.n\<close>, read once per round.\<close>

definition install_one :: "int \<Rightarrow> kernel \<Rightarrow> (kernel, kernel) res" where
  "install_one tail s =
     rbind (bread (log_dev (klog s)) (log_start (klog s) + word_of_int tail + 1) s) (\<lambda>(lbuf, s).
     rbind (aget ''lh.block'' (lh_block (log_lh (klog s))) tail) (\<lambda>bn.
     rbind (bread (log_dev (klog s)) bn s) (\<lambda>(dbuf, s).
     rbind (bwrite dbuf (set_data dbuf (b_data (bufs s ! lbuf)) s)) (\<lambda>s.
     rbind (brelse lbuf s) (brelse dbuf)))))"

definition write_log_one :: "int \<Rightarrow> kernel \<Rightarrow> (kernel, kernel) res" where
  "write_log_one tail s =
     rbind (bread (log_dev (klog s)) (log_start (klog s) + word_of_int tail + 1) s) (\<lambda>(tobuf, s).
     rbind (aget ''lh.block'' (lh_block (log_lh (klog s))) tail) (\<lambda>bn.
     rbind (bread (log_dev (klog s)) bn s) (\<lambda>(from, s).
     rbind (bwrite tobuf (set_data tobuf (b_data (bufs s ! from)) s)) (\<lambda>s.
     rbind (brelse from s) (brelse tobuf)))))"

fun for_tail :: "(int \<Rightarrow> kernel \<Rightarrow> (kernel, kernel) res) \<Rightarrow> int list \<Rightarrow> kernel \<Rightarrow> (kernel, kernel) res" where
  "for_tail f [] s = Ok s"
| "for_tail f (t # ts) s = rbind (f t s) (for_tail f ts)"

definition install_trans :: "kernel \<Rightarrow> (kernel, kernel) res" where
  "install_trans s = for_tail install_one [0..lhn s - 1] s"

definition write_log :: "kernel \<Rightarrow> (kernel, kernel) res" where
  "write_log s = for_tail write_log_one [0..lhn s - 1] s"

definition read_head_one :: "u8 list \<Rightarrow> int \<Rightarrow> kernel \<Rightarrow> (kernel, kernel) res" where
  "read_head_one d i s =
     rbind (aset ''lh.block'' (lh_block (log_lh (klog s))) i (rd32 d (4 + 4 * nat i))) (\<lambda>bl.
     Ok (upd_lh (\<lambda>h. h\<lparr>lh_block := bl\<rparr>) s))"

definition read_head :: "kernel \<Rightarrow> (kernel, kernel) res" where
  "read_head s =
     rbind (bread (log_dev (klog s)) (log_start (klog s)) s) (\<lambda>(bp, s).
     let d = b_data (bufs s ! bp);
         s = upd_lh (\<lambda>h. h\<lparr>lh_n := sint (rd32 d 0)\<rparr>) s in
     rbind (for_tail (read_head_one d) [0..lhn s - 1] s) (brelse bp))"

definition write_head_one :: "nat \<Rightarrow> int \<Rightarrow> kernel \<Rightarrow> (kernel, kernel) res" where
  "write_head_one bp i s =
     rbind (aget ''lh.block'' (lh_block (log_lh (klog s))) i) (\<lambda>bn.
     Ok (set_data bp (wr32 (b_data (bufs s ! bp)) (4 + 4 * nat i) bn) s))"

definition write_head :: "kernel \<Rightarrow> (kernel, kernel) res" where
  "write_head s =
     rbind (bread (log_dev (klog s)) (log_start (klog s)) s) (\<lambda>(bp, s).
     let s = set_data bp (wr32 (b_data (bufs s ! bp)) 0 (word_of_int (lhn s))) s in
     rbind (for_tail (write_head_one bp) [0..lhn s - 1] s) (\<lambda>s.
     rbind (bwrite bp s) (brelse bp)))"

definition recover_from_log :: "kernel \<Rightarrow> (kernel, kernel) res" where
  "recover_from_log s =
     rbind (read_head s) (\<lambda>s.
     rbind (install_trans s) (\<lambda>s.
     write_head (upd_lh (\<lambda>h. h\<lparr>lh_n := 0\<rparr>) s)))"

text \<open>\<open>sizeof(struct logheader)\<close> is 124, less than \<open>BSIZE\<close>.\<close>

definition initlog :: "u32 \<Rightarrow> kernel \<Rightarrow> (kernel, kernel) res" where
  "initlog dev s =
     (if 4 + 4 * LOGSIZE \<ge> 512 then Panic ''initlog: too big logheader''
      else
        let s = s\<lparr>locks := (locks s)(L_log := False)\<rparr> in
        rbind (readsb dev s) (\<lambda>(sb, s).
        recover_from_log (upd_log (\<lambda>l. l\<lparr>log_start := sb_logstart sb, log_size := sb_nlog sb,
          log_dev := dev\<rparr>) s)))"

definition begin_op :: "kernel \<Rightarrow> (kernel, kernel) res" where
  "begin_op s =
     rbind (acquire L_log s) (\<lambda>s.
     if log_committing (klog s) then sleep C_log L_log s
     else if lhn s + (log_outstanding (klog s) + 1) * int MAXOPBLOCKS > int LOGSIZE
     then sleep C_log L_log s
     else release L_log (upd_log (\<lambda>l. l\<lparr>log_outstanding := log_outstanding l + 1\<rparr>) s))"

definition commit :: "kernel \<Rightarrow> (kernel, kernel) res" where
  "commit s =
     (if lhn s > 0 then
        rbind (write_log s) (\<lambda>s.
        rbind (write_head s) (\<lambda>s.
        rbind (install_trans s) (\<lambda>s.
        write_head (upd_lh (\<lambda>h. h\<lparr>lh_n := 0\<rparr>) s))))
      else Ok s)"

definition end_op :: "kernel \<Rightarrow> (kernel, kernel) res" where
  "end_op s =
     rbind (acquire L_log s) (\<lambda>s.
     let s = upd_log (\<lambda>l. l\<lparr>log_outstanding := log_outstanding l - 1\<rparr>) s in
     if log_committing (klog s) then Panic ''log.committing''
     else if log_outstanding (klog s) = 0 then
       rbind (release L_log (upd_log (\<lambda>l. l\<lparr>log_committing := True\<rparr>) s)) (\<lambda>s.
       rbind (commit s) (\<lambda>s.
       rbind (acquire L_log s) (\<lambda>s.
       rbind (wakeup C_log (upd_log (\<lambda>l. l\<lparr>log_committing := False\<rparr>) s)) (\<lambda>s.
       release L_log s))))
     else rbind (wakeup C_log s) (\<lambda>s. release L_log s))"

definition log_write :: "nat \<Rightarrow> kernel \<Rightarrow> (kernel, kernel) res" where
  "log_write b s =
     (if lhn s \<ge> int LOGSIZE \<or> lhn s \<ge> sint (log_size (klog s)) - 1
      then Panic ''too big a transaction''
      else if log_outstanding (klog s) < 1 then Panic ''log_write outside of trans''
      else rbind (acquire L_log s) (\<lambda>s.
        let n = nat (lhn s);
            i = (case find_from (\<lambda>i. lh_block (log_lh (klog s)) ! i = b_blockno (bufs s ! b)) 0 n of
                   Some i \<Rightarrow> i | None \<Rightarrow> n) in
        rbind (aset ''lh.block'' (lh_block (log_lh (klog s))) (int i) (b_blockno (bufs s ! b))) (\<lambda>bl.
        let s = upd_lh (\<lambda>h. h\<lparr>lh_block := bl\<rparr>) s;
            s = (if int i = lhn s then upd_lh (\<lambda>h. h\<lparr>lh_n := lh_n h + 1\<rparr>) s else s);
            s = upd_buf b (\<lambda>c. c\<lparr>b_dirty := True\<rparr>) s in
        release L_log s)))"


section \<open>The layout of the log\<close>

text \<open>Block \<open>i\<close> of the log (0 is the header), the blocks of the log, and the blocks of the
  transaction.\<close>

definition logb :: "kernel \<Rightarrow> nat \<Rightarrow> u32" where
  "logb s i = log_start (klog s) + of_nat i"

definition in_log :: "kernel \<Rightarrow> u32 \<Rightarrow> bool" where
  "in_log s b \<longleftrightarrow> (\<exists>i < LOGSIZE. b = logb s i)"

definition pending :: "kernel \<Rightarrow> u32 list" where
  "pending s = take (nat (lhn s)) (lh_block (log_lh (klog s)))"

text \<open>A log of \<open>LOGSIZE\<close> blocks that lies on the disk, with the array in memory of the right size; a
  transaction that fits and has no block inside the log.\<close>

definition log_geo :: "kernel \<Rightarrow> bool" where
  [inv_defs]: "log_geo s \<longleftrightarrow> log_dev (klog s) = 1 \<and> length (lh_block (log_lh (klog s))) = LOGSIZE \<and>
     unat (log_start (klog s)) + LOGSIZE \<le> unat (disksize s)"

definition home :: "kernel \<Rightarrow> u32 \<Rightarrow> bool" where
  "home s b \<longleftrightarrow> b < disksize s \<and> \<not> in_log s b"

definition log_ok :: "kernel \<Rightarrow> bool" where
  [inv_defs]: "log_ok s \<longleftrightarrow> log_geo s \<and> 0 \<le> lhn s \<and> lhn s < int LOGSIZE \<and> (\<forall>b \<in> set (pending s). home s b)"

lemma log_frame:
  assumes "bio_frame s s'"
  shows "log_ok s' = log_ok s" "pending s' = pending s" "logb s' = logb s" "klog s' = klog s" "log_geo s' = log_geo s" "home s' = home s"
  by (simp_all add: log_ok_def log_geo_def home_def pending_def logb_def in_log_def bio_frame_simps [OF assms] fun_eq_iff)

lemma unat_logb: "log_geo s \<Longrightarrow> i < LOGSIZE \<Longrightarrow> unat (logb s i) = unat (log_start (klog s)) + i"
proof -
  assume g: "log_geo s" and i: "i < LOGSIZE"
  have o: "unat (of_nat i :: u32) = i" using i by (simp add: unsigned_of_nat take_bit_eq_mod)
  have "unat (log_start (klog s)) + i < 2 ^ 32"
    using unsigned_less [of "disksize s", where 'a = nat] g i by (simp add: log_geo_def)
  then show ?thesis
    using unat_word_ariths(1) [of "log_start (klog s)" "of_nat i"] by (simp only: o logb_def) simp
qed

lemma logb_inj: "log_geo s \<Longrightarrow> i < LOGSIZE \<Longrightarrow> j < LOGSIZE \<Longrightarrow> logb s i = logb s j \<longleftrightarrow> i = j"
  by (metis add_left_cancel unat_logb)

lemma logb_cap: "log_geo s \<Longrightarrow> i < LOGSIZE \<Longrightarrow> logb s i < disksize s"
  using unat_logb [of s i] by (simp add: word_less_nat_alt log_geo_def)

lemma zero_LOGSIZE: "0 < LOGSIZE"
  by simp

lemma logb_home: "i < LOGSIZE \<Longrightarrow> home s b \<Longrightarrow> logb s i \<noteq> b"
  and home_logb: "i < LOGSIZE \<Longrightarrow> home s b \<Longrightarrow> b \<noteq> logb s i"
  by (auto simp: home_def in_log_def)

lemma log_ok_geo: "log_ok s \<Longrightarrow> log_geo s"
  by (simp add: log_ok_def)

lemma pending_length: "log_ok s \<Longrightarrow> length (pending s) = nat (lhn s)" "log_ok s \<Longrightarrow> length (pending s) < LOGSIZE"
  by (auto simp: pending_def log_ok_def log_geo_def)

lemma pending_home: "log_ok s \<Longrightarrow> i < length (pending s) \<Longrightarrow> home s (pending s ! i)"
  by (simp add: log_ok_def)

lemma pending_aget: "log_ok s \<Longrightarrow> i < length (pending s) \<Longrightarrow> aget w (lh_block (log_lh (klog s))) (int i) = Ok (pending s ! i)"
  by (simp add: pending_def)

lemma logb_tail: "log_start (klog s) + of_nat i + 1 = logb s (Suc i)"
  by (simp add: logb_def algebra_simps)

lemma log_start_logb: "log_start (klog s) = logb s 0"
  by (simp add: logb_def)

lemma for_tail_snoc: "for_tail f (ts @ [t]) s = rbind (for_tail f ts s) (f t)"
proof (induction ts arbitrary: s)
  case Nil
  then show ?case by (cases "f t s") simp_all
next
  case (Cons a ts)
  then have "for_tail f (ts @ [t]) = (\<lambda>s. rbind (for_tail f ts s) (f t))" by auto
  then show ?case by (simp add: rbind_assoc)
qed

lemma tails: "[0..n - 1] = map int [0..<nat n]"
  by (rule nth_equalityI) simp_all

section \<open>Copying to and from the log\<close>

lemma write_log_one_ok:
  assumes "cache_ok s" "bheld s = {}" "log_ok s" "i < length (pending s)" "pending s ! i \<in> bdirty s" "card (bdirty s) < NBUF"
  shows "\<exists>s'. write_log_one (int i) s = Ok s' \<and> bc.wrote s [(logb s (Suc i), bview s (pending s ! i))] s' \<and> bio_frame s s'"
proof -
  let ?a = "logb s (Suc i)" and ?b = "pending s ! i"
  have geo: "log_geo s" and i: "Suc i < LOGSIZE" using assms(3,4) pending_length(2) [OF assms(3)] by (auto simp: log_ok_geo)
  have h: "home s ?b" using pending_home [OF assms(3,4)] .
  obtain k s1 j s2 where r: "bread 1 ?a s = Ok (k, s1)" "bio_frame s s1" "bread 1 ?b s1 = Ok (j, s2)" "cache_ok s2"
    "bio_frame s s2" "bhold s2 ?a k" "bhold s2 ?b j" "bheld s2 = {?a, ?b}" "bview s2 = bview s" "bdirty s2 = bdirty s"
    "disk s2 = disk s" "disk_hist s2 = disk_hist s"
    using bc.read_two [OF assms(1,2) logb_cap [OF geo i] _ logb_home [OF i h] assms(6), of] h assms(5) by (auto simp: home_def)
  obtain s' where c: "rbind (bwrite k (set_data k (b_data (bufs s2 ! j)) s2)) (\<lambda>s. rbind (brelse j s) (brelse k)) = Ok s'"
    "bc.wrote s2 [(?a, bview s2 ?b)] s'" "bio_frame s2 s'"
    using bc.copy_held [OF r(4,7,6)] logb_home [OF i h] r(8,10) assms(5) by (auto simp: insert_commute)
  have "write_log_one (int i) s = Ok s'"
    using r(1,3) c(1) geo
    by (simp add: write_log_one_def pending_aget [OF assms(3,4)] logb_tail log_frame [OF r(2)] log_geo_def)
  moreover have "bc.wrote s [(?a, bview s ?b)] s'" using c(2) r by (simp add: bc.wrote_def)
  ultimately show ?thesis using c(3) bio_frame_trans [OF r(5)] by blast
qed

lemma install_one_ok:
  assumes "cache_ok s" "bheld s = {}" "log_ok s" "i < length (pending s)" "logb s (Suc i) \<notin> bdirty s" "card (bdirty s) < NBUF"
    "pending s ! i \<in> bdirty s \<or> Suc (card (bdirty s)) < NBUF"
  shows "\<exists>s'. install_one (int i) s = Ok s' \<and> bc.wrote s [(pending s ! i, bview s (logb s (Suc i)))] s' \<and> bio_frame s s'"
proof -
  let ?a = "logb s (Suc i)" and ?b = "pending s ! i"
  have geo: "log_geo s" and i: "Suc i < LOGSIZE" using assms(3,4) pending_length(2) [OF assms(3)] by (auto simp: log_ok_geo)
  have h: "home s ?b" using pending_home [OF assms(3,4)] .
  have room: "?b \<in> bdirty s \<or> card (insert ?a (bdirty s)) < NBUF"
    using assms(7) card_insert_le_m1 [of "NBUF - 1" "bdirty s" ?a] by auto
  obtain k s1 j s2 where r: "bread 1 ?a s = Ok (k, s1)" "bio_frame s s1" "bread 1 ?b s1 = Ok (j, s2)" "cache_ok s2"
    "bio_frame s s2" "bhold s2 ?a k" "bhold s2 ?b j" "bheld s2 = {?a, ?b}" "bview s2 = bview s" "bdirty s2 = bdirty s"
    "disk s2 = disk s" "disk_hist s2 = disk_hist s"
    using bc.read_two [OF assms(1,2) logb_cap [OF geo i] _ logb_home [OF i h] assms(6) room] h by (auto simp: home_def)
  have clean: "bview s2 ?a = disk s2 ?a" using bc.clean [OF assms(1,5)] assms(2) r(9,11) by simp
  obtain s' where c: "rbind (bwrite j (set_data j (b_data (bufs s2 ! k)) s2)) (\<lambda>s. rbind (brelse k s) (brelse j)) = Ok s'"
    "bc.wrote s2 [(?b, bview s2 ?a)] s'" "bio_frame s2 s'"
    using bc.copy_held [OF r(4,6,7) logb_home [OF i h] r(8)] clean by auto
  have "install_one (int i) s = Ok s'"
    using r(1,3) c(1) geo
    by (simp add: install_one_def pending_aget [OF assms(3,4)] logb_tail log_frame [OF r(2)] log_geo_def)
  moreover have "bc.wrote s [(?b, bview s ?a)] s'" using c(2) r by (simp add: bc.wrote_def)
  ultimately show ?thesis using c(3) bio_frame_trans [OF r(5)] by blast
qed

lemma for_tail_wrote:
  assumes "cache_ok s" "bheld s = {}"
    and step: "\<And>i t. i < n \<Longrightarrow> bc.wrote s (map w [0..<i]) t \<Longrightarrow> bio_frame s t \<Longrightarrow>
      \<exists>t'. f (int i) t = Ok t' \<and> bc.wrote t [w i] t' \<and> bio_frame t t'"
  shows "k \<le> n \<Longrightarrow> \<exists>t. for_tail f (map int [0..<k]) s = Ok t \<and> bc.wrote s (map w [0..<k]) t \<and> bio_frame s t"
proof (induction k)
  case 0
  then show ?case using assms(1,2) by (simp add: bc.wrote_def)
next
  case (Suc k)
  then obtain t where t: "for_tail f (map int [0..<k]) s = Ok t" "bc.wrote s (map w [0..<k]) t" "bio_frame s t" by auto
  then obtain t' where "f (int k) t = Ok t'" "bc.wrote t [w k] t'" "bio_frame t t'" using step [of k t] Suc.prems by auto
  with t show ?case
    using bc.wrote_trans [of s "map w [0..<k]" t "[w k]" t'] by (auto simp: for_tail_snoc intro: bio_frame_trans)
qed

text \<open>The writes of the three phases.\<close>

definition log_writes :: "kernel \<Rightarrow> (u32 \<times> u8 list) list" where
  "log_writes s = map (\<lambda>i. (logb s (Suc i), bview s (pending s ! i))) [0..<length (pending s)]"

definition home_writes :: "kernel \<Rightarrow> (u32 \<times> u8 list) list" where
  "home_writes s = map (\<lambda>i. (pending s ! i, bview s (logb s (Suc i)))) [0..<length (pending s)]"

lemma log_writes_fst: "fst ` set (log_writes s) = (\<lambda>i. logb s (Suc i)) ` {..<length (pending s)}"
  by (simp add: log_writes_def image_image lessThan_atLeast0)

lemma log_writes_not_home:
  assumes "log_ok s" "home s b"
  shows "b \<notin> fst ` set (log_writes s)"
proof
  assume "b \<in> fst ` set (log_writes s)"
  then obtain i where i: "i < length (pending s)" "b = logb s (Suc i)" by (auto simp: log_writes_fst)
  then have "Suc i < LOGSIZE" using pending_length(2) [OF assms(1)] by simp
  then show False using logb_home [OF _ assms(2)] i(2) by metis
qed

lemma log_writes_not_head: "log_ok s \<Longrightarrow> logb s 0 \<notin> fst ` set (log_writes s)"
  using pending_length(2) [of s] by (auto simp: log_writes_fst logb_inj log_ok_geo)

lemma home_writes_fst: "fst ` set (home_writes s) = set (pending s)"
proof -
  have "map fst (home_writes s) = pending s" by (simp add: home_writes_def comp_def map_nth)
  then show ?thesis by (metis set_map)
qed

lemma write_log_ok:
  assumes "cache_ok s" "bheld s = {}" "log_ok s" "set (pending s) \<subseteq> bdirty s" "card (bdirty s) < NBUF" "finite (bdirty s)"
  shows "\<exists>s'. write_log s = Ok s' \<and> bc.wrote s (log_writes s) s' \<and> bio_frame s s'"
proof -
  let ?w = "\<lambda>i. (logb s (Suc i), bview s (pending s ! i))"
  have "\<exists>t. for_tail write_log_one (map int [0..<length (pending s)]) s = Ok t \<and>
      bc.wrote s (map ?w [0..<length (pending s)]) t \<and> bio_frame s t"
  proof (rule for_tail_wrote [OF assms(1,2) _ order_refl])
    fix i t assume i: "i < length (pending s)" and t: "bc.wrote s (map ?w [0..<i]) t" "bio_frame s t"
    have len: "length (pending s) < LOGSIZE" using pending_length [OF assms(3)] by simp
    have b: "pending s ! i \<notin> fst ` set (map ?w [0..<i])"
    proof
      assume "pending s ! i \<in> fst ` set (map ?w [0..<i])"
      then obtain x where "x < i" "pending s ! i = logb s (Suc x)" by auto
      then show False using logb_home [of "Suc x" s "pending s ! i"] pending_home [OF assms(3) i] i len by simp
    qed
    have "bview t (pending s ! i) = bview s (pending s ! i)" "pending s ! i \<in> bdirty t" "bdirty t \<subseteq> bdirty s"
      using t(1) writes_other [OF b] assms(4) i b by (auto simp: bc.wrote_def)
    moreover have "card (bdirty t) < NBUF" using calculation(3) assms(5,6) by (meson card_mono le_less_trans)
    ultimately show "\<exists>t'. write_log_one (int i) t = Ok t' \<and> bc.wrote t [?w i] t' \<and> bio_frame t t'"
      using write_log_one_ok [of t i] t assms(3) i log_frame [OF t(2)] by (simp add: bc.wrote_def)
  qed
  then show ?thesis by (simp add: write_log_def tails pending_length [OF assms(3)] log_writes_def)
qed

lemma install_trans_ok:
  assumes "cache_ok s" "bheld s = {}" "log_ok s" "\<forall>b \<in> bdirty s. home s b" "card (bdirty s) < NBUF" "finite (bdirty s)"
    "distinct (pending s)" "set (pending s) \<subseteq> bdirty s \<or> bdirty s = {}"
  shows "\<exists>s'. install_trans s = Ok s' \<and> bc.wrote s (home_writes s) s' \<and> bio_frame s s'"
proof -
  let ?w = "\<lambda>i. (pending s ! i, bview s (logb s (Suc i)))"
  have "\<exists>t. for_tail install_one (map int [0..<length (pending s)]) s = Ok t \<and>
      bc.wrote s (map ?w [0..<length (pending s)]) t \<and> bio_frame s t"
  proof (rule for_tail_wrote [OF assms(1,2) _ order_refl])
    fix i t assume i: "i < length (pending s)" and t: "bc.wrote s (map ?w [0..<i]) t" "bio_frame s t"
    have len: "Suc i < LOGSIZE" using i pending_length [OF assms(3)] by simp
    have nb: "logb s (Suc i) \<notin> fst ` set (map ?w [0..<i])"
      using logb_home [OF len] pending_home [OF assms(3)] i by auto
    have "logb s (Suc i) \<notin> bdirty s" using assms(4) logb_home [OF len] by blast
    then have "bview t (logb s (Suc i)) = bview s (logb s (Suc i))" "logb s (Suc i) \<notin> bdirty t" "bdirty t \<subseteq> bdirty s"
      using t(1) writes_other [OF nb] by (auto simp: bc.wrote_def)
    moreover have "card (bdirty t) < NBUF" using calculation(3) assms(5,6) by (meson card_mono le_less_trans)
    moreover have "pending s ! i \<in> bdirty t \<or> Suc (card (bdirty t)) < NBUF"
      using assms(7,8) t(1) i by (auto simp: bc.wrote_def nth_eq_iff_index_eq)
    ultimately show "\<exists>t'. install_one (int i) t = Ok t' \<and> bc.wrote t [?w i] t' \<and> bio_frame t t'"
      using install_one_ok [of t i] t assms(3) i log_frame [OF t(2)] by (simp add: bc.wrote_def)
  qed
  then show ?thesis by (simp add: install_trans_def tails pending_length [OF assms(3)] home_writes_def)
qed


section \<open>The header\<close>

text \<open>The header block after \<open>write_head\<close>, and the transaction a header block describes.\<close>

primrec lh_fill :: "u8 list \<Rightarrow> u32 list \<Rightarrow> nat \<Rightarrow> u8 list" where
  "lh_fill d bs 0 = d"
| "lh_fill d bs (Suc k) = wr32 (lh_fill d bs k) (4 + 4 * k) (bs ! k)"

definition head_bytes :: "u8 list \<Rightarrow> u32 list \<Rightarrow> u8 list" where
  "head_bytes d bs = lh_fill (wr32 d 0 (of_nat (length bs))) bs (length bs)"

definition head_says :: "u8 list \<Rightarrow> u32 list \<Rightarrow> bool" where
  "head_says d bs \<longleftrightarrow> rd32 d 0 = of_nat (length bs) \<and> (\<forall>i < length bs. rd32 d (4 + 4 * i) = bs ! i)"

lemma lh_fill_length: "4 + 4 * k \<le> length d \<Longrightarrow> length (lh_fill d bs k) = length d"
  by (induction k) simp_all

lemma lh_fill_rd:
  "4 + 4 * k \<le> length d \<Longrightarrow> rd32 (lh_fill d bs k) 0 = rd32 d 0 \<and> (\<forall>i < k. rd32 (lh_fill d bs k) (4 + 4 * i) = bs ! i)"
proof (induction k)
  case (Suc k)
  have l: "length (lh_fill d bs k) = length d" using Suc.prems by (intro lh_fill_length) simp
  with Suc have "rd32 (lh_fill d bs (Suc k)) 0 = rd32 d 0" by simp
  moreover have "rd32 (lh_fill d bs (Suc k)) (4 + 4 * i) = bs ! i" if "i < Suc k" for i
  proof (cases "i = k")
    case True
    then show ?thesis using l Suc.prems by simp
  next
    case False
    then have "rd32 (lh_fill d bs (Suc k)) (4 + 4 * i) = rd32 (lh_fill d bs k) (4 + 4 * i)"
      using l Suc.prems that by (auto intro!: rd_wr_other(1))
    then show ?thesis using Suc False that by simp
  qed
  ultimately show ?case by blast
qed simp

lemma lh_fill_take: "k \<le> n \<Longrightarrow> lh_fill d (take n bs) k = lh_fill d bs k"
  by (induction k) simp_all

lemma head_bytes_length: "length d = 512 \<Longrightarrow> length bs < LOGSIZE \<Longrightarrow> length (head_bytes d bs) = 512"
  by (simp add: head_bytes_def lh_fill_length)

lemma head_bytes_says: "length d = 512 \<Longrightarrow> length bs < LOGSIZE \<Longrightarrow> head_says (head_bytes d bs) bs"
  using lh_fill_rd [of "length bs" "wr32 d 0 (of_nat (length bs))" bs] by (simp add: head_bytes_def head_says_def)

lemma set_data_twice [simp]: "set_data i d (set_data i d' s) = set_data i d s"
  by (cases "i < length (bufs s)") (simp_all add: set_data_def upd_buf_def list_update_beyond)

lemma set_data_id: "set_data i (b_data (bufs s ! i)) s = s"
  by (simp add: set_data_def upd_buf_def)

lemma set_data_fields [simp]: "klog (set_data i d s) = klog s" "length (bufs (set_data i d s)) = length (bufs s)"
  "i < length (bufs s) \<Longrightarrow> b_data (bufs (set_data i d s) ! i) = d"
  by (simp_all add: set_data_def upd_buf_def)

lemma write_head_loop:
  assumes "i < length (bufs s)"
  shows "k \<le> length (lh_block (log_lh (klog s))) \<Longrightarrow> for_tail (write_head_one i) (map int [0..<k]) s =
    Ok (set_data i (lh_fill (b_data (bufs s ! i)) (lh_block (log_lh (klog s))) k) s)"
proof (induction k)
  case (Suc k)
  then show ?case using assms by (simp add: for_tail_snoc write_head_one_def)
qed (simp add: set_data_id)

lemma bhold_lt: "cache_ok s \<Longrightarrow> bhold s b i \<Longrightarrow> i < length (bufs s)"
  by (simp add: cache_ok_def bcache_inv_def bhold_def buf_for_def)

lemma write_head_ok:
  assumes "cache_ok s" "bheld s = {}" "log_ok s" "card (bdirty s) < NBUF"
  shows "\<exists>s'. write_head s = Ok s' \<and> bc.wrote s [(logb s 0, head_bytes (bview s (logb s 0)) (pending s))] s' \<and> bio_frame s s'"
proof -
  let ?a = "logb s 0" and ?n = "nat (lhn s)" and ?bl = "lh_block (log_lh (klog s))"
  have geo: "log_geo s" using assms(3) by (rule log_ok_geo)
  obtain i t where t: "bread 1 ?a s = Ok (i, t)" "cache_ok t" "bio_frame s t" "bhold t ?a i" "bheld t = {?a}"
    "bview t = bview s" "bdirty t = bdirty s" "disk t = disk s" "disk_hist t = disk_hist s"
    using bc.read_one [OF assms(1,2) logb_cap [OF geo zero_LOGSIZE] assms(4)] by blast
  have k: "klog t = klog s" using log_frame [OF t(3)] by simp
  have i: "i < length (bufs t)" using bhold_lt [OF t(2,4)] .
  have d: "b_data (bufs t ! i) = bview s ?a" using bc.data [OF t(2,4)] t(6) by simp
  let ?d0 = "wr32 (bview s ?a) 0 (word_of_int (lhn s))"
  have len: "?n < LOGSIZE" "length ?bl = LOGSIZE" "0 \<le> lhn s" using assms(3) geo by (auto simp: log_ok_def log_geo_def)
  have "head_bytes (bview s ?a) (pending s) = lh_fill ?d0 ?bl ?n"
    using len pending_length [OF assms(3)] lh_fill_take [of ?n ?n ?d0 ?bl]
    by (simp add: head_bytes_def pending_def of_nat_nat)
  moreover have "for_tail (write_head_one i) (map int [0..<?n]) (set_data i ?d0 t) = Ok (set_data i (lh_fill ?d0 ?bl ?n) t)"
    using write_head_loop [of i "set_data i ?d0 t" ?n] i k len by simp
  moreover have "length (head_bytes (bview s ?a) (pending s)) = 512"
    using bc.view_length [OF assms(1)] pending_length [OF assms(3)] by (intro head_bytes_length) auto
  ultimately obtain s' where "rbind (bwrite i (set_data i (lh_fill ?d0 ?bl ?n) t)) (brelse i) = Ok s'"
    "bc.wrote t [(?a, head_bytes (bview s ?a) (pending s))] s'" "bio_frame t s'"
    "for_tail (write_head_one i) (map int [0..<?n]) (set_data i ?d0 t) = Ok (set_data i (lh_fill ?d0 ?bl ?n) t)"
    using bc.put_block [OF t(2,4,5)] by metis
  moreover from this have "write_head s = Ok s'"
    using t(1) geo by (simp add: write_head_def log_geo_def log_start_logb k d tails)
  ultimately show ?thesis using t bio_frame_trans [OF t(3)] by (auto simp: bc.wrote_def)
qed

text \<open>A change of the header in memory.\<close>

lemma upd_lh_cache [simp]:
  "bview (upd_lh f s) = bview s" "bdirty (upd_lh f s) = bdirty s" "bheld (upd_lh f s) = bheld s" "disk (upd_lh f s) = disk s"
  "disk_hist (upd_lh f s) = disk_hist s" "bhold (upd_lh f s) = bhold s" "cache_ok (upd_lh f s) = cache_ok s" "bufs (upd_lh f s) = bufs s"
  "logb (upd_lh f s) = logb s" "in_log (upd_lh f s) = in_log s" "home (upd_lh f s) = home s" "disksize (upd_lh f s) = disksize s"
  "log_lh (klog (upd_lh f s)) = f (log_lh (klog s))" "log_dev (klog (upd_lh f s)) = log_dev (klog s)"
  "log_start (klog (upd_lh f s)) = log_start (klog s)"
  by (simp_all add: upd_lh_def upd_log_def bview_def bdirty_def bheld_def bhold_def buf_for_def cache_ok_def bcache_inv_def
    mru_list_def buf_ok_def logb_def in_log_def home_def fun_eq_iff split: option.split)

lemma read_head_loop:
  "k \<le> length (lh_block (log_lh (klog s))) \<Longrightarrow> \<exists>bl. for_tail (read_head_one d) (map int [0..<k]) s =
     Ok (upd_lh (\<lambda>h. h\<lparr>lh_block := bl\<rparr>) s) \<and> length bl = length (lh_block (log_lh (klog s))) \<and> (\<forall>i < k. bl ! i = rd32 d (4 + 4 * i))"
proof (induction k)
  case 0
  have "upd_lh (\<lambda>h. h\<lparr>lh_block := lh_block (log_lh (klog s))\<rparr>) s = s" by (simp add: upd_lh_def upd_log_def)
  then show ?case by (intro exI [of _ "lh_block (log_lh (klog s))"]) simp
next
  case (Suc k)
  then obtain bl where "for_tail (read_head_one d) (map int [0..<k]) s = Ok (upd_lh (\<lambda>h. h\<lparr>lh_block := bl\<rparr>) s)"
    "length bl = length (lh_block (log_lh (klog s)))" "\<forall>i < k. bl ! i = rd32 d (4 + 4 * i)" by auto
  with Suc.prems show ?case
    by (intro exI [of _ "bl[k := rd32 d (4 + 4 * k)]"])
      (auto simp: for_tail_snoc read_head_one_def [of d "int k"] nth_list_update less_Suc_eq upd_lh_def upd_log_def)
qed

lemma read_head_ok:
  assumes "cache_ok s" "bheld s = {}" "log_geo s" "card (bdirty s) < NBUF" "logb s 0 \<notin> bdirty s"
    and "head_says (bview s (logb s 0)) bs" "length bs < LOGSIZE"
  shows "\<exists>s'. read_head s = Ok s' \<and> bc.wrote s [] s' \<and> log_geo s' \<and> pending s' = bs \<and> lhn s' = int (length bs) \<and>
    logb s' = logb s \<and> home s' = home s"
proof -
  let ?a = "logb s 0" and ?d = "bview s (logb s 0)"
  obtain i t where t: "bread 1 ?a s = Ok (i, t)" "cache_ok t" "bio_frame s t" "bhold t ?a i" "bheld t = {?a}"
    "bview t = bview s" "bdirty t = bdirty s" "disk t = disk s" "disk_hist t = disk_hist s"
    using bc.read_one [OF assms(1,2) logb_cap [OF assms(3) zero_LOGSIZE] assms(4)] by blast
  have k: "klog t = klog s" "logb t = logb s" "log_geo t" "home t = home s" using log_frame [OF t(3)] assms(3) by simp_all
  have d: "b_data (bufs t ! i) = ?d" using bc.data [OF t(2,4)] t(6) by simp
  have n: "sint (rd32 ?d 0) = int (length bs)"
    using assms(6,7) by (simp add: head_says_def sint_uint unsigned_of_nat take_bit_eq_mod signed_take_bit_int_eq_self)
  define u where "u = upd_lh (\<lambda>h. h\<lparr>lh_n := int (length bs)\<rparr>) t"
  have "length bs \<le> length (lh_block (log_lh (klog u)))" using assms(3,7) k by (simp add: u_def log_geo_def)
  then obtain bl where l: "for_tail (read_head_one ?d) (map int [0..<length bs]) u = Ok (upd_lh (\<lambda>h. h\<lparr>lh_block := bl\<rparr>) u)"
    "length bl = length (lh_block (log_lh (klog u)))" "\<forall>j < length bs. bl ! j = rd32 ?d (4 + 4 * j)"
    using read_head_loop by blast
  define v where "v = upd_lh (\<lambda>h. h\<lparr>lh_block := bl\<rparr>) u"
  have v: "cache_ok v" "bhold v ?a i" "bview v ?a = disk v ?a" "bheld v = {?a}" "bview v = bview s" "disk v = disk s"
    "disk_hist v = disk_hist s" "bdirty v = bdirty s"
    using t bc.clean [OF assms(1,5)] assms(2) by (simp_all add: v_def u_def)
  then obtain w where w: "brelse i v = Ok w" "cache_ok w" "bio_frame v w" "bview w = bview v" "bdirty w = bdirty v"
    "bheld w = {}" "disk w = disk v" "disk_hist w = disk_hist v"
    using bc.rel [OF v(1,2)] by auto
  have "take (length bs) bl = bs"
    using assms(6) l(2,3) \<open>length bs \<le> length (lh_block (log_lh (klog u)))\<close> by (intro nth_equalityI) (auto simp: head_says_def)
  then have "pending v = bs" "lhn v = int (length bs)" "log_geo v" "logb v = logb s" "home v = home s"
    using k l(2) by (simp_all add: pending_def v_def u_def log_geo_def)
  moreover have "read_head s = Ok w"
    using t(1) assms(3) w(1) l(1) by (simp add: read_head_def log_geo_def log_start_logb d n tails u_def v_def Let_def)
  ultimately show ?thesis using w v log_frame [OF w(3)] by (auto simp: bc.wrote_def)
qed


section \<open>Commit and recovery\<close>

lemma writes_map:
  "inj_on f {..<n} \<Longrightarrow> i < n \<Longrightarrow> writes (map (\<lambda>i. (f i, x i)) [0..<n]) d (f i) = x i"
proof (induction n)
  case (Suc n)
  have "inj_on f {..<n}" using Suc.prems(1) by (rule inj_on_subset) auto
  moreover have "i \<noteq> n \<Longrightarrow> f i \<noteq> f n" using Suc.prems by (auto dest: inj_onD)
  ultimately show ?case using Suc.IH Suc.prems(2) by (cases "i = n") (simp_all add: writes_append)
qed simp

lemma logb_Suc_inj: "log_geo s \<Longrightarrow> n < LOGSIZE \<Longrightarrow> inj_on (\<lambda>i. logb s (Suc i)) {..<n}"
  by (rule inj_onI) (metis Suc_inject Suc_lessI lessThan_iff less_trans_Suc logb_inj not_less_eq)

text \<open>Ready to commit: the cache is in order and no buffer is held, the pinned blocks are those of
  the transaction, and the log on disk is empty.\<close>

definition log_ready :: "kernel \<Rightarrow> bool" where
  "log_ready s \<longleftrightarrow> cache_ok s \<and> bheld s = {} \<and> log_ok s \<and> bdirty s = set (pending s) \<and> distinct (pending s) \<and>
     head_says (disk s (logb s 0)) []"

text \<open>The machine has been started again: the disk is \<open>d\<close>, the cache is empty of changes, and the
  super block says the same.\<close>

definition rebooted :: "kernel \<Rightarrow> (u32 \<Rightarrow> u8 list) \<Rightarrow> kernel \<Rightarrow> bool" where
  "rebooted s d t \<longleftrightarrow> cache_ok t \<and> bheld t = {} \<and> bdirty t = {} \<and> disk t = d \<and> log_geo t \<and>
     log_start (klog t) = log_start (klog s) \<and> disksize t = disksize s"

definition commit_writes :: "kernel \<Rightarrow> (u32 \<times> u8 list) list" where
  "commit_writes s =
     (let h = head_bytes (bview s (logb s 0)) (pending s) in
      if pending s = [] then []
      else log_writes s @ [(logb s 0, h)] @ map (\<lambda>b. (b, bview s b)) (pending s) @ [(logb s 0, head_bytes h [])])"

lemma log_ok_reset: "log_geo s \<Longrightarrow> log_ok (upd_lh (\<lambda>h. h\<lparr>lh_n := 0\<rparr>) s)" "pending (upd_lh (\<lambda>h. h\<lparr>lh_n := 0\<rparr>) s) = []"
  by (simp_all add: log_ok_def log_geo_def pending_def)

lemma wrote_upd_lh: "bc.wrote s ws (upd_lh f t) = bc.wrote s ws t" "bc.wrote (upd_lh f s) ws t = bc.wrote s ws t"
  by (simp_all add: bc.wrote_def)

lemma recover_ok:
  assumes "cache_ok t" "bheld t = {}" "bdirty t = {}" "log_geo t" "head_says (disk t (logb t 0)) bs"
    "length bs < LOGSIZE" "distinct bs" "\<forall>b \<in> set bs. home t b"
  shows "\<exists>t' h. recover_from_log t = Ok t' \<and>
    disk t' = writes (map (\<lambda>i. (bs ! i, disk t (logb t (Suc i)))) [0..<length bs] @ [(logb t 0, h)]) (disk t)"
proof -
  have v: "bview t = disk t" using bc.clean [OF assms(1)] assms(2,3) by auto
  obtain t1 where t1: "read_head t = Ok t1" "bc.wrote t [] t1" "log_geo t1" "pending t1 = bs" "lhn t1 = int (length bs)"
    "logb t1 = logb t" "home t1 = home t"
    using read_head_ok [OF assms(1,2,4) _ _ _ assms(6)] assms(3,5) v by auto
  then have a: "cache_ok t1" "bheld t1 = {}" "bdirty t1 = {}" "bview t1 = disk t" "disk t1 = disk t" "log_ok t1"
    using v assms(3,6,8) by (simp_all add: bc.wrote_def log_ok_def)
  obtain t2 where t2: "install_trans t1 = Ok t2" "bc.wrote t1 (home_writes t1) t2" "bio_frame t1 t2"
    using install_trans_ok [OF a(1,2,6)] a(3) assms(7) t1(4) by auto
  let ?t3 = "upd_lh (\<lambda>h. h\<lparr>lh_n := 0\<rparr>) t2"
  have geo: "log_geo t2" "logb t2 = logb t" using log_frame [OF t2(3)] t1 by simp_all
  have b: "cache_ok ?t3" "bheld ?t3 = {}" "card (bdirty ?t3) < NBUF" using t2(2) a(3) by (simp_all add: bc.wrote_def)
  obtain t' where t': "write_head ?t3 = Ok t'"
    "bc.wrote ?t3 [(logb t 0, head_bytes (bview t2 (logb t 0)) [])] t'"
    using write_head_ok [OF b(1,2) log_ok_reset(1) [OF geo(1)] b(3)] geo by (auto simp: log_ok_reset)
  have "disk t' = writes (home_writes t1 @ [(logb t 0, head_bytes (bview t2 (logb t 0)) [])]) (disk t)"
    using t'(2) t2(2) a(5) by (simp add: bc.wrote_def writes_append)
  moreover have "home_writes t1 = map (\<lambda>i. (bs ! i, disk t (logb t (Suc i)))) [0..<length bs]"
    using t1 a by (simp add: home_writes_def)
  ultimately show ?thesis using t1(1) t2(1) t'(1) by (auto simp: recover_from_log_def)
qed

lemma commit_ok:
  assumes "log_ready s"
  shows "\<exists>s'. commit s = Ok s' \<and> bc.wrote s (commit_writes s) s'"
proof (cases "pending s = []")
  case True
  then have "commit s = Ok s"
    using assms pending_length(1) [of s] by (simp add: commit_def log_ready_def)
  with True assms show ?thesis by (simp add: commit_writes_def bc.wrote_def log_ready_def)
next
  case False
  have r: "cache_ok s" "bheld s = {}" "log_ok s" "bdirty s = set (pending s)" "distinct (pending s)"
    using assms by (simp_all add: log_ready_def)
  have geo: "log_geo s" and n: "length (pending s) < LOGSIZE" "lhn s > 0"
    using r(3) False pending_length [OF r(3)] length_greater_0_conv [of "pending s"] by (auto simp: log_ok_geo)
  have card: "card (bdirty s) < NBUF" "finite (bdirty s)" using n(1) r(4,5) by (simp_all add: distinct_card)
  obtain s1 where s1: "write_log s = Ok s1" "bc.wrote s (log_writes s) s1" "bio_frame s s1"
    using write_log_ok [OF r(1-3) _ card] r(4) by auto
  have not_log: "set (pending s) \<inter> fst ` set (log_writes s) = {}"
    using log_writes_not_home [OF r(3)] r(3) by (auto simp: log_ok_def)
  then have d1: "bdirty s1 = bdirty s" "cache_ok s1" "bheld s1 = {}" using s1(2) r(4) by (auto simp: bc.wrote_def)
  have h0: "bview s1 (logb s 0) = bview s (logb s 0)"
    using s1(2) log_writes_not_head [OF r(3)] by (simp add: bc.wrote_def writes_other)
  let ?h = "head_bytes (bview s (logb s 0)) (pending s)"
  obtain s2 where s2: "write_head s1 = Ok s2" "bc.wrote s1 [(logb s 0, ?h)] s2" "bio_frame s1 s2"
    using write_head_ok [of s1] d1 card log_frame [OF s1(3)] r(3) h0 by auto
  note f2 = log_frame [OF bio_frame_trans [OF s1(3) s2(3)]]
  have nh: "logb s 0 \<notin> set (pending s)" using r(3) logb_home [OF zero_LOGSIZE] by (auto simp: log_ok_def)
  then have d2: "bdirty s2 = bdirty s" "cache_ok s2" "bheld s2 = {}" using s2(2) d1 r(4) by (auto simp: bc.wrote_def)
  have x: "bview s2 (logb s (Suc i)) = bview s (pending s ! i)" if "i < length (pending s)" for i
    using writes_map [OF logb_Suc_inj [OF geo n(1)] that] s1(2) s2(2) that n(1) logb_inj [OF geo, of 0 "Suc i"]
    by (simp add: bc.wrote_def log_writes_def)
  have hw: "home_writes s2 = map (\<lambda>b. (b, bview s b)) (pending s)"
    using x by (intro nth_equalityI) (simp_all add: home_writes_def f2)
  obtain s3 where s3: "install_trans s2 = Ok s3" "bc.wrote s2 (map (\<lambda>b. (b, bview s b)) (pending s)) s3" "bio_frame s2 s3"
    using install_trans_ok [of s2] d2 card f2 r(3-5) unfolding hw by (auto simp: log_ok_def)
  let ?s4 = "upd_lh (\<lambda>h. h\<lparr>lh_n := 0\<rparr>) s3"
  have f3: "log_geo s3" "logb s3 = logb s" using log_frame [OF s3(3)] f2 geo by simp_all
  have "bview s3 (logb s 0) = ?h"
    using s3(2) s2(2) nh writes_other [of "logb s 0" "map (\<lambda>b. (b, bview s b)) (pending s)"]
    by (simp add: bc.wrote_def image_image)
  moreover have "cache_ok ?s4" "bheld ?s4 = {}" "card (bdirty ?s4) < NBUF"
    using s3(2) d2 r(4) by (simp_all add: bc.wrote_def image_image)
  ultimately obtain s' where s': "write_head ?s4 = Ok s'" "bc.wrote s3 [(logb s 0, head_bytes ?h [])] s'"
    using write_head_ok [of ?s4] log_ok_reset(1) [OF f3(1)] log_ok_reset(2) f3 by (auto simp: wrote_upd_lh)
  have "bc.wrote s (commit_writes s) s'"
    using bc.wrote_trans [OF s1(2) bc.wrote_trans [OF s2(2) bc.wrote_trans [OF s3(2) s'(2)]]] False
    by (simp add: commit_writes_def Let_def)
  then show ?thesis using n(2) s1(1) s2(1) s3(1) s'(1) by (simp add: commit_def)
qed




lemma writes_view: "writes (map (\<lambda>b. (b, v b)) bs) e x = (if x \<in> set bs then v x else e x)"
  by (induction bs arbitrary: e) auto

text \<open>What is on the disk after the first \<open>k\<close> writes of a commit: the transaction its header
  describes, carried out, gives the old blocks or the new ones.\<close>

lemma crash_disk:
  assumes "log_ready s" "k \<le> length (commit_writes s)"
  defines "d \<equiv> writes (take k (commit_writes s)) (disk s)"
  shows "\<exists>bs. head_says (d (logb s 0)) bs \<and> length bs < LOGSIZE \<and> distinct bs \<and> set bs \<subseteq> set (pending s) \<and>
    (\<forall>b. home s b \<longrightarrow> writes (map (\<lambda>i. (bs ! i, d (logb s (Suc i)))) [0..<length bs]) d b =
       (if k \<le> length (pending s) then disk s b else bview s b))"
proof -
  let ?n = "length (pending s)" and ?B = "map (\<lambda>b. (b, bview s b)) (pending s)"
  let ?h = "head_bytes (bview s (logb s 0)) (pending s)"
  let ?e = "(writes (log_writes s) (disk s))(logb s 0 := ?h)"
  have r: "cache_ok s" "bheld s = {}" "log_ok s" "bdirty s = set (pending s)" "distinct (pending s)"
    "head_says (disk s (logb s 0)) []"
    using assms(1) by (simp_all add: log_ready_def)
  have geo: "log_geo s" and n: "?n < LOGSIZE" using r(3) pending_length [OF r(3)] by (auto simp: log_ok_geo)
  have la: "length (log_writes s) = ?n" by (simp add: log_writes_def)
  have sub: "fst ` set (take j (log_writes s)) \<subseteq> fst ` set (log_writes s)" for j by (meson image_mono set_take_subset)
  have logB: "logb s i \<notin> fst ` set (take j ?B)" if "i < LOGSIZE" for i j
    using r(3) logb_home [OF that] by (auto simp: log_ok_def take_map dest!: in_set_takeD)
  have h512: "length ?h = 512" using bc.view_length [OF r(1)] n by (rule head_bytes_length)
  have homeB: "writes ?B (writes (take j ?B) ?e) b = bview s b" if "home s b" for b j
  proof (cases "b \<in> set (pending s)")
    case False
    then have "b \<notin> fst ` set (take j ?B)" by (auto simp: take_map dest: in_set_takeD)
    then have "writes (take j ?B) ?e b = disk s b"
      using log_writes_not_home [OF r(3) that] home_logb [OF zero_LOGSIZE that] by (simp add: writes_other)
    then show ?thesis using False bc.clean [OF r(1), of b] r(2,4) by (simp add: writes_view)
  qed (simp add: writes_view)
  have len: "length (commit_writes s) = (if pending s = [] then 0 else Suc (Suc (?n + ?n)))"
    by (simp add: commit_writes_def Let_def la)
  consider (old) "k \<le> ?n" | (mid) j where "pending s \<noteq> []" "k = Suc ?n + j" "j \<le> ?n" | (new) "pending s \<noteq> []" "k = Suc (Suc (?n + ?n))"
  proof (cases "k \<le> ?n")
    case False
    then obtain j where "k = Suc ?n + j" by (metis less_iff_Suc_add linorder_not_le add_Suc)
    moreover have "pending s \<noteq> []" "k \<le> Suc (Suc (?n + ?n))" using False assms(2) len by (auto split: if_splits)
    ultimately show ?thesis using that(2,3) by (cases "j \<le> ?n") auto
  qed (use that in blast)
  then show ?thesis
  proof cases
    case old
    then have d: "d = writes (take k (log_writes s)) (disk s)" by (simp add: d_def commit_writes_def Let_def la log_writes_def)
    have "d (logb s 0) = disk s (logb s 0)"
      unfolding d using log_writes_not_head [OF r(3)] sub [of k] by (intro writes_other) blast
    moreover have "d b = disk s b" if "home s b" for b
      unfolding d using log_writes_not_home [OF r(3) that] sub [of k] by (intro writes_other) blast
    ultimately show ?thesis using r(6) old n by (intro exI [of _ "[]"]) simp
  next
    case mid
    then have d: "d = writes (take j ?B) ?e" by (simp add: d_def commit_writes_def Let_def la writes_append)
    have "d (logb s 0) = ?h" using writes_other [OF logB [OF zero_LOGSIZE]] by (simp add: d)
    then have says: "head_says (d (logb s 0)) (pending s)" using head_bytes_says [OF bc.view_length [OF r(1)] n] by simp
    have "d (logb s (Suc i)) = bview s (pending s ! i)" if "i < ?n" for i
      using writes_map [OF logb_Suc_inj [OF geo n] that] that n logb_inj [OF geo, of "Suc i" 0]
        writes_other [OF logB [of "Suc i"]]
      by (simp add: d log_writes_def)
    then have "map (\<lambda>i. (pending s ! i, d (logb s (Suc i)))) [0..<?n] = ?B" by (intro nth_equalityI) simp_all
    then show ?thesis using says n r(5) homeB [of _ j] mid(2) d by (intro exI [of _ "pending s"]) simp
  next
    case new
    then have d: "d = (writes ?B ?e)(logb s 0 := head_bytes ?h [])"
      by (simp add: d_def commit_writes_def Let_def la writes_append)
    have "head_says (d (logb s 0)) []" using head_bytes_says [OF h512, of "[]"] by (simp add: d)
    moreover have "d b = bview s b" if "home s b" for b
      using homeB [OF that, of 0] home_logb [OF zero_LOGSIZE that] by (simp add: d)
    ultimately show ?thesis using new by (intro exI [of _ "[]"]) simp
  qed
qed

lemma home_commit:
  assumes "log_ready s" "home s b"
  shows "writes (commit_writes s) (bview s) b = bview s b"
  using log_writes_not_home [OF _ assms(2)] home_logb [OF zero_LOGSIZE assms(2)] assms(1)
  by (simp add: commit_writes_def Let_def writes_append writes_view writes_other log_ready_def)

text \<open>C2 [commit_crash_atomic]: a commit ends, and puts the blocks of the transaction in their places.
  If the machine stops after any number \<open>k\<close> of the disk writes that \<open>commit\<close> performs, and
  \<open>recover_from_log\<close> runs on what is then on the disk, then recovery ends, and the blocks outside the log are
  all as before the commit (when \<open>k\<close> is at most the number of blocks of the transaction, that is, before the
  header is written) or all as after it.\<close>

theorem commit_crash_atomic:
  assumes "log_ready s"
  shows "\<exists>s' ws. commit s = Ok s' \<and> disk_hist s' = disk_hist s @ ws \<and> disk s' = writes ws (disk s) \<and>
    (\<forall>b. home s b \<longrightarrow> disk s' b = bview s b) \<and>
    (\<forall>k t. k \<le> length ws \<and> rebooted s (writes (take k ws) (disk s)) t \<longrightarrow>
      (\<exists>t'. recover_from_log t = Ok t' \<and>
        (\<forall>b. home s b \<longrightarrow> disk t' b = (if k \<le> length (pending s) then disk s b else bview s b))))"
proof -
  obtain s' where s': "commit s = Ok s'" "bc.wrote s (commit_writes s) s'" using commit_ok [OF assms] by blast
  have "bview s' = disk s'" "bdirty s' = {}"
  proof -
    have "set (pending s) \<subseteq> fst ` set (commit_writes s)"
      by (auto simp: commit_writes_def Let_def image_Un image_image)
    then show "bdirty s' = {}" using s'(2) assms by (auto simp: bc.wrote_def log_ready_def)
    then show "bview s' = disk s'" using bc.clean [of s'] s'(2) by (auto simp: bc.wrote_def)
  qed
  have "disk s' b = bview s b" if "home s b" for b
    using home_commit [OF assms that] s'(2) \<open>bview s' = disk s'\<close> by (simp add: bc.wrote_def)
  moreover have "\<exists>t'. recover_from_log t = Ok t' \<and>
      (\<forall>b. home s b \<longrightarrow> disk t' b = (if k \<le> length (pending s) then disk s b else bview s b))"
    if k: "k \<le> length (commit_writes s)" and t: "rebooted s (writes (take k (commit_writes s)) (disk s)) t" for k t
  proof -
    have e: "logb t = logb s" "home t = home s"
      using t by (simp_all add: rebooted_def logb_def home_def in_log_def fun_eq_iff)
    obtain bs where bs: "head_says (disk t (logb s 0)) bs" "length bs < LOGSIZE" "distinct bs" "set bs \<subseteq> set (pending s)"
      "\<forall>b. home s b \<longrightarrow> writes (map (\<lambda>i. (bs ! i, disk t (logb s (Suc i)))) [0..<length bs]) (disk t) b =
         (if k \<le> length (pending s) then disk s b else bview s b)"
      using crash_disk [OF assms k] t by (auto simp: rebooted_def)
    have "\<forall>b \<in> set bs. home t b" using bs(4) assms e by (auto simp: log_ready_def log_ok_def)
    then obtain t' h where t': "recover_from_log t = Ok t'"
      "disk t' = writes (map (\<lambda>i. (bs ! i, disk t (logb s (Suc i)))) [0..<length bs] @ [(logb s 0, h)]) (disk t)"
      using recover_ok [of t bs] t bs(1-3) e by (auto simp: rebooted_def)
    have "disk t' b = (if k \<le> length (pending s) then disk s b else bview s b)" if "home s b" for b
      using t'(2) bs(5) that home_logb [OF zero_LOGSIZE that] by (simp add: writes_append)
    with t'(1) show ?thesis by blast
  qed
  ultimately show ?thesis using s' by (intro exI [of _ s'] exI [of _ "commit_writes s"]) (simp add: bc.wrote_def)
qed


text \<open>A transaction of one block, 40, on a disk of 100 blocks whose log starts at block 2.\<close>

definition log_sample :: "buf \<Rightarrow> kernel" where
  "log_sample c = kernel0\<lparr>cur := Some 0, disksize := 100, bufs := ring_bufs c,
     klog := \<lparr>log_start = 2, log_size = 30, log_outstanding = 0, log_committing = True, log_dev = 1,
       log_lh = \<lparr>lh_n = 1, lh_block = 40 # replicate 29 0\<rparr>\<rparr>\<rparr>"

definition changed :: buf where
  "changed = buf0\<lparr>b_valid := True, b_dirty := True, b_dev := 1, b_blockno := 40, b_data := replicate 512 7\<rparr>"

lemma sample_cache: "cache_ok (log_sample buf0)" "cache_ok (log_sample changed)"
  by (auto simp: cache_ok_def unlocked_def log_sample_def kernel0_def changed_def buf0_def intro!: ring_inv)

lemma sample_for: "buf_for (log_sample c) b i \<longleftrightarrow> i = 0 \<and> b_dev c = 1 \<and> b_blockno c = b"
  by (auto simp: buf_for_def log_sample_def ring_nth buf0_def split: if_splits)

lemma sample_log: "log_geo (log_sample c)" "pending (log_sample c) = [40]" "bheld (log_sample c) = {}"
  "home (log_sample c) 40" "bdirty (log_sample changed) = {40}" "bdirty (log_sample buf0) = {}"
  "disk (log_sample c) b = replicate 512 0" "log_ok (log_sample c)"
proof -
  show g: "log_geo (log_sample c)" "pending (log_sample c) = [40]" "bheld (log_sample c) = {}"
    "disk (log_sample c) b = replicate 512 0"
    by (simp_all add: log_geo_def log_sample_def pending_def bheld_def kernel0_def)
  show "bdirty (log_sample changed) = {40}" "bdirty (log_sample buf0) = {}"
    by (auto simp: bdirty_def sample_for changed_def buf0_def) (auto simp: log_sample_def ring_nth)
  have "unat (logb (log_sample c) i) \<noteq> unat (40 :: u32)" if "i < LOGSIZE" for i
    using unat_logb [OF g(1) that] that by (simp add: log_sample_def)
  then have "\<not> in_log (log_sample c) 40" unfolding in_log_def by metis
  then show h: "home (log_sample c) 40" by (simp add: home_def) (simp add: log_sample_def)
  show "log_ok (log_sample c)" using g h by (simp add: log_ok_def) (simp add: log_sample_def)
qed

theorem commit_crash_atomic_witness:
  "\<exists>s' ws. commit (log_sample changed) = Ok s' \<and> disk s' 40 = replicate 512 7 \<and>
    (\<exists>t'. recover_from_log (log_sample buf0) = Ok t' \<and> disk t' 40 = replicate 512 0)"
proof -
  have "rd32 (replicate 512 0) 0 = 0" by (simp add: rd32_def)
  then have ready: "log_ready (log_sample changed)"
    by (simp add: log_ready_def sample_cache sample_log head_says_def)
  have v: "bview (log_sample changed) 40 = replicate 512 7"
    using bview_cached [of "log_sample changed" 40 0] sample_cache(2)
    by (simp add: cache_ok_def sample_for changed_def) (simp add: log_sample_def ring_nth)
  have "rebooted (log_sample changed) (disk (log_sample changed)) (log_sample buf0)"
    by (simp add: rebooted_def sample_cache sample_log fun_eq_iff) (simp add: log_sample_def)
  then show ?thesis
    using commit_crash_atomic [OF ready] sample_log(4) [of changed] v sample_log(7) [of changed 40]
    by (metis (no_types, lifting) bot_nat_0.extremum take_0 writes_simps(1))
qed

end
