(* ===== verification/Inode.thy ===== *)
theory Inode
  imports Log
begin

text \<open>
  Disk blocks and inodes (\<open>fs.c\<close>, from \<open>bzero\<close> to \<open>stati\<close>): the free-block bitmap, inode
  allocation and the inode cache, the map from file blocks to disk blocks, truncation. An
  \<open>inode\<close> of the cache is named by its index in \<open>icache\<close>; \<open>dinode\<close> is the on-disk inode.
\<close>

section \<open>Constants and on-disk inodes\<close>

definition BSIZE :: nat where [simp, const_defs]: "BSIZE = 512"
definition NDIRECT :: nat where [simp, const_defs]: "NDIRECT = 12"
definition NINDIRECT :: nat where [simp, const_defs]: "NINDIRECT = 128"
definition MAXFILE :: nat where [simp, const_defs]: "MAXFILE = 140"
definition IPB :: nat where [simp, const_defs]: "IPB = 8"
definition BPB :: nat where [simp, const_defs]: "BPB = 4096"
definition ROOTINO :: u32 where [simp, const_defs]: "ROOTINO = 1"
definition T_DIR :: int where [simp, const_defs]: "T_DIR = 1"
definition T_FILE :: int where [simp, const_defs]: "T_FILE = 2"
definition T_DEV :: int where [simp, const_defs]: "T_DEV = 3"

definition IBLOCK :: "u32 \<Rightarrow> superblock \<Rightarrow> u32" where
  "IBLOCK i x = i div 8 + sb_inodestart x"

definition BBLOCK :: "u32 \<Rightarrow> superblock \<Rightarrow> u32" where
  "BBLOCK b x = b div 4096 + sb_bmapstart x"

record dinode =
  di_type :: u16
  di_major :: u16
  di_minor :: u16
  di_nlink :: u16
  di_size :: u32
  di_addrs :: "u32 list"

definition get_dinode :: "u8 list \<Rightarrow> nat \<Rightarrow> dinode" where
  "get_dinode d off = \<lparr>di_type = rd16 d off, di_major = rd16 d (off + 2), di_minor = rd16 d (off + 4),
     di_nlink = rd16 d (off + 6), di_size = rd32 d (off + 8),
     di_addrs = map (\<lambda>i. rd32 d (off + 12 + 4 * i)) [0..<13]\<rparr>"

definition dinode_bytes :: "dinode \<Rightarrow> u8 list" where
  "dinode_bytes x = le16 (di_type x) @ le16 (di_major x) @ le16 (di_minor x) @ le16 (di_nlink x) @
     le32 (di_size x) @ concat (map le32 (di_addrs x))"

definition put_dinode :: "u8 list \<Rightarrow> nat \<Rightarrow> dinode \<Rightarrow> u8 list" where
  "put_dinode d off x = blit d off (dinode_bytes x)"

definition dinode_off :: "u32 \<Rightarrow> nat" where
  "dinode_off inum = 64 * (unat inum mod IPB)"

definition upd_inode :: "nat \<Rightarrow> (inode \<Rightarrow> inode) \<Rightarrow> kernel \<Rightarrow> kernel" where
  "upd_inode i f s = s\<lparr>icache := (icache s)[i := f (icache s ! i)]\<rparr>"

section \<open>Blocks\<close>

definition bzero :: "u32 \<Rightarrow> u32 \<Rightarrow> kernel \<Rightarrow> (kernel, kernel) res" where
  "bzero dev bno s =
     rbind (bread dev bno s) (\<lambda>(bp, s).
     rbind (log_write bp (set_data bp (replicate BSIZE 0) s)) (brelse bp))"

text \<open>Bit \<open>bi\<close> of a bitmap block.\<close>

definition bitmap_get :: "u8 list \<Rightarrow> nat \<Rightarrow> bool" where
  "bitmap_get d bi \<longleftrightarrow> bit (d ! (bi div 8)) (bi mod 8)"

definition bitmap_set :: "u8 list \<Rightarrow> nat \<Rightarrow> u8 list" where
  "bitmap_set d bi = d[bi div 8 := d ! (bi div 8) OR push_bit (bi mod 8) 1]"

definition bitmap_clear :: "u8 list \<Rightarrow> nat \<Rightarrow> u8 list" where
  "bitmap_clear d bi = d[bi div 8 := d ! (bi div 8) AND NOT (push_bit (bi mod 8) 1)]"

function balloc_from :: "nat \<Rightarrow> u32 \<Rightarrow> nat \<Rightarrow> kernel \<Rightarrow> u32 kres" where
  "balloc_from sbsize dev b s =
     (if b < sbsize then
        rbind (bread dev (BBLOCK (of_nat b) (sb s)) s) (\<lambda>(bp, s).
        let d = b_data (bufs s ! bp) in
        case find_from (\<lambda>bi. \<not> bitmap_get d bi) 0 (min BPB (sbsize - b)) of
          Some bi \<Rightarrow>
            rbind (log_write bp (set_data bp (bitmap_set d bi) s)) (\<lambda>s.
            rbind (brelse bp s) (\<lambda>s.
            rbind (bzero dev (of_nat (b + bi)) s) (\<lambda>s.
            Ok (of_nat (b + bi), s))))
        | None \<Rightarrow> rbind (brelse bp s) (\<lambda>s. balloc_from sbsize dev (b + BPB) s))
      else Panic ''balloc: out of blocks'')"
  by pat_completeness auto
termination by (relation "measure (\<lambda>(sbsize, _, b, _). sbsize - b)") auto

declare balloc_from.simps [simp del]

definition balloc :: "u32 \<Rightarrow> kernel \<Rightarrow> u32 kres" where
  "balloc dev s = balloc_from (unat (sb_size (sb s))) dev 0 s"

definition bfree :: "u32 \<Rightarrow> u32 \<Rightarrow> kernel \<Rightarrow> (kernel, kernel) res" where
  "bfree dev b s =
     rbind (readsb dev s) (\<lambda>(sb', s).
     let s = s\<lparr>sb := sb'\<rparr> in
     rbind (bread dev (BBLOCK b (sb s)) s) (\<lambda>(bp, s).
     let bi = unat b mod BPB; d = b_data (bufs s ! bp) in
     if \<not> bitmap_get d bi then Panic ''freeing free block''
     else rbind (log_write bp (set_data bp (bitmap_clear d bi) s)) (brelse bp)))"

section \<open>Inodes\<close>

definition iinit :: "u32 \<Rightarrow> kernel \<Rightarrow> (kernel, kernel) res" where
  "iinit dev s =
     (let s = s\<lparr>locks := (locks s)(L_icache := False)\<rparr>;
          s = fold (\<lambda>i. initsleeplock (SLInode i)) [0..<NINODE] s in
      rbind (readsb dev s) (\<lambda>(sb', s). Ok (s\<lparr>sb := sb'\<rparr>)))"

definition iget :: "u32 \<Rightarrow> u32 \<Rightarrow> kernel \<Rightarrow> nat kres" where
  "iget dev inum s =
     rbind (acquire L_icache s) (\<lambda>s.
     case find_from (\<lambda>i. ip_ref (icache s ! i) > 0 \<and> ip_dev (icache s ! i) = dev \<and>
            ip_inum (icache s ! i) = inum) 0 NINODE of
       Some i \<Rightarrow>
         rbind (release L_icache (upd_inode i (\<lambda>ip. ip\<lparr>ip_ref := ip_ref ip + 1\<rparr>) s)) (\<lambda>s. Ok (i, s))
     | None \<Rightarrow>
         (case find_from (\<lambda>i. ip_ref (icache s ! i) = 0) 0 NINODE of
            None \<Rightarrow> Panic ''iget: no inodes''
          | Some i \<Rightarrow>
              rbind (release L_icache (upd_inode i (\<lambda>ip. ip\<lparr>ip_dev := dev, ip_inum := inum,
                ip_ref := 1, ip_valid := False\<rparr>) s)) (\<lambda>s. Ok (i, s))))"

function ialloc_from :: "nat \<Rightarrow> u32 \<Rightarrow> int \<Rightarrow> nat \<Rightarrow> kernel \<Rightarrow> nat kres" where
  "ialloc_from ninodes dev type inum s =
     (if inum < ninodes then
        rbind (bread dev (IBLOCK (of_nat inum) (sb s)) s) (\<lambda>(bp, s).
        let d = b_data (bufs s ! bp); off = dinode_off (of_nat inum) in
        if di_type (get_dinode d off) = 0 then
          rbind (log_write bp (set_data bp (put_dinode d off \<lparr>di_type = word_of_int type, di_major = 0,
            di_minor = 0, di_nlink = 0, di_size = 0, di_addrs = replicate 13 0\<rparr>) s)) (\<lambda>s.
          rbind (brelse bp s) (\<lambda>s.
          iget dev (of_nat inum) s))
        else rbind (brelse bp s) (\<lambda>s. ialloc_from ninodes dev type (inum + 1) s))
      else Panic ''ialloc: no inodes'')"
  by pat_completeness auto
termination by (relation "measure (\<lambda>(n, _, _, inum, _). n - inum)") auto

declare ialloc_from.simps [simp del]

definition ialloc :: "u32 \<Rightarrow> int \<Rightarrow> kernel \<Rightarrow> nat kres" where
  "ialloc dev type s = ialloc_from (unat (sb_ninodes (sb s))) dev type 1 s"

definition dinode_of_inode :: "inode \<Rightarrow> dinode" where
  "dinode_of_inode ip = \<lparr>di_type = word_of_int (ip_type ip), di_major = word_of_int (ip_major ip),
     di_minor = word_of_int (ip_minor ip), di_nlink = word_of_int (ip_nlink ip), di_size = ip_size ip,
     di_addrs = ip_addrs ip\<rparr>"

definition iupdate :: "nat \<Rightarrow> kernel \<Rightarrow> (kernel, kernel) res" where
  "iupdate i s =
     (let ip = icache s ! i in
      rbind (bread (ip_dev ip) (IBLOCK (ip_inum ip) (sb s)) s) (\<lambda>(bp, s).
      rbind (log_write bp (set_data bp (put_dinode (b_data (bufs s ! bp)) (dinode_off (ip_inum ip))
        (dinode_of_inode ip)) s)) (brelse bp)))"

definition idup :: "nat \<Rightarrow> kernel \<Rightarrow> nat kres" where
  "idup i s =
     rbind (acquire L_icache s) (\<lambda>s.
     rbind (release L_icache (upd_inode i (\<lambda>ip. ip\<lparr>ip_ref := ip_ref ip + 1\<rparr>) s)) (\<lambda>s. Ok (i, s)))"

definition ilock :: "nat option \<Rightarrow> kernel \<Rightarrow> (kernel, kernel) res" where
  "ilock p s =
     (case p of
        None \<Rightarrow> Panic ''ilock''
      | Some i \<Rightarrow>
          if ip_ref (icache s ! i) < 1 then Panic ''ilock''
          else rbind (acquiresleep (SLInode i) s) (\<lambda>s.
            if \<not> ip_valid (icache s ! i) then
              let ip = icache s ! i in
              rbind (bread (ip_dev ip) (IBLOCK (ip_inum ip) (sb s)) s) (\<lambda>(bp, s).
              let x = get_dinode (b_data (bufs s ! bp)) (dinode_off (ip_inum ip));
                  s = upd_inode i (\<lambda>ip. ip\<lparr>ip_type := sint (di_type x), ip_major := sint (di_major x),
                    ip_minor := sint (di_minor x), ip_nlink := sint (di_nlink x), ip_size := di_size x,
                    ip_addrs := di_addrs x\<rparr>) s in
              rbind (brelse bp s) (\<lambda>s.
              let s = upd_inode i (\<lambda>ip. ip\<lparr>ip_valid := True\<rparr>) s in
              if ip_type (icache s ! i) = 0 then Panic ''ilock: no type'' else Ok s))
            else Ok s))"

definition iunlock :: "nat option \<Rightarrow> kernel \<Rightarrow> (kernel, kernel) res" where
  "iunlock p s =
     (case p of
        None \<Rightarrow> Panic ''iunlock''
      | Some i \<Rightarrow>
          rbind (holdingsleep (SLInode i) s) (\<lambda>(h, s).
          if \<not> h \<or> ip_ref (icache s ! i) < 1 then Panic ''iunlock''
          else releasesleep (SLInode i) s))"

subsection \<open>Content\<close>

definition bmap :: "nat \<Rightarrow> u32 \<Rightarrow> kernel \<Rightarrow> u32 kres" where
  "bmap i bn s =
     (let dev = ip_dev (icache s ! i) in
      if unat bn < NDIRECT then
        let addr = ip_addrs (icache s ! i) ! unat bn in
        if addr = 0 then
          rbind (balloc dev s) (\<lambda>(addr, s).
          Ok (addr, upd_inode i (\<lambda>ip. ip\<lparr>ip_addrs := (ip_addrs ip)[unat bn := addr]\<rparr>) s))
        else Ok (addr, s)
      else
        let bn = unat bn - NDIRECT in
        if bn < NINDIRECT then
          let addr = ip_addrs (icache s ! i) ! NDIRECT in
          rbind (if addr = 0 then
                   rbind (balloc dev s) (\<lambda>(addr, s).
                   Ok (addr, upd_inode i (\<lambda>ip. ip\<lparr>ip_addrs := (ip_addrs ip)[NDIRECT := addr]\<rparr>) s))
                 else Ok (addr, s)) (\<lambda>(addr, s).
          rbind (bread dev addr s) (\<lambda>(bp, s).
          let addr = rd32 (b_data (bufs s ! bp)) (4 * bn) in
          if addr = 0 then
            rbind (balloc dev s) (\<lambda>(addr, s).
            rbind (log_write bp (set_data bp (wr32 (b_data (bufs s ! bp)) (4 * bn) addr) s)) (\<lambda>s.
            rbind (brelse bp s) (\<lambda>s. Ok (addr, s))))
          else rbind (brelse bp s) (\<lambda>s. Ok (addr, s))))
        else Panic ''bmap: out of range'')"

fun itrunc_direct :: "nat \<Rightarrow> nat list \<Rightarrow> kernel \<Rightarrow> (kernel, kernel) res" where
  "itrunc_direct i [] s = Ok s"
| "itrunc_direct i (k # ks) s =
     (let ip = icache s ! i in
      if ip_addrs ip ! k \<noteq> 0 then
        rbind (bfree (ip_dev ip) (ip_addrs ip ! k) s) (\<lambda>s.
        itrunc_direct i ks (upd_inode i (\<lambda>ip. ip\<lparr>ip_addrs := (ip_addrs ip)[k := 0]\<rparr>) s))
      else itrunc_direct i ks s)"

fun itrunc_indirect :: "nat \<Rightarrow> nat \<Rightarrow> nat list \<Rightarrow> kernel \<Rightarrow> (kernel, kernel) res" where
  "itrunc_indirect i bp [] s = Ok s"
| "itrunc_indirect i bp (j # js) s =
     (let a = rd32 (b_data (bufs s ! bp)) (4 * j) in
      if a \<noteq> 0 then rbind (bfree (ip_dev (icache s ! i)) a s) (itrunc_indirect i bp js)
      else itrunc_indirect i bp js s)"

definition itrunc :: "nat \<Rightarrow> kernel \<Rightarrow> (kernel, kernel) res" where
  "itrunc i s =
     rbind (itrunc_direct i [0..<NDIRECT] s) (\<lambda>s.
     let ip = icache s ! i in
     rbind (if ip_addrs ip ! NDIRECT \<noteq> 0 then
              rbind (bread (ip_dev ip) (ip_addrs ip ! NDIRECT) s) (\<lambda>(bp, s).
              rbind (itrunc_indirect i bp [0..<NINDIRECT] s) (\<lambda>s.
              rbind (brelse bp s) (\<lambda>s.
              rbind (bfree (ip_dev ip) (ip_addrs (icache s ! i) ! NDIRECT) s) (\<lambda>s.
              Ok (upd_inode i (\<lambda>ip. ip\<lparr>ip_addrs := (ip_addrs ip)[NDIRECT := 0]\<rparr>) s)))))
            else Ok s) (\<lambda>s.
     iupdate i (upd_inode i (\<lambda>ip. ip\<lparr>ip_size := 0\<rparr>) s)))"

definition iput :: "nat \<Rightarrow> kernel \<Rightarrow> (kernel, kernel) res" where
  "iput i s =
     rbind (acquiresleep (SLInode i) s) (\<lambda>s.
     rbind (if ip_valid (icache s ! i) \<and> ip_nlink (icache s ! i) = 0 then
              rbind (acquire L_icache s) (\<lambda>s.
              let r = ip_ref (icache s ! i) in
              rbind (release L_icache s) (\<lambda>s.
              if r = 1 then
                rbind (itrunc i s) (\<lambda>s.
                rbind (iupdate i (upd_inode i (\<lambda>ip. ip\<lparr>ip_type := 0\<rparr>) s)) (\<lambda>s.
                Ok (upd_inode i (\<lambda>ip. ip\<lparr>ip_valid := False\<rparr>) s)))
              else Ok s))
            else Ok s) (\<lambda>s.
     rbind (releasesleep (SLInode i) s) (\<lambda>s.
     rbind (acquire L_icache s) (\<lambda>s.
     release L_icache (upd_inode i (\<lambda>ip. ip\<lparr>ip_ref := ip_ref ip - 1\<rparr>) s)))))"

definition iunlockput :: "nat \<Rightarrow> kernel \<Rightarrow> (kernel, kernel) res" where
  "iunlockput i s = rbind (iunlock (Some i) s) (iput i)"

record stat =
  st_type :: int
  st_dev :: int
  st_ino :: u32
  st_nlink :: int
  st_size :: u32

definition stati :: "nat \<Rightarrow> kernel \<Rightarrow> stat" where
  "stati i s = (let ip = icache s ! i in
     \<lparr>st_type = ip_type ip, st_dev = sint (ip_dev ip), st_ino = ip_inum ip, st_nlink = ip_nlink ip,
      st_size = ip_size ip\<rparr>)"

end
