(* ===== verification/Console.thy ===== *)
theory Console
  imports Inode
begin

text \<open>
  The console: formatted output (\<open>console.c\<close>: \<open>printint\<close>, \<open>cprintf\<close>), the CGA screen and
  the serial port (\<open>cgaputc\<close>, \<open>consputc\<close>, \<open>uart.c\<close>), the line-editing input ring
  (\<open>consoleintr\<close>, \<open>consoleread\<close>), and the process listing \<open>procdump\<close> of \<open>proc.c\<close>. The
  cursor register of the CGA controller is \<open>crt_pos\<close>, its memory \<open>crt_mem\<close>; the bytes sent
  to the serial port are appended to \<open>uart_out\<close>. Characters are byte values.
\<close>

section \<open>Output\<close>

definition BACKSPACE :: int where [simp, const_defs]: "BACKSPACE = 0x100"
definition INPUT_BUF :: u32 where [simp, const_defs]: "INPUT_BUF = 128"

definition upd_cons :: "(console \<Rightarrow> console) \<Rightarrow> kernel \<Rightarrow> kernel" where
  "upd_cons f s = s\<lparr>cons := f (cons s)\<rparr>"

definition uartputc :: "int \<Rightarrow> kernel \<Rightarrow> kernel" where
  "uartputc c s =
     (if \<not> uart_present (cons s) then s
      else upd_cons (\<lambda>k. k\<lparr>uart_out := uart_out k @ [word_of_int c]\<rparr>) s)"

text \<open>The screen is 25 lines of 80 cells.\<close>

definition cga_write :: "int \<Rightarrow> u16 \<Rightarrow> u16 list \<Rightarrow> (kernel, u16 list) res" where
  "cga_write pos x m = aset ''crt'' m pos x"

definition cga_scroll :: "int \<Rightarrow> u16 list \<Rightarrow> u16 list" where
  "cga_scroll pos m =
     (let m = blit m 0 (slice m 80 (23 * 80)) in
      blit m (nat pos) (replicate (24 * 80 - nat pos) 0))"

definition cgaputc :: "int \<Rightarrow> kernel \<Rightarrow> (kernel, kernel) res" where
  "cgaputc c s =
     (let pos = crt_pos (cons s) in
      rbind (if c = 10 then Ok (pos + (80 - pos mod 80), crt_mem (cons s))
             else if c = BACKSPACE then Ok (if pos > 0 then pos - 1 else pos, crt_mem (cons s))
             else rbind (cga_write pos (word_of_int (c mod 256) OR 0x0700) (crt_mem (cons s)))
               (\<lambda>m. Ok (pos + 1, m))) (\<lambda>(pos, m).
      if pos < 0 \<or> pos > 25 * 80 then Panic ''pos under/overflow''
      else
        let (pos, m) = (if pos div 80 \<ge> 24 then (pos - 80, cga_scroll (pos - 80) m) else (pos, m)) in
        rbind (cga_write pos (0x20 OR 0x0700) m) (\<lambda>m.
        Ok (upd_cons (\<lambda>k. k\<lparr>crt_mem := m, crt_pos := pos\<rparr>) s))))"

definition consputc :: "int \<Rightarrow> kernel \<Rightarrow> (kernel, kernel) res" where
  "consputc c s =
     (if cons_panicked (cons s) then Hang
      else
        let s = (if c = BACKSPACE then uartputc 8 (uartputc 32 (uartputc 8 s)) else uartputc c s) in
        cgaputc c s)"

fun consputs :: "int list \<Rightarrow> kernel \<Rightarrow> (kernel, kernel) res" where
  "consputs [] s = Ok s"
| "consputs (c # cs) s = rbind (consputc c s) (consputs cs)"

text \<open>\<open>printint\<close>: the digits come out in reverse, at least one.\<close>

definition digit_char :: "nat \<Rightarrow> int" where
  "digit_char d = (if d < 10 then 48 + int d else 97 + int (d - 10))"

fun digits_rev :: "nat \<Rightarrow> nat \<Rightarrow> nat \<Rightarrow> int list" where
  "digits_rev 0 base x = []"
| "digits_rev (Suc n) base x =
     digit_char (x mod base) # (if x div base \<noteq> 0 then digits_rev n base (x div base) else [])"

definition printint_chars :: "u32 \<Rightarrow> nat \<Rightarrow> bool \<Rightarrow> int list" where
  "printint_chars xx base sign =
     (let neg = sign \<and> sint xx < 0;
          x = (if neg then - xx else xx);
          buf = digits_rev 32 base (unat x) @ (if neg then [45] else []) in
      rev buf)"

definition printint :: "u32 \<Rightarrow> nat \<Rightarrow> bool \<Rightarrow> kernel \<Rightarrow> (kernel, kernel) res" where
  "printint xx base sign s = consputs (printint_chars xx base sign) s"

text \<open>The arguments after the format: words, or strings (a null pointer is \<open>None\<close>).\<close>

datatype fmt_arg = AInt u32 | AStr "int list option"

definition null_str :: "int list" where
  "null_str = [40, 110, 117, 108, 108, 41]"

fun cprintf_loop :: "int list \<Rightarrow> fmt_arg list \<Rightarrow> kernel \<Rightarrow> (kernel, kernel) res" where
  "cprintf_loop [] args s = Ok s"
| "cprintf_loop [c] args s = (if c \<noteq> 37 then consputc c s else Ok s)"
| "cprintf_loop (c # d # fmt) args s =
     (if c \<noteq> 37 then rbind (consputc c s) (cprintf_loop (d # fmt) args)
      else if d = 100 then
        (case args of AInt x # args \<Rightarrow> rbind (printint x 10 True s) (cprintf_loop fmt args)
         | _ \<Rightarrow> Undef ''cprintf argument'')
      else if d = 120 \<or> d = 112 then
        (case args of AInt x # args \<Rightarrow> rbind (printint x 16 False s) (cprintf_loop fmt args)
         | _ \<Rightarrow> Undef ''cprintf argument'')
      else if d = 115 then
        (case args of AStr x # args \<Rightarrow>
           rbind (consputs (case x of None \<Rightarrow> null_str | Some t \<Rightarrow> t) s) (cprintf_loop fmt args)
         | _ \<Rightarrow> Undef ''cprintf argument'')
      else if d = 37 then rbind (consputc 37 s) (cprintf_loop fmt args)
      else rbind (consputc 37 s) (\<lambda>s. rbind (consputc d s) (cprintf_loop fmt args)))"

definition cprintf :: "int list \<Rightarrow> fmt_arg list \<Rightarrow> kernel \<Rightarrow> (kernel, kernel) res" where
  "cprintf fmt args s =
     (let locking = cons_locking (cons s) in
      rbind (if locking then acquire L_cons s else Ok s) (\<lambda>s.
      rbind (cprintf_loop fmt args s) (\<lambda>s.
      if locking then release L_cons s else Ok s)))"

text \<open>A string literal as byte values.\<close>

definition chars :: "string \<Rightarrow> int list" where
  "chars t = map (\<lambda>c. int (of_char c)) t"

definition state_name :: "procstate \<Rightarrow> string" where
  "state_name st = (case st of UNUSED \<Rightarrow> ''unused'' | EMBRYO \<Rightarrow> ''embryo'' | SLEEPING \<Rightarrow> ''sleep ''
     | RUNNABLE \<Rightarrow> ''runble'' | RUNNING \<Rightarrow> ''run   '' | ZOMBIE \<Rightarrow> ''zombie'')"

definition cstr :: "u8 list \<Rightarrow> int list" where
  "cstr xs = map uint (takeWhile (\<lambda>c. c \<noteq> 0) xs)"

fun procdump_loop :: "proc list \<Rightarrow> kernel \<Rightarrow> (kernel, kernel) res" where
  "procdump_loop [] s = Ok s"
| "procdump_loop (p # ps) s =
     (if p_state p = UNUSED then procdump_loop ps s
      else
        rbind (cprintf (chars ''%d state=%s alloc-memory-pages=%d paged-out=%d page-faults=%d  paged-out-total-num=%d %s'')
          [AInt (word_of_int (p_pid p)), AStr (Some (chars (state_name (p_state p)))),
           AInt (word_of_int (p_numberOfAllocatedPages p)), AInt (p_numberOfPagedOut p),
           AInt (word_of_int (p_numberOfPageFaults p)), AInt (word_of_int (p_totalNumberOfPagedOut p)),
           AStr (Some (cstr (p_name p)))] s) (\<lambda>s.
        rbind (cprintf [10] [] s) (procdump_loop ps)))"

definition procdump :: "kernel \<Rightarrow> (kernel, kernel) res" where
  "procdump s =
     rbind (procdump_loop (procs s) s) (\<lambda>s.
     rbind (getCurrentCapacity s) (\<lambda>(currentFree, s).
     if initial_size s = 0 then Undef ''division by zero''
     else cprintf (chars ''%d % free pages in the system'' @ [10])
       [AInt (word_of_int (currentFree * 100 div initial_size s))] s))"

section \<open>Input\<close>

text \<open>Kill line: how many characters back to the end of the previous line.\<close>

function kill_count :: "u8 list \<Rightarrow> u32 \<Rightarrow> u32 \<Rightarrow> nat" where
  "kill_count buf e w =
     (if e \<noteq> w \<and> buf ! unat ((e - 1) mod INPUT_BUF) \<noteq> 10 then Suc (kill_count buf (e - 1) w) else 0)"
  by pat_completeness auto
termination
proof (relation "measure (\<lambda>(buf, e, w). unat (e - w))", simp, clarsimp)
  fix e w :: u32
  assume "e \<noteq> w"
  then have "0 < unat (e - w)" "unat (e - w - 1) = unat (e - w) - 1"
    by (simp_all add: unat_gt_0 unat_minus_one)
  moreover have "e - 1 - w = e - w - 1" by simp
  ultimately show "unat (e - 1 - w) < unat (e - w)" by (simp only: diff_less zero_less_one)
qed

declare kill_count.simps [simp del]

fun erase :: "nat \<Rightarrow> kernel \<Rightarrow> (kernel, kernel) res" where
  "erase 0 s = Ok s"
| "erase (Suc n) s =
     rbind (consputc BACKSPACE (upd_cons (\<lambda>k. k\<lparr>in_e := in_e k - 1\<rparr>) s)) (erase n)"

text \<open>One character of input; the flag asks for a process listing.\<close>

definition consoleintr_char :: "int \<Rightarrow> kernel \<Rightarrow> bool kres" where
  "consoleintr_char c s =
     (let k = cons s in
      if c = 16 then Ok (True, s)
      else if c = 21 then rbind (erase (kill_count (in_buf k) (in_e k) (in_w k)) s) (\<lambda>s. Ok (False, s))
      else if c = 8 \<or> c = 127 then
        (if in_e k \<noteq> in_w k then rbind (erase 1 s) (\<lambda>s. Ok (False, s)) else Ok (False, s))
      else if c \<noteq> 0 \<and> in_e k - in_r k < INPUT_BUF then
        let c = (if c = 13 then 10 else c);
            s = upd_cons (\<lambda>k. k\<lparr>in_buf := (in_buf k)[unat (in_e k mod INPUT_BUF) := word_of_int c],
                  in_e := in_e k + 1\<rparr>) s in
        rbind (consputc c s) (\<lambda>s.
        if c = 10 \<or> c = 4 \<or> in_e (cons s) = in_r (cons s) + INPUT_BUF
        then rbind (wakeup C_input (upd_cons (\<lambda>k. k\<lparr>in_w := in_e k\<rparr>) s)) (\<lambda>s. Ok (False, s))
        else Ok (False, s))
      else Ok (False, s))"

fun consoleintr_loop :: "int list \<Rightarrow> bool \<Rightarrow> kernel \<Rightarrow> bool kres" where
  "consoleintr_loop [] dump s = Ok (dump, s)"
| "consoleintr_loop (c # cs) dump s =
     (if c < 0 then Ok (dump, s)
      else rbind (consoleintr_char c s) (\<lambda>(d, s). consoleintr_loop cs (dump \<or> d) s))"

text \<open>\<open>cs\<close> are the values the successive calls of \<open>getc\<close> return.\<close>

definition consoleintr :: "int list \<Rightarrow> kernel \<Rightarrow> (kernel, kernel) res" where
  "consoleintr cs s =
     rbind (acquire L_cons s) (\<lambda>s.
     rbind (consoleintr_loop cs False s) (\<lambda>(dump, s).
     rbind (release L_cons s) (\<lambda>s.
     if dump then procdump s else Ok s)))"

text \<open>The reading loop: \<open>Inl\<close> for a killed process, \<open>Inr\<close> with the bytes delivered.\<close>

function consoleread_loop :: "int \<Rightarrow> int \<Rightarrow> u8 list \<Rightarrow> kernel \<Rightarrow> (unit + u8 list) kres" where
  "consoleread_loop target n acc s =
     (if n > 0 then
        if in_r (cons s) = in_w (cons s) then
          rbind (curproc s) (\<lambda>p.
          if p_killed (procs s ! p) then Ok (Inl (), s) else sleep C_input L_cons s)
        else
          let c = in_buf (cons s) ! unat (in_r (cons s) mod INPUT_BUF);
              s = upd_cons (\<lambda>k. k\<lparr>in_r := in_r k + 1\<rparr>) s in
          if c = 4 then
            Ok (Inr acc, if n < target then upd_cons (\<lambda>k. k\<lparr>in_r := in_r k - 1\<rparr>) s else s)
          else if c = 10 then Ok (Inr (acc @ [c]), s)
          else consoleread_loop target (n - 1) (acc @ [c]) s
      else Ok (Inr acc, s))"
  by pat_completeness auto
termination by (relation "measure (\<lambda>(_, n, _, _). nat n)") auto

declare consoleread_loop.simps [simp del]

definition consoleread :: "nat \<Rightarrow> int \<Rightarrow> kernel \<Rightarrow> (int \<times> u8 list) kres" where
  "consoleread ip n s =
     rbind (iunlock (Some ip) s) (\<lambda>s.
     rbind (acquire L_cons s) (\<lambda>s.
     rbind (consoleread_loop n n [] s) (\<lambda>(r, s).
     rbind (release L_cons s) (\<lambda>s.
     rbind (ilock (Some ip) s) (\<lambda>s.
     case r of Inl _ \<Rightarrow> Ok ((- 1, []), s) | Inr bs \<Rightarrow> Ok ((int (length bs), bs), s))))))"

definition consolewrite :: "nat \<Rightarrow> u8 list \<Rightarrow> kernel \<Rightarrow> int kres" where
  "consolewrite ip buf s =
     rbind (iunlock (Some ip) s) (\<lambda>s.
     rbind (acquire L_cons s) (\<lambda>s.
     rbind (consputs (map uint buf) s) (\<lambda>s.
     rbind (release L_cons s) (\<lambda>s.
     rbind (ilock (Some ip) s) (\<lambda>s. Ok (int (length buf), s))))))"

definition consoleinit :: "kernel \<Rightarrow> kernel" where
  "consoleinit s = upd_cons (\<lambda>k. k\<lparr>cons_locking := True\<rparr>) (s\<lparr>locks := (locks s)(L_cons := False)\<rparr>)"

section \<open>The screen\<close>

text \<open>The cursor is on one of the first 24 lines.\<close>

definition screen_ok :: "kernel \<Rightarrow> bool" where
  [inv_defs]: "screen_ok s \<longleftrightarrow> 0 \<le> crt_pos (cons s) \<and> crt_pos (cons s) < 24 * 80 \<and> length (crt_mem (cons s)) = 25 * 80"

lemma cga_scroll_length: "length m = 25 * 80 \<Longrightarrow> 0 \<le> pos \<Longrightarrow> pos < 24 * 80 \<Longrightarrow> length (cga_scroll pos m) = 25 * 80"
proof -
  assume m: "length m = 25 * 80" and pos: "0 \<le> pos" "pos < 24 * 80"
  let ?m = "blit m 0 (slice m 80 (23 * 80))"
  have l: "length ?m = 25 * 80" using m by simp
  then have "length (blit ?m (nat pos) (replicate (24 * 80 - nat pos) 0)) = 25 * 80"
    using pos by (subst length_blit) simp_all
  then show ?thesis by (simp add: cga_scroll_def)
qed

text \<open>The second half of \<open>cgaputc\<close>, after the cursor has moved.\<close>

definition cga_finish :: "int \<Rightarrow> u16 list \<Rightarrow> kernel \<Rightarrow> (kernel, kernel) res" where
  "cga_finish pos m s =
     (let (pos, m) = (if pos div 80 \<ge> 24 then (pos - 80, cga_scroll (pos - 80) m) else (pos, m)) in
      rbind (cga_write pos (0x20 OR 0x0700) m) (\<lambda>m.
      Ok (upd_cons (\<lambda>k. k\<lparr>crt_mem := m, crt_pos := pos\<rparr>) s)))"

lemma cga_finish_ok:
  assumes "0 \<le> pos" "pos \<le> 24 * 80" "length m = 25 * 80"
  shows "\<exists>k. cga_finish pos m s = Ok (upd_cons (\<lambda>_. k) s) \<and> screen_ok (upd_cons (\<lambda>_. k) s) \<and>
    cons_panicked k = cons_panicked (cons s)"
proof -
  define pos' where "pos' = (if pos div 80 \<ge> 24 then pos - 80 else pos)"
  define m' where "m' = (if pos div 80 \<ge> 24 then cga_scroll (pos - 80) m else m)"
  have p: "0 \<le> pos'" "pos' < 24 * 80" unfolding pos'_def using assms(1,2) by auto
  have l: "length m' = 25 * 80" unfolding m'_def using assms cga_scroll_length [of m "pos - 80"] by auto
  have "(if pos div 80 \<ge> 24 then (pos - 80, cga_scroll (pos - 80) m) else (pos, m)) = (pos', m')"
    by (simp add: pos'_def m'_def)
  then have "cga_finish pos m s = Ok (upd_cons (\<lambda>_. (cons s)\<lparr>crt_mem := m'[nat pos' := 0x20 OR 0x0700], crt_pos := pos'\<rparr>) s)"
    using p l by (simp add: cga_finish_def cga_write_def upd_cons_def)
  then show ?thesis using p l by (auto simp: screen_ok_def upd_cons_def)
qed

lemma cgaputc_ok:
  assumes "screen_ok s"
  shows "\<exists>k. cgaputc c s = Ok (upd_cons (\<lambda>_. k) s) \<and> screen_ok (upd_cons (\<lambda>_. k) s) \<and> cons_panicked k = cons_panicked (cons s)"
proof -
  let ?p = "crt_pos (cons s)" and ?m = "crt_mem (cons s)"
  have p: "0 \<le> ?p" "?p < 1920" "length ?m = 2000" using assms by (simp_all add: screen_ok_def)
  then have nl: "?p + (80 - ?p mod 80) \<le> 1920" "0 \<le> ?p + (80 - ?p mod 80)" by presburger+
  define q where "q = (if c = 10 then ?p + (80 - ?p mod 80) else if c = BACKSPACE then (if ?p > 0 then ?p - 1 else ?p) else ?p + 1)"
  define m where "m = (if c = 10 \<or> c = BACKSPACE then ?m else ?m[nat ?p := word_of_int (c mod 256) OR 0x0700])"
  have q: "0 \<le> q" "q \<le> 1920" "length m = 2000" unfolding q_def m_def using p nl by auto
  have "cgaputc c s = cga_finish q m s"
  proof -
    have "rbind (if c = 10 then Ok (?p + (80 - ?p mod 80), ?m)
             else if c = BACKSPACE then Ok (if ?p > 0 then ?p - 1 else ?p, ?m)
             else rbind (cga_write ?p (word_of_int (c mod 256) OR 0x0700) ?m) (\<lambda>m. Ok (?p + 1, m))) f = f (q, m)"
      for f :: "int \<times> u16 list \<Rightarrow> (kernel, kernel) res"
      using p by (simp add: q_def m_def cga_write_def)
    moreover have "\<not> (q < 0 \<or> q > 25 * 80)" using q by simp
    ultimately show ?thesis unfolding cgaputc_def Let_def cga_finish_def by (simp only: prod.case if_False)
  qed
  then show ?thesis using cga_finish_ok [of q m s] q by simp
qed

lemma consputc_ok:
  assumes "screen_ok s" "\<not> cons_panicked (cons s)"
  shows "\<exists>s'. consputc c s = Ok s' \<and> screen_ok s' \<and> \<not> cons_panicked (cons s')"
proof -
  have u: "screen_ok (uartputc x t) = screen_ok t" "cons_panicked (cons (uartputc x t)) = cons_panicked (cons t)" for x t
    by (simp_all add: uartputc_def upd_cons_def screen_ok_def)
  define t where "t = (if c = BACKSPACE then uartputc 8 (uartputc 32 (uartputc 8 s)) else uartputc c s)"
  have "screen_ok t" "cons_panicked (cons t) = cons_panicked (cons s)" using assms(1) by (simp_all add: t_def u)
  then obtain k where "cgaputc c t = Ok (upd_cons (\<lambda>_. k) t)" "screen_ok (upd_cons (\<lambda>_. k) t)" "\<not> cons_panicked k"
    using cgaputc_ok [of t c] assms(2) by auto
  moreover have "consputc c s = cgaputc c t" using assms(2) by (simp add: consputc_def t_def)
  ultimately show ?thesis by (simp add: upd_cons_def)
qed

text \<open>C39 [console_output_total]: printing any characters, control characters and backspaces included, never
  panics, hangs or writes outside the screen's memory, and leaves the cursor on one of the first 24 lines.\<close>

theorem console_output_total:
  assumes "screen_ok s" "\<not> cons_panicked (cons s)"
  shows "\<exists>s'. consputs cs s = Ok s' \<and> screen_ok s' \<and> \<not> cons_panicked (cons s')"
  using assms
proof (induction cs arbitrary: s)
  case (Cons c cs)
  then obtain t where "consputc c s = Ok t" "screen_ok t" "\<not> cons_panicked (cons t)" using consputc_ok by blast
  with Cons.IH [of t] show ?case by simp
qed simp

theorem console_output_total_witness:
  "\<exists>s'. consputs [104, 105, 10, 256, 256] kernel0 = Ok s' \<and> screen_ok s'"
  using console_output_total [of kernel0 "[104, 105, 10, 256, 256]"] by (auto simp: kernel0_def screen_ok_def)

end
