(* ===== verification/Cstring.thy ===== *)
theory Cstring
  imports Cmem
begin

text \<open>
  C strings (\<open>string.c\<close>, \<open>ulib.c\<close>). A string argument is the list of bytes from the pointer
  up to, and without, its terminating NUL; \<open>c0\<close> is the byte at the pointer. A destination
  is the array the pointer points into.
\<close>

section \<open>The code\<close>

fun c0 :: "u8 list \<Rightarrow> u8" where
  "c0 [] = 0"
| "c0 (c # cs) = c"

text \<open>\<open>strncmp(p, q, n)\<close>\<close>

fun strncmp :: "nat \<Rightarrow> u8 list \<Rightarrow> u8 list \<Rightarrow> int" where
  "strncmp 0 p q = 0"
| "strncmp (Suc n) p q =
     (if c0 p \<noteq> 0 \<and> c0 p = c0 q then strncmp n (tl p) (tl q) else uint (c0 p) - uint (c0 q))"

text \<open>\<open>strncpy(s, t, n)\<close>: the \<open>n\<close> bytes it stores.\<close>

fun strncpy :: "nat \<Rightarrow> u8 list \<Rightarrow> u8 list" where
  "strncpy 0 t = []"
| "strncpy (Suc n) t = (if c0 t \<noteq> 0 then c0 t # strncpy n (tl t) else replicate (Suc n) 0)"

text \<open>\<open>safestrcpy(s, t, n)\<close>: the bytes stored, at most \<open>n\<close>.\<close>

fun safestrcpy_loop :: "nat \<Rightarrow> u8 list \<Rightarrow> u8 list" where
  "safestrcpy_loop 0 t = [0]"
| "safestrcpy_loop (Suc n) t = (if c0 t \<noteq> 0 then c0 t # safestrcpy_loop n (tl t) else [0, 0])"

definition safestrcpy :: "nat \<Rightarrow> u8 list \<Rightarrow> u8 list" where
  "safestrcpy n t = (if n = 0 then [] else safestrcpy_loop (n - 1) t)"

text \<open>\<open>strlen\<close>, of the kernel and of the user library.\<close>

fun strlen :: "u8 list \<Rightarrow> nat" where
  "strlen [] = 0"
| "strlen (c # cs) = (if c \<noteq> 0 then Suc (strlen cs) else 0)"

fun strcpy :: "u8 list \<Rightarrow> u8 list" where
  "strcpy t = (case t of [] \<Rightarrow> [0] | c # cs \<Rightarrow> if c \<noteq> 0 then c # strcpy cs else [0])"

fun strcmp :: "u8 list \<Rightarrow> u8 list \<Rightarrow> int" where
  "strcmp (c # cs) q = (if c \<noteq> 0 \<and> c = c0 q then strcmp cs (tl q) else uint c - uint (c0 q))"
| "strcmp [] q = - uint (c0 q)"

text \<open>\<open>strchr\<close>: the suffix that starts at the character found.\<close>

fun strchr :: "u8 list \<Rightarrow> u8 \<Rightarrow> u8 list option" where
  "strchr [] c = None"
| "strchr (x # xs) c = (if x = 0 then None else if x = c then Some (x # xs) else strchr xs c)"

text \<open>\<open>gets\<close> reads from standard input \<open>inp\<close>, one byte a time; an empty list is end of file.\<close>

fun gets_loop :: "nat \<Rightarrow> u8 list \<Rightarrow> u8 list \<times> u8 list" where
  "gets_loop 0 inp = ([], inp)"
| "gets_loop (Suc n) [] = ([], [])"
| "gets_loop (Suc n) (c # inp) =
     (if c = 10 \<or> c = 13 then ([c], inp) else let (bs, r) = gets_loop n inp in (c # bs, r))"

definition gets :: "nat \<Rightarrow> u8 list \<Rightarrow> u8 list \<times> u8 list" where
  "gets mx inp = (let (bs, r) = gets_loop (mx - 1) inp in (bs @ [0], r))"

fun atoi_loop :: "int \<Rightarrow> u8 list \<Rightarrow> int" where
  "atoi_loop n [] = n"
| "atoi_loop n (c # cs) = (if 48 \<le> c \<and> c \<le> 57 then atoi_loop (n * 10 + uint c - 48) cs else n)"

definition atoi :: "u8 list \<Rightarrow> int" where
  "atoi t = atoi_loop 0 t"

text \<open>The user library's \<open>memset\<close> and \<open>memmove\<close>; the latter always copies upwards.\<close>

definition umemset :: "memory \<Rightarrow> u32 \<Rightarrow> u32 \<Rightarrow> u32 \<Rightarrow> memory" where
  "umemset m dst c n = stosb m dst (ucast c) (unat n)"

definition umemmove :: "memory \<Rightarrow> u32 \<Rightarrow> u32 \<Rightarrow> int \<Rightarrow> memory" where
  "umemmove m vdst vsrc n = copy_fwd m vdst vsrc (nat n)"

section \<open>Properties\<close>

text \<open>The string an array holds: the bytes before the first NUL.\<close>

definition cstring :: "u8 list \<Rightarrow> u8 list" where
  "cstring xs = takeWhile (\<lambda>c. c \<noteq> 0) xs"

lemma cstring_simps [simp]:
  "cstring [] = []" "cstring (c # cs) = (if c = 0 then [] else c # cstring cs)"
  by (simp_all add: cstring_def)

lemma cstring_c0: "cstring t = (if c0 t = 0 then [] else c0 t # cstring (tl t))"
  by (cases t) auto

lemma strncmp_zero: "strncmp n p q = 0 \<longleftrightarrow> take n (cstring p) = take n (cstring q)"
proof (induction n p q rule: strncmp.induct)
  case (2 n p q)
  then show ?case
    by (cases "c0 p = 0"; cases "c0 q = 0")
      (auto simp: cstring_c0 [of p] cstring_c0 [of q] word_uint_eq_iff)
qed simp

lemma length_strncpy [simp]: "length (strncpy n t) = n"
  by (induction n t rule: strncpy.induct) auto

lemma strncpy_eq: "strncpy n t = take n (cstring t) @ replicate (n - length (cstring t)) 0"
proof (induction n t rule: strncpy.induct)
  case (2 n t)
  then show ?case by (cases "c0 t = 0") (auto simp: cstring_c0 [of t])
qed simp

lemma cstring_append: "0 \<notin> set xs \<Longrightarrow> cstring (xs @ ys) = xs @ cstring ys"
  by (induction xs) auto

lemma zero_notin_cstring [simp]: "0 \<notin> set (cstring t)"
  by (auto simp: cstring_def dest: set_takeWhileD)

lemma cstring_strncpy: "cstring (strncpy n t) = take n (cstring t)"
proof -
  have "cstring (replicate k 0) = []" for k by (cases k) auto
  moreover have "0 \<notin> set (take n (cstring t))" by (meson in_set_takeD zero_notin_cstring)
  ultimately show ?thesis by (simp add: strncpy_eq cstring_append)
qed

lemma strlen_cstring: "strlen t = length (cstring t)"
  by (induction t) auto

lemma cstring_safestrcpy_loop:
  "cstring (safestrcpy_loop n t) = take n (cstring t) \<and> length (safestrcpy_loop n t) \<le> Suc n \<and>
     0 \<in> set (safestrcpy_loop n t)"
proof (induction n t rule: safestrcpy_loop.induct)
  case (2 n t)
  then show ?case by (cases "c0 t = 0") (auto simp: cstring_c0 [of t])
qed auto

text \<open>C10 [safestrcpy_terminates]: \<open>safestrcpy(s, t, n)\<close> with \<open>n > 0\<close> stores at most \<open>n\<close> bytes,
  among them a NUL, and the string they form is \<open>t\<close> cut to \<open>n - 1\<close> characters.\<close>

theorem safestrcpy_terminates:
  assumes "0 < n"
  shows "length (safestrcpy n t) \<le> n \<and> 0 \<in> set (safestrcpy n t) \<and>
    cstring (safestrcpy n t) = take (n - 1) (cstring t)"
  using cstring_safestrcpy_loop [of "n - 1" t] assms by (simp add: safestrcpy_def)

theorem safestrcpy_terminates_witness: "cstring (safestrcpy 3 [97, 98, 99]) = [97, 98]"
  using safestrcpy_terminates [of 3 "[97, 98, 99]"] by simp

text \<open>a name stored by \<open>strncpy\<close> into a field of \<open>n\<close> bytes,
  as in a directory entry, compares equal under \<open>strncmp\<close> with \<open>n\<close> exactly to the names that
  agree with it on their first \<open>n\<close> characters.\<close>

theorem strncpy_strncmp_roundtrip:
  "strncmp n q (strncpy n t) = 0 \<longleftrightarrow> take n (cstring q) = take n (cstring t)"
  by (simp add: strncmp_zero cstring_strncpy)

lemma strcmp_zero: "strcmp p q = 0 \<longleftrightarrow> cstring p = cstring q"
proof (induction p q rule: strcmp.induct)
  case (1 c cs q)
  then show ?case
    by (cases "c = 0"; cases "c0 q = 0") (auto simp: cstring_c0 [of q] word_uint_eq_iff)
next
  case (2 q)
  then show ?case by (auto simp: cstring_c0 [of q] word_uint_eq_iff)
qed

lemma gets_loop_split:
  "gets_loop n inp = (bs, r) \<Longrightarrow> inp = bs @ r \<and> length bs \<le> n \<and>
     (\<forall>i. Suc i < length bs \<longrightarrow> bs ! i \<noteq> 10 \<and> bs ! i \<noteq> 13)"
proof (induction n inp arbitrary: bs r rule: gets_loop.induct)
  case (3 n c inp)
  show ?case
  proof (cases "c = 10 \<or> c = 13")
    case False
    with 3 obtain bs' where "bs = c # bs'" "gets_loop n inp = (bs', r)"
      by (auto split: prod.splits)
    with 3 False show ?thesis by (auto simp: nth_Cons split: nat.split)
  qed (use 3 in auto)
qed auto

text \<open>\<open>gets(buf, max)\<close> with \<open>max > 0\<close> stores at most \<open>max\<close> bytes, the last
  of them NUL; the others are exactly the bytes consumed from the input, and a line end can
  only be the last of them.\<close>

theorem gets_bounded:
  assumes "0 < mx" "gets mx inp = (buf, rest)"
  shows "length buf \<le> mx \<and> buf \<noteq> [] \<and> last buf = 0 \<and> inp = butlast buf @ rest \<and>
    (\<forall>i. Suc (Suc i) < length buf \<longrightarrow> buf ! i \<noteq> 10 \<and> buf ! i \<noteq> 13)"
proof -
  obtain bs where bs: "gets_loop (mx - 1) inp = (bs, rest)" "buf = bs @ [0]"
    using assms(2) by (auto simp: gets_def split: prod.splits)
  from gets_loop_split [OF bs(1)] bs(2) assms(1) show ?thesis by (auto simp: nth_append)
qed

theorem gets_bounded_witness: "length (fst (gets 3 [97, 10, 98])) \<le> 3"
  using gets_bounded [of 3 "[97, 10, 98]" "[97, 10, 0]" "[98]"]
  by (simp add: gets_def numeral_2_eq_2 numeral_3_eq_3)



end
