(* ===== verification/Fs.thy ===== *)
theory Fs
  imports Console Cstring
begin

text \<open>
  File content, directories and path names (\<open>fs.c\<close>, from \<open>readi\<close> to \<open>nameiparent\<close>). The
  bytes that \<open>readi\<close> delivers and that \<open>writei\<close> consumes are passed as lists; the copy
  between a list and user or kernel memory is done where the address is known. Path names
  and directory names are the bytes before the terminating NUL.
\<close>

definition DIRSIZ :: nat where [simp, const_defs]: "DIRSIZ = 14"
definition CONSOLE :: int where [simp, const_defs]: "CONSOLE = 1"

section \<open>Content\<close>

lemma block_rest_pos: "0 < (512 :: u32) - off mod 512"
proof -
  have "off mod 512 < 512" by (intro word_mod_less_divisor) simp
  then show ?thesis by (simp add: word_less_nat_alt unat_sub_if')
qed

lemma chunk_less': "0 < n \<Longrightarrow> 0 < m \<Longrightarrow> unat (n - min n m) < unat n" for n m :: u32
proof -
  assume "0 < n" "0 < m"
  then have m: "0 < min n m" "min n m \<le> n" by auto
  then have "unat (n - min n m) = unat n - unat (min n m)" by (intro unat_sub)
  moreover have "0 < unat (min n m)" "unat (min n m) \<le> unat n"
    using m by (simp_all add: word_less_nat_alt word_le_nat_alt)
  ultimately show ?thesis by simp
qed

text \<open>The loops count \<open>n - tot\<close>, the bytes still to be transferred.\<close>

function readi_loop :: "nat \<Rightarrow> u32 \<Rightarrow> u32 \<Rightarrow> u8 list \<Rightarrow> kernel \<Rightarrow> u8 list kres" where
  "readi_loop i off n acc s =
     (if 0 < n then
        rbind (bmap i (off div 512) s) (\<lambda>(bn, s).
        rbind (bread (ip_dev (icache s ! i)) bn s) (\<lambda>(bp, s).
        let m = min n (512 - off mod 512);
            acc = acc @ slice (b_data (bufs s ! bp)) (unat (off mod 512)) (unat m) in
        rbind (brelse bp s) (\<lambda>s.
        readi_loop i (off + m) (n - m) acc s)))
      else Ok (acc, s))"
  by pat_completeness auto
termination
  by (relation "measure (\<lambda>(_, _, n, _, _). unat n)") (auto intro: chunk_less' block_rest_pos)

declare readi_loop.simps [simp del]

definition readi :: "nat \<Rightarrow> u32 \<Rightarrow> u32 \<Rightarrow> kernel \<Rightarrow> (int \<times> u8 list) kres" where
  "readi i off n s =
     (let ip = icache s ! i in
      if ip_type ip = T_DEV then
        if ip_major ip < 0 \<or> ip_major ip \<ge> NDEV \<or> ip_major ip \<noteq> CONSOLE then Ok ((- 1, []), s)
        else consoleread i (sint n) s
      else if off > ip_size ip \<or> off + n < off then Ok ((- 1, []), s)
      else
        let n = (if off + n > ip_size ip then ip_size ip - off else n) in
        rbind (readi_loop i off n [] s) (\<lambda>(bs, s). Ok ((sint n, bs), s)))"

function writei_loop :: "nat \<Rightarrow> u32 \<Rightarrow> u32 \<Rightarrow> u8 list \<Rightarrow> kernel \<Rightarrow> u32 kres" where
  "writei_loop i off n src s =
     (if 0 < n then
        rbind (bmap i (off div 512) s) (\<lambda>(bn, s).
        rbind (bread (ip_dev (icache s ! i)) bn s) (\<lambda>(bp, s).
        let m = min n (512 - off mod 512);
            d = blit (b_data (bufs s ! bp)) (unat (off mod 512)) (take (unat m) src) in
        rbind (log_write bp (set_data bp d s)) (\<lambda>s.
        rbind (brelse bp s) (\<lambda>s.
        writei_loop i (off + m) (n - m) (drop (unat m) src) s))))
      else Ok (off, s))"
  by pat_completeness auto
termination
  by (relation "measure (\<lambda>(_, _, n, _, _). unat n)") (auto intro: chunk_less' block_rest_pos)

declare writei_loop.simps [simp del]

text \<open>\<open>src\<close> is the list of the \<open>n\<close> bytes at the source address.\<close>

definition writei :: "nat \<Rightarrow> u8 list \<Rightarrow> u32 \<Rightarrow> u32 \<Rightarrow> kernel \<Rightarrow> int kres" where
  "writei i src off n s =
     (let ip = icache s ! i in
      if ip_type ip = T_DEV then
        if ip_major ip < 0 \<or> ip_major ip \<ge> NDEV \<or> ip_major ip \<noteq> CONSOLE then Ok (- 1, s)
        else consolewrite i src s
      else if off > ip_size ip \<or> off + n < off then Ok (- 1, s)
      else if off + n > of_nat (MAXFILE * BSIZE) then Ok (- 1, s)
      else
        rbind (writei_loop i off n src s) (\<lambda>(off, s).
        rbind (if n > 0 \<and> off > ip_size (icache s ! i)
               then iupdate i (upd_inode i (\<lambda>ip. ip\<lparr>ip_size := off\<rparr>) s) else Ok s) (\<lambda>s.
        Ok (sint n, s))))"

section \<open>Directories\<close>

definition namecmp :: "u8 list \<Rightarrow> u8 list \<Rightarrow> int" where
  "namecmp p q = strncmp DIRSIZ p q"

text \<open>An entry of a directory: sixteen bytes, the inode number and the padded name.\<close>

definition de_inum :: "u8 list \<Rightarrow> u16" where
  "de_inum bs = rd16 bs 0"

definition de_name :: "u8 list \<Rightarrow> u8 list" where
  "de_name bs = drop 2 bs"

definition mk_dirent :: "u16 \<Rightarrow> u8 list \<Rightarrow> u8 list" where
  "mk_dirent inum name = le16 inum @ strncpy DIRSIZ name"

function dirlookup_loop :: "nat \<Rightarrow> nat \<Rightarrow> u8 list \<Rightarrow> nat \<Rightarrow> kernel \<Rightarrow> (nat \<times> nat) option kres" where
  "dirlookup_loop sz dp name off s =
     (if off < sz then
        rbind (readi dp (of_nat off) 16 s) (\<lambda>((r, de), s).
        if r \<noteq> 16 then Panic ''dirlookup read''
        else if de_inum de = 0 then dirlookup_loop sz dp name (off + 16) s
        else if namecmp name (de_name de) = 0 then
          rbind (iget (ip_dev (icache s ! dp)) (ucast (de_inum de)) s) (\<lambda>(ip, s).
          Ok (Some (ip, off), s))
        else dirlookup_loop sz dp name (off + 16) s)
      else Ok (None, s))"
  by pat_completeness auto
termination by (relation "measure (\<lambda>(sz, _, _, off, _). sz - off)") auto

declare dirlookup_loop.simps [simp del]

text \<open>The result is the inode and the offset of its entry.\<close>

definition dirlookup :: "nat \<Rightarrow> u8 list \<Rightarrow> kernel \<Rightarrow> (nat \<times> nat) option kres" where
  "dirlookup dp name s =
     (if ip_type (icache s ! dp) \<noteq> T_DIR then Panic ''dirlookup not DIR''
      else dirlookup_loop (unat (ip_size (icache s ! dp))) dp name 0 s)"

function dirlink_slot :: "nat \<Rightarrow> nat \<Rightarrow> nat \<Rightarrow> kernel \<Rightarrow> nat kres" where
  "dirlink_slot sz dp off s =
     (if off < sz then
        rbind (readi dp (of_nat off) 16 s) (\<lambda>((r, de), s).
        if r \<noteq> 16 then Panic ''dirlink read''
        else if de_inum de = 0 then Ok (off, s)
        else dirlink_slot sz dp (off + 16) s)
      else Ok (off, s))"
  by pat_completeness auto
termination by (relation "measure (\<lambda>(sz, _, off, _). sz - off)") auto

declare dirlink_slot.simps [simp del]

definition dirlink :: "nat \<Rightarrow> u8 list \<Rightarrow> u32 \<Rightarrow> kernel \<Rightarrow> int kres" where
  "dirlink dp name inum s =
     rbind (dirlookup dp name s) (\<lambda>(r, s).
     case r of
       Some (ip, _) \<Rightarrow> rbind (iput ip s) (\<lambda>s. Ok (- 1, s))
     | None \<Rightarrow>
         rbind (dirlink_slot (unat (ip_size (icache s ! dp))) dp 0 s) (\<lambda>(off, s).
         rbind (writei dp (mk_dirent (ucast inum) name) (of_nat off) 16 s) (\<lambda>(w, s).
         if w \<noteq> 16 then Panic ''dirlink'' else Ok (0, s))))"

section \<open>Paths\<close>

definition SLASH :: u8 where [simp, const_defs]: "SLASH = 47"

definition skipelem :: "u8 list \<Rightarrow> (u8 list \<times> u8 list) option" where
  "skipelem path =
     (let path = dropWhile (\<lambda>c. c = SLASH) path in
      if path = [] then None
      else
        let s = takeWhile (\<lambda>c. c \<noteq> SLASH) path;
            path = dropWhile (\<lambda>c. c \<noteq> SLASH) path;
            name = (if length s \<ge> DIRSIZ then take DIRSIZ s else s) in
        Some (name, dropWhile (\<lambda>c. c = SLASH) path))"

lemma length_dropWhile: "length (dropWhile P xs) \<le> length xs"
  by (induction xs) auto

lemma skipelem_Some:
  "skipelem path = Some (name, rest) \<longleftrightarrow> (let p = dropWhile (\<lambda>c. c = SLASH) path in p \<noteq> [] \<and>
     name = take DIRSIZ (takeWhile (\<lambda>c. c \<noteq> SLASH) p) \<and>
     rest = dropWhile (\<lambda>c. c = SLASH) (dropWhile (\<lambda>c. c \<noteq> SLASH) p))"
  unfolding skipelem_def Let_def by (auto simp del: dropWhile_eq_Nil_conv)

lemma skipelem_shorter: "skipelem path = Some (name, rest) \<Longrightarrow> length rest < length path"
proof -
  assume *: "skipelem path = Some (name, rest)"
  define p where "p = dropWhile (\<lambda>c. c = SLASH) path"
  from * have ne: "p \<noteq> []" and rest: "rest = dropWhile (\<lambda>c. c = SLASH) (dropWhile (\<lambda>c. c \<noteq> SLASH) p)"
    unfolding skipelem_Some Let_def p_def by blast+
  have hd: "hd p \<noteq> SLASH" using ne hd_dropWhile [of "\<lambda>c. c = SLASH" path] unfolding p_def by blast
  have "length rest \<le> length (dropWhile (\<lambda>c. c \<noteq> SLASH) p)" unfolding rest by (rule length_dropWhile)
  also have "\<dots> < length p"
    using ne hd by (cases p) (simp_all add: le_imp_less_Suc length_dropWhile)
  also have "\<dots> \<le> length path" unfolding p_def by (rule length_dropWhile)
  finally show ?thesis .
qed

text \<open>The walk: the inode it ends at, and the last element when the parent is wanted.\<close>

function namex_loop :: "bool \<Rightarrow> nat \<Rightarrow> u8 list \<Rightarrow> u8 list \<Rightarrow> kernel \<Rightarrow> (nat option \<times> u8 list) kres" where
  "namex_loop parent ip path name s =
     (case skipelem path of
        None \<Rightarrow>
          if parent then rbind (iput ip s) (\<lambda>s. Ok ((None, name), s)) else Ok ((Some ip, name), s)
      | Some (name, path) \<Rightarrow>
          rbind (ilock (Some ip) s) (\<lambda>s.
          if ip_type (icache s ! ip) \<noteq> T_DIR then rbind (iunlockput ip s) (\<lambda>s. Ok ((None, name), s))
          else if parent \<and> path = [] then rbind (iunlock (Some ip) s) (\<lambda>s. Ok ((Some ip, name), s))
          else rbind (dirlookup ip name s) (\<lambda>(r, s).
            case r of
              None \<Rightarrow> rbind (iunlockput ip s) (\<lambda>s. Ok ((None, name), s))
            | Some (next, _) \<Rightarrow>
                rbind (iunlockput ip s) (\<lambda>s. namex_loop parent next path name s))))"
  by pat_completeness auto
termination
  by (relation "measure (\<lambda>(_, _, path, _, _). length path)") (auto dest: skipelem_shorter)

declare namex_loop.simps [simp del]

definition namex :: "u8 list \<Rightarrow> bool \<Rightarrow> kernel \<Rightarrow> (nat option \<times> u8 list) kres" where
  "namex path parent s =
     rbind (if path \<noteq> [] \<and> hd path = SLASH then iget ROOTDEV ROOTINO s
            else rbind (curproc s) (\<lambda>p.
              case p_cwd (procs s ! p) of
                None \<Rightarrow> Undef ''null cwd''
              | Some c \<Rightarrow> idup c s)) (\<lambda>(ip, s).
     namex_loop parent ip path [] s)"

definition namei :: "u8 list \<Rightarrow> kernel \<Rightarrow> nat option kres" where
  "namei path s = rbind (namex path False s) (\<lambda>((ip, _), s). Ok (ip, s))"

definition nameiparent :: "u8 list \<Rightarrow> kernel \<Rightarrow> (nat option \<times> u8 list) kres" where
  "nameiparent path s = namex path True s"

end
