(* ===== verification/File.thy ===== *)
theory File
  imports Fs
begin

text \<open>
  Pipes and open files (\<open>pipe.c\<close>, \<open>file.c\<close>). A pipe lives in a page from \<open>kalloc\<close>; the
  object at page \<open>p\<close> is \<open>pipes s p\<close>. \<open>struct file *\<close> is an index into \<open>ftable\<close>. Reading
  delivers a list of bytes and writing consumes one.
\<close>

section \<open>Pipes\<close>

definition PIPESIZE :: u32 where [simp, const_defs]: "PIPESIZE = 512"

definition the_pipe :: "u32 \<Rightarrow> kernel \<Rightarrow> (kernel, pipe) res" where
  "the_pipe p s = (case pipes s p of None \<Rightarrow> Undef ''pipe'' | Some x \<Rightarrow> Ok x)"

definition set_pipe :: "u32 \<Rightarrow> pipe \<Rightarrow> kernel \<Rightarrow> kernel" where
  "set_pipe p x s = s\<lparr>pipes := (pipes s)(p := Some x)\<rparr>"

definition pipeclose :: "u32 \<Rightarrow> bool \<Rightarrow> kernel \<Rightarrow> (kernel, kernel) res" where
  "pipeclose p writable s =
     rbind (acquire (L_pipe p) s) (\<lambda>s.
     rbind (the_pipe p s) (\<lambda>x.
     rbind (if writable then wakeup (C_nread p) (set_pipe p (x\<lparr>pi_writeopen := False\<rparr>) s)
            else wakeup (C_nwrite p) (set_pipe p (x\<lparr>pi_readopen := False\<rparr>) s)) (\<lambda>s.
     rbind (the_pipe p s) (\<lambda>x.
     if \<not> pi_readopen x \<and> \<not> pi_writeopen x
     then rbind (release (L_pipe p) s) (\<lambda>s. kfree p (s\<lparr>pipes := (pipes s)(p := None)\<rparr>))
     else release (L_pipe p) s))))"

text \<open>\<open>pipewrite\<close> on a pipe object: bytes are stored as long as there is room.\<close>

definition pipe_put :: "u8 \<Rightarrow> pipe \<Rightarrow> pipe" where
  "pipe_put c x = x\<lparr>pi_data := (pi_data x)[unat (pi_nwrite x mod PIPESIZE) := c],
     pi_nwrite := pi_nwrite x + 1\<rparr>"

fun pipewrite_loop :: "u32 \<Rightarrow> u8 list \<Rightarrow> kernel \<Rightarrow> bool kres" where
  "pipewrite_loop p [] s = Ok (True, s)"
| "pipewrite_loop p (c # cs) s =
     rbind (the_pipe p s) (\<lambda>x.
     if pi_nwrite x = pi_nread x + PIPESIZE then
       rbind (curproc s) (\<lambda>q.
       if \<not> pi_readopen x \<or> p_killed (procs s ! q) then Ok (False, s)
       else rbind (wakeup (C_nread p) s) (sleep (C_nwrite p) (L_pipe p)))
     else pipewrite_loop p cs (set_pipe p (pipe_put c x) s))"

definition pipewrite :: "u32 \<Rightarrow> u8 list \<Rightarrow> kernel \<Rightarrow> int kres" where
  "pipewrite p bs s =
     rbind (acquire (L_pipe p) s) (\<lambda>s.
     rbind (pipewrite_loop p bs s) (\<lambda>(ok, s).
     if ok then rbind (wakeup (C_nread p) s) (\<lambda>s.
       rbind (release (L_pipe p) s) (\<lambda>s. Ok (int (length bs), s)))
     else rbind (release (L_pipe p) s) (\<lambda>s. Ok (- 1, s))))"

fun pipe_take :: "nat \<Rightarrow> pipe \<Rightarrow> u8 list \<times> pipe" where
  "pipe_take 0 x = ([], x)"
| "pipe_take (Suc n) x =
     (if pi_nread x = pi_nwrite x then ([], x)
      else
        let c = pi_data x ! unat (pi_nread x mod PIPESIZE);
            (bs, y) = pipe_take n (x\<lparr>pi_nread := pi_nread x + 1\<rparr>) in
        (c # bs, y))"

definition piperead :: "u32 \<Rightarrow> int \<Rightarrow> kernel \<Rightarrow> (int \<times> u8 list) kres" where
  "piperead p n s =
     rbind (acquire (L_pipe p) s) (\<lambda>s.
     rbind (the_pipe p s) (\<lambda>x.
     if pi_nread x = pi_nwrite x \<and> pi_writeopen x then
       rbind (curproc s) (\<lambda>q.
       if p_killed (procs s ! q) then rbind (release (L_pipe p) s) (\<lambda>s. Ok ((- 1, []), s))
       else sleep (C_nread p) (L_pipe p) s)
     else
       let (bs, y) = pipe_take (nat n) x in
       rbind (wakeup (C_nwrite p) (set_pipe p y s)) (\<lambda>s.
       rbind (release (L_pipe p) s) (\<lambda>s. Ok ((int (length bs), bs), s)))))"

section \<open>Open files\<close>

definition upd_file :: "nat \<Rightarrow> (kfile \<Rightarrow> kfile) \<Rightarrow> kernel \<Rightarrow> kernel" where
  "upd_file f g s = s\<lparr>ftable := (ftable s)[f := g (ftable s ! f)]\<rparr>"

definition fileinit :: "kernel \<Rightarrow> kernel" where
  "fileinit s = s\<lparr>locks := (locks s)(L_ftable := False)\<rparr>"

definition filealloc :: "kernel \<Rightarrow> nat option kres" where
  "filealloc s =
     rbind (acquire L_ftable s) (\<lambda>s.
     case find_from (\<lambda>i. f_ref (ftable s ! i) = 0) 0 NFILE of
       Some i \<Rightarrow> rbind (release L_ftable (upd_file i (\<lambda>f. f\<lparr>f_ref := 1\<rparr>) s)) (\<lambda>s. Ok (Some i, s))
     | None \<Rightarrow> rbind (release L_ftable s) (\<lambda>s. Ok (None, s)))"

definition filedup :: "nat \<Rightarrow> kernel \<Rightarrow> nat kres" where
  "filedup f s =
     rbind (acquire L_ftable s) (\<lambda>s.
     if f_ref (ftable s ! f) < 1 then Panic ''filedup''
     else rbind (release L_ftable (upd_file f (\<lambda>f. f\<lparr>f_ref := f_ref f + 1\<rparr>) s)) (\<lambda>s. Ok (f, s)))"

definition fileclose :: "nat \<Rightarrow> kernel \<Rightarrow> (kernel, kernel) res" where
  "fileclose f s =
     rbind (acquire L_ftable s) (\<lambda>s.
     if f_ref (ftable s ! f) < 1 then Panic ''fileclose''
     else
       let s = upd_file f (\<lambda>f. f\<lparr>f_ref := f_ref f - 1\<rparr>) s in
       if f_ref (ftable s ! f) > 0 then release L_ftable s
       else
         let ff = ftable s ! f in
         rbind (release L_ftable (upd_file f (\<lambda>f. f\<lparr>f_ref := 0, f_type := FD_NONE\<rparr>) s)) (\<lambda>s.
         case f_type ff of
           FD_PIPE \<Rightarrow> pipeclose (f_pipe ff) (f_writable ff \<noteq> 0) s
         | FD_INODE \<Rightarrow>
             rbind (begin_op s) (\<lambda>s.
             case f_ip ff of
               None \<Rightarrow> Undef ''null inode''
             | Some ip \<Rightarrow> rbind (iput ip s) end_op)
         | FD_NONE \<Rightarrow> Ok s))"

definition filestat :: "nat \<Rightarrow> kernel \<Rightarrow> (int \<times> stat option) kres" where
  "filestat f s =
     (if f_type (ftable s ! f) = FD_INODE then
        rbind (ilock (f_ip (ftable s ! f)) s) (\<lambda>s.
        let st = map_option (\<lambda>i. stati i s) (f_ip (ftable s ! f)) in
        rbind (iunlock (f_ip (ftable s ! f)) s) (\<lambda>s. Ok ((0, st), s)))
      else Ok ((- 1, None), s))"

definition fileread :: "nat \<Rightarrow> int \<Rightarrow> kernel \<Rightarrow> (int \<times> u8 list) kres" where
  "fileread f n s =
     (let fl = ftable s ! f in
      if f_readable fl = 0 then Ok ((- 1, []), s)
      else case f_type fl of
        FD_PIPE \<Rightarrow> piperead (f_pipe fl) n s
      | FD_INODE \<Rightarrow>
          rbind (ilock (f_ip fl) s) (\<lambda>s.
          case f_ip fl of
            None \<Rightarrow> Undef ''null inode''
          | Some ip \<Rightarrow>
              rbind (readi ip (f_off fl) (word_of_int n) s) (\<lambda>((r, bs), s).
              let s = (if r > 0 then upd_file f (\<lambda>f. f\<lparr>f_off := f_off f + word_of_int r\<rparr>) s else s) in
              rbind (iunlock (Some ip) s) (\<lambda>s. Ok ((r, bs), s))))
      | FD_NONE \<Rightarrow> Panic ''fileread'')"

text \<open>The loop of \<open>filewrite\<close> writes at most three blocks per transaction; \<open>bs\<close> is what is
  left to write. The result says whether everything was written.\<close>

definition FILEWRITE_MAX :: nat where
  [const_defs]: "FILEWRITE_MAX = ((MAXOPBLOCKS - 1 - 1 - 2) div 2) * 512"

function filewrite_loop :: "nat \<Rightarrow> nat \<Rightarrow> u8 list \<Rightarrow> kernel \<Rightarrow> bool kres" where
  "filewrite_loop f ip bs s =
     (if bs \<noteq> [] then
        let n1 = min (length bs) FILEWRITE_MAX in
        rbind (begin_op s) (\<lambda>s.
        rbind (ilock (Some ip) s) (\<lambda>s.
        rbind (writei ip (take n1 bs) (f_off (ftable s ! f)) (of_nat n1) s) (\<lambda>(r, s).
        let s = (if r > 0 then upd_file f (\<lambda>f. f\<lparr>f_off := f_off f + word_of_int r\<rparr>) s else s) in
        rbind (iunlock (Some ip) s) (\<lambda>s.
        rbind (end_op s) (\<lambda>s.
        if r < 0 then Ok (False, s)
        else if r \<noteq> int n1 then Panic ''short filewrite''
        else filewrite_loop f ip (drop n1 bs) s)))))
      else Ok (True, s))"
  by pat_completeness auto
termination
  by (relation "measure (\<lambda>(_, _, bs, _). length bs)") (auto simp: FILEWRITE_MAX_def)

declare filewrite_loop.simps [simp del]

definition filewrite :: "nat \<Rightarrow> u8 list \<Rightarrow> kernel \<Rightarrow> int kres" where
  "filewrite f bs s =
     (let fl = ftable s ! f in
      if f_writable fl = 0 then Ok (- 1, s)
      else case f_type fl of
        FD_PIPE \<Rightarrow> pipewrite (f_pipe fl) bs s
      | FD_INODE \<Rightarrow>
          (case f_ip fl of
             None \<Rightarrow> if bs = [] then Ok (0, s) else rbind (begin_op s) (\<lambda>s. Panic ''ilock'')
           | Some ip \<Rightarrow>
               rbind (filewrite_loop f ip bs s) (\<lambda>(ok, s). Ok (if ok then int (length bs) else - 1, s)))
      | FD_NONE \<Rightarrow> Panic ''filewrite'')"

section \<open>Creating a pipe\<close>

definition pipe_close_both :: "nat option \<Rightarrow> nat option \<Rightarrow> kernel \<Rightarrow> (kernel, kernel) res" where
  "pipe_close_both f0 f1 s =
     rbind (case f0 of None \<Rightarrow> Ok s | Some f \<Rightarrow> fileclose f s) (\<lambda>s.
     case f1 of None \<Rightarrow> Ok s | Some f \<Rightarrow> fileclose f s)"

definition pipealloc :: "kernel \<Rightarrow> (int \<times> nat option \<times> nat option) kres" where
  "pipealloc s =
     rbind (filealloc s) (\<lambda>(f0, s).
     case f0 of
       None \<Rightarrow> Ok ((- 1, None, None), s)
     | Some i0 \<Rightarrow>
     rbind (filealloc s) (\<lambda>(f1, s).
     case f1 of
       None \<Rightarrow> rbind (pipe_close_both f0 f1 s) (\<lambda>s. Ok ((- 1, f0, f1), s))
     | Some i1 \<Rightarrow>
     rbind (kalloc s) (\<lambda>(p, s).
     if p = 0 then rbind (pipe_close_both f0 f1 s) (\<lambda>s. Ok ((- 1, f0, f1), s))
     else
       let s = set_pipe p \<lparr>pi_data = map (mem s) (map (\<lambda>i. p + of_nat i) [52..<564]), pi_nread = 0,
             pi_nwrite = 0, pi_readopen = True, pi_writeopen = True\<rparr> s;
           s = s\<lparr>locks := (locks s)(L_pipe p := False)\<rparr>;
           s = upd_file i0 (\<lambda>f. f\<lparr>f_type := FD_PIPE, f_readable := 1, f_writable := 0, f_pipe := p\<rparr>) s;
           s = upd_file i1 (\<lambda>f. f\<lparr>f_type := FD_PIPE, f_readable := 0, f_writable := 1, f_pipe := p\<rparr>) s in
       Ok ((0, f0, f1), s))))"

section \<open>A pipe is a queue of bytes\<close>

definition pipe_ok :: "pipe \<Rightarrow> bool" where
  [inv_defs]: "pipe_ok x \<longleftrightarrow> length (pi_data x) = 512 \<and> unat (pi_nwrite x - pi_nread x) \<le> 512"

definition pipe_list :: "pipe \<Rightarrow> u8 list" where
  "pipe_list x = map (\<lambda>i. pi_data x ! ((unat (pi_nread x) + i) mod 512)) [0..<unat (pi_nwrite x - pi_nread x)]"

text \<open>The counters may wrap around: the size of the ring divides \<open>2\<^sup>3\<^sup>2\<close>.\<close>

lemma ring_index: "unat ((r + of_nat i) mod PIPESIZE :: u32) = (unat r + i) mod 512"
proof -
  have "unat ((r + of_nat i) mod PIPESIZE :: u32) = (unat r + i) mod 2 ^ 32 mod 512"
    by (simp add: unat_mod unat_word_ariths(1) unsigned_of_nat take_bit_eq_mod mod_add_right_eq)
  also have "\<dots> = (unat r + i) mod 512" by (rule mod_mod_cancel) simp
  finally show ?thesis .
qed

lemma ring_index0: "unat (r mod PIPESIZE :: u32) = unat r mod 512"
  using ring_index [of r 0] by simp

lemma mod_ring_neq: "i < k \<Longrightarrow> k < 512 \<Longrightarrow> (r + i) mod 512 \<noteq> (r + k) mod (512 :: nat)"
proof
  assume i: "i < k" "k < 512" and "(r + i) mod 512 = (r + k) mod (512 :: nat)"
  then have "512 dvd (r + k) - (r + i)" by (metis add_le_cancel_left less_imp_le mod_eq_dvd_iff_nat)
  then have "512 dvd k - i" by simp
  then show False using i by (auto dest: dvd_imp_le)
qed

lemma pipe_list_length: "length (pipe_list x) = unat (pi_nwrite x - pi_nread x)"
  by (simp add: pipe_list_def)

lemma nwrite_eq: "pi_nwrite x = pi_nread x + of_nat (length (pipe_list x))"
  by (simp add: pipe_list_length)

lemma pipe_full: "pipe_ok x \<Longrightarrow> pi_nwrite x = pi_nread x + PIPESIZE \<longleftrightarrow> length (pipe_list x) = 512"
proof -
  have "pi_nwrite x = pi_nread x + PIPESIZE \<longleftrightarrow> pi_nwrite x - pi_nread x = 512"
    by (auto simp: algebra_simps)
  also have "\<dots> \<longleftrightarrow> length (pipe_list x) = 512" by (simp add: pipe_list_length word_unat_eq_iff)
  finally show ?thesis .
qed

lemma pipe_put_list:
  assumes "pipe_ok x" "length (pipe_list x) < 512"
  shows "pipe_ok (pipe_put c x)" "pipe_list (pipe_put c x) = pipe_list x @ [c]"
proof -
  define k where "k = length (pipe_list x)"
  let ?k = k and ?r = "unat (pi_nread x)"
  note nw = nwrite_eq [of x, folded k_def] and lt = assms(2) [folded k_def]
  have d: "pi_nwrite x + 1 - pi_nread x = of_nat (Suc ?k)" using nw by simp
  have n: "unat (of_nat (Suc ?k) :: u32) = Suc ?k" using lt by (simp only: unsigned_of_nat take_bit_eq_mod) simp
  have i: "unat (pi_nwrite x mod PIPESIZE) = (?r + ?k) mod 512"
    using ring_index [of "pi_nread x" ?k] nw by simp
  show "pipe_ok (pipe_put c x)" using assms(1) lt by (simp only: pipe_ok_def pipe_put_def) (simp add: d n del: of_nat_Suc)
  have "pipe_list (pipe_put c x) =
      map (\<lambda>i. (pi_data x)[(?r + ?k) mod 512 := c] ! ((?r + i) mod 512)) [0..<Suc ?k]"
    by (simp add: pipe_list_def pipe_put_def i d n del: of_nat_Suc upt_Suc PIPESIZE_def)
  also have "\<dots> = map (\<lambda>i. pi_data x ! ((?r + i) mod 512)) [0..<?k] @ [c]"
    using assms(1) lt mod_ring_neq [of _ ?k ?r, THEN not_sym] by (simp add: pipe_ok_def nth_list_update_neq)
  finally show "pipe_list (pipe_put c x) = pipe_list x @ [c]" by (simp add: pipe_list_def k_def)
qed

lemma pipe_take_list:
  "pipe_ok x \<Longrightarrow> pipe_take n x = (bs, y) \<Longrightarrow> bs = take n (pipe_list x) \<and> pipe_list y = drop n (pipe_list x) \<and> pipe_ok y \<and>
     pi_readopen y = pi_readopen x \<and> pi_writeopen y = pi_writeopen x"
proof (induction n arbitrary: x bs y)
  case (Suc n)
  show ?case
  proof (cases "pi_nread x = pi_nwrite x")
    case True
    then have "pipe_list x = []" "bs = []" "y = x" using Suc.prems(2) by (simp_all add: pipe_list_def)
    then show ?thesis using Suc.prems(1) by simp
  next
    case False
    let ?x = "x\<lparr>pi_nread := pi_nread x + 1\<rparr>" and ?k = "length (pipe_list x)"
    have "?k \<noteq> 0" using False by (simp add: pipe_list_length unat_eq_0)
    then obtain m where m: "?k = Suc m" by (cases ?k) auto
    have w: "unat (pi_nwrite x - (pi_nread x + 1)) = m"
    proof -
      have "pi_nwrite x - (pi_nread x + 1) = of_nat m" using nwrite_eq [of x] m by simp
      moreover have "m < 512" using m Suc.prems(1) by (simp add: pipe_ok_def pipe_list_length)
      ultimately show ?thesis by (simp add: unsigned_of_nat take_bit_eq_mod)
    qed
    have ok: "pipe_ok ?x" using Suc.prems(1) w m by (simp add: pipe_ok_def pipe_list_length)
    have idx: "(unat (pi_nread x + 1) + i) mod 512 = (unat (pi_nread x) + Suc i) mod 512" for i
      using ring_index [of "pi_nread x + 1" i] ring_index [of "pi_nread x" "Suc i"] by (simp add: algebra_simps)
    have "unat (pi_nwrite x - pi_nread x) = Suc m" using m by (simp add: pipe_list_length)
    then have l: "pipe_list x = pi_data x ! (unat (pi_nread x) mod 512) # pipe_list ?x"
      using w by (simp add: pipe_list_def idx map_upt_Suc del: upt_Suc)
    obtain bs' where "pipe_take n ?x = (bs', y)" "bs = pi_data x ! (unat (pi_nread x) mod 512) # bs'"
      using Suc.prems(2) False ring_index0 [of "pi_nread x"] by (auto split: prod.splits simp del: PIPESIZE_def)
    then show ?thesis using Suc.IH [OF ok] l by simp
  qed
qed simp

lemma pipewrite_loop_list:
  assumes "pipes s p = Some x" "pipe_ok x" "length (pipe_list x) + length bs \<le> 512"
  shows "\<exists>y. pipewrite_loop p bs s = Ok (True, if bs = [] then s else set_pipe p y s) \<and> pipe_ok y \<and> pipe_list y = pipe_list x @ bs \<and>
    (bs = [] \<longrightarrow> y = x)"
  using assms
proof (induction bs arbitrary: s x)
  case (Cons b bs)
  have lt: "length (pipe_list x) < 512" using Cons.prems by simp
  note put = pipe_put_list [OF Cons.prems(2) lt, of b]
  let ?s = "set_pipe p (pipe_put b x) s"
  obtain y where y: "pipewrite_loop p bs ?s = Ok (True, if bs = [] then ?s else set_pipe p y ?s)" "pipe_ok y"
    "pipe_list y = pipe_list (pipe_put b x) @ bs" "bs = [] \<longrightarrow> y = pipe_put b x"
    using Cons.IH [of ?s "pipe_put b x"] put Cons.prems by (auto simp: set_pipe_def)
  have "set_pipe p y ?s = set_pipe p y s" by (simp add: set_pipe_def)
  moreover have "pi_nwrite x \<noteq> pi_nread x + PIPESIZE" using pipe_full [OF Cons.prems(2)] lt by simp
  ultimately have "pipewrite_loop p (b # bs) s = Ok (True, set_pipe p y s)"
    using y(1,4) Cons.prems(1) by (auto simp: the_pipe_def)
  then show ?case using y put by auto
qed (auto simp: set_pipe_def)

text \<open>C26 [pipe_write_appends]: writing to a pipe with room for all the bytes returns their number and
  appends them, in order, to the bytes in the pipe, also when the counters wrap around.\<close>

theorem pipe_write_appends:
  assumes "unlocked s" "pipes s p = Some x" "pipe_ok x" "length (pipe_list x) + length bs \<le> 512"
  shows "\<exists>s' y. pipewrite p bs s = Ok (int (length bs), s') \<and> pipes s' p = Some y \<and> pipe_ok y \<and>
    pipe_list y = pipe_list x @ bs \<and> unlocked s'"
proof -
  let ?s = "s\<lparr>locks := (locks s)(L_pipe p := True), ncli := ncli s + 1\<rparr>"
  obtain y where y: "pipewrite_loop p bs ?s = Ok (True, if bs = [] then ?s else set_pipe p y ?s)" "pipe_ok y"
    "pipe_list y = pipe_list x @ bs" "bs = [] \<longrightarrow> y = x"
    using pipewrite_loop_list [of ?s p x bs] assms by auto
  have a: "acquire (L_pipe p) s = Ok ?s" using assms(1) by simp
  have l: "\<not> locks ?s L_ptable" "\<not> locks (set_pipe p y ?s) L_ptable" using assms(1) by (simp_all add: set_pipe_def)
  show ?thesis
    using y assms(1,2) l a
    by (cases "bs = []") (auto simp: pipewrite_def a set_pipe_def wakeup1_def unlocked_def)
qed

definition pipe_sample :: kernel where
  "pipe_sample = kernel0\<lparr>pipes := [0x80200000 \<mapsto> \<lparr>pi_data = replicate 512 0, pi_nread = 0xFFFFFFFF,
     pi_nwrite = 0xFFFFFFFF, pi_readopen = True, pi_writeopen = True\<rparr>]\<rparr>"

theorem pipe_write_appends_witness:
  "\<exists>s' y. pipewrite 0x80200000 [1, 2, 3] pipe_sample = Ok (3, s') \<and> pipes s' 0x80200000 = Some y \<and> pipe_list y = [1, 2, 3]"
proof -
  have "unlocked pipe_sample" by (simp add: pipe_sample_def kernel0_def unlocked_def)
  then show ?thesis
    using pipe_write_appends [of pipe_sample "0x80200000" _ "[1, 2, 3]"]
    by (fastforce simp: pipe_sample_def pipe_ok_def pipe_list_def)
qed

text \<open>C27 [pipe_read_takes]: reading up to \<open>n\<close> bytes from a pipe that is not empty, or whose writers are
  gone, returns the oldest bytes, as many as there are, and leaves the others.\<close>

theorem pipe_read_takes:
  assumes "unlocked s" "pipes s p = Some x" "pipe_ok x" "pipe_list x \<noteq> [] \<or> \<not> pi_writeopen x"
  shows "\<exists>s' y. piperead p (int n) s = Ok ((int (length (take n (pipe_list x))), take n (pipe_list x)), s') \<and>
    pipes s' p = Some y \<and> pipe_ok y \<and> pipe_list y = drop n (pipe_list x) \<and> unlocked s'"
proof -
  let ?s = "s\<lparr>locks := (locks s)(L_pipe p := True), ncli := ncli s + 1\<rparr>"
  obtain bs y where t: "pipe_take n x = (bs, y)" by fastforce
  note y = pipe_take_list [OF assms(3) t]
  have a: "acquire (L_pipe p) s = Ok ?s" using assms(1) by simp
  have "\<not> (pi_nread x = pi_nwrite x \<and> pi_writeopen x)" using assms(4) by (auto simp: pipe_list_def)
  moreover have "\<not> locks (set_pipe p y ?s) L_ptable" using assms(1) by (simp add: set_pipe_def)
  ultimately show ?thesis
    using y assms(1,2) by (auto simp: piperead_def a the_pipe_def t set_pipe_def wakeup1_def unlocked_def)
qed

definition pipe_sample2 :: kernel where
  "pipe_sample2 = kernel0\<lparr>pipes := [0x80200000 \<mapsto> \<lparr>pi_data = [8, 9] @ replicate 510 0, pi_nread = 0,
     pi_nwrite = 2, pi_readopen = True, pi_writeopen = True\<rparr>]\<rparr>"

theorem pipe_read_takes_witness:
  "\<exists>s' y. piperead 0x80200000 1 pipe_sample2 = Ok ((1, [8]), s') \<and> pipes s' 0x80200000 = Some y \<and> pipe_list y = [9]"
proof -
  let ?x = "\<lparr>pi_data = [8, 9] @ replicate 510 0, pi_nread = 0, pi_nwrite = 2, pi_readopen = True, pi_writeopen = True\<rparr>"
  have "unlocked pipe_sample2" "pipes pipe_sample2 0x80200000 = Some ?x"
    by (simp_all add: pipe_sample2_def kernel0_def unlocked_def)
  moreover have "pipe_list ?x = [8, 9]" "pipe_ok ?x" by (simp_all add: pipe_list_def pipe_ok_def upt_rec)
  ultimately show ?thesis using pipe_read_takes [of pipe_sample2 "0x80200000" ?x 1] by fastforce
qed

end
