(* ===== verification/Pgtable.thy ===== *)
theory Pgtable
  imports Ptable
begin

text \<open>
  Two-level page tables (the first half of \<open>vm.c\<close>): \<open>walkpgdir\<close>, \<open>mappages\<close>,
  \<open>clearpteu\<close>, \<open>uva2ka\<close>, \<open>copyout\<close> and the kernel mappings. A page directory is a page
  of memory; a page table entry is a word of memory, and \<open>pte_t *\<close> is its address, with 0
  for the null pointer.
\<close>

section \<open>The code\<close>

definition walkpgdir :: "u32 \<Rightarrow> u32 \<Rightarrow> bool \<Rightarrow> kernel \<Rightarrow> u32 kres" where
  "walkpgdir pgdir va alloc s =
     (let pde = pgdir + 4 * PDX va in
      if load32 (mem s) pde AND PTE_P \<noteq> 0
      then Ok (P2V (PTE_ADDR (load32 (mem s) pde)) + 4 * PTX va, s)
      else if \<not> alloc then Ok (0, s)
      else rbind (kalloc s) (\<lambda>(pgtab, s).
        if pgtab = 0 then Ok (0, s)
        else
          let s = s\<lparr>mem := memset (mem s) pgtab 0 PGSIZE\<rparr>;
              s = s\<lparr>mem := store32 (mem s) pde (V2P pgtab OR PTE_P OR PTE_W OR PTE_U)\<rparr> in
          Ok (pgtab + 4 * PTX va, s)))"

definition walkpgdir_global :: "u32 \<Rightarrow> u32 \<Rightarrow> bool \<Rightarrow> kernel \<Rightarrow> u32 kres" where
  "walkpgdir_global pgdir va alloc s = walkpgdir pgdir va alloc s"

text \<open>\<open>*pte\<close> and \<open>*pte = w\<close>.\<close>

definition get_pte :: "u32 \<Rightarrow> kernel \<Rightarrow> (kernel, u32) res" where
  "get_pte pte s = (if pte = 0 then Undef ''null pte'' else Ok (load32 (mem s) pte))"

definition set_pte :: "u32 \<Rightarrow> u32 \<Rightarrow> kernel \<Rightarrow> (kernel, kernel) res" where
  "set_pte pte w s =
     (if pte = 0 then Undef ''null pte'' else Ok (s\<lparr>mem := store32 (mem s) pte w\<rparr>))"

text \<open>One round of the loop of \<open>mappages\<close>; the loop itself, which leaves when \<open>a == last\<close>.
  Both addresses are page aligned, so it takes \<open>(last - a) / PGSIZE\<close> further rounds, modulo
  the size of the address space.\<close>

definition mappages_one :: "u32 \<Rightarrow> u32 \<Rightarrow> u32 \<Rightarrow> u32 \<Rightarrow> kernel \<Rightarrow> int kres" where
  "mappages_one pgdir a pa perm s =
     rbind (walkpgdir pgdir a True s) (\<lambda>(pte, s).
     if pte = 0 then Ok (- 1, s)
     else if load32 (mem s) pte AND PTE_P \<noteq> 0 then Panic ''remap''
     else Ok (0, s\<lparr>mem := store32 (mem s) pte (pa OR perm OR PTE_P)\<rparr>))"

fun mappages_loop :: "nat \<Rightarrow> u32 \<Rightarrow> u32 \<Rightarrow> u32 \<Rightarrow> u32 \<Rightarrow> kernel \<Rightarrow> int kres" where
  "mappages_loop 0 pgdir a pa perm s = mappages_one pgdir a pa perm s"
| "mappages_loop (Suc n) pgdir a pa perm s =
     rbind (mappages_one pgdir a pa perm s) (\<lambda>(r, s).
     if r < 0 then Ok (r, s)
     else mappages_loop n pgdir (a + PGSIZE) (pa + PGSIZE) perm s)"

definition mappages :: "u32 \<Rightarrow> u32 \<Rightarrow> u32 \<Rightarrow> u32 \<Rightarrow> u32 \<Rightarrow> kernel \<Rightarrow> int kres" where
  "mappages pgdir va sz pa perm s =
     (let a = PGROUNDDOWN va; last = PGROUNDDOWN (va + sz - 1) in
      mappages_loop (unat (last - a) div 4096) pgdir a pa perm s)"

definition mappages_global :: "u32 \<Rightarrow> u32 \<Rightarrow> u32 \<Rightarrow> u32 \<Rightarrow> u32 \<Rightarrow> kernel \<Rightarrow> int kres" where
  "mappages_global pgdir va sz pa perm s = mappages pgdir va sz pa perm s"

text \<open>The kernel's mappings: virtual address, physical start and end, permissions.\<close>

definition kmap :: "kernel \<Rightarrow> (u32 \<times> u32 \<times> u32 \<times> u32) list" where
  "kmap s =
     [(KERNBASE, 0, EXTMEM, PTE_W),
      (KERNLINK, V2P KERNLINK, V2P (k_data s), 0),
      (k_data s, V2P (k_data s), PHYSTOP, PTE_W),
      (DEVSPACE, DEVSPACE, 0, PTE_W)]"

definition switchkvm :: "kernel \<Rightarrow> kernel" where
  "switchkvm s = s\<lparr>cr3 := V2P (kpgdir s)\<rparr>"

definition switchuvm :: "nat option \<Rightarrow> kernel \<Rightarrow> (kernel, kernel) res" where
  "switchuvm p s =
     (case p of
        None \<Rightarrow> Panic ''switchuvm: no process''
      | Some p \<Rightarrow>
          if p_kstack (procs s ! p) = 0 then Panic ''switchuvm: no kstack''
          else if p_pgdir (procs s ! p) = 0 then Panic ''switchuvm: no pgdir''
          else Ok (s\<lparr>cr3 := V2P (p_pgdir (procs s ! p))\<rparr>))"

text \<open>\<open>init\<close> is the address of the initial code in the kernel image.\<close>

definition inituvm :: "u32 \<Rightarrow> u32 \<Rightarrow> u32 \<Rightarrow> kernel \<Rightarrow> (kernel, kernel) res" where
  "inituvm pgdir init sz s =
     (if sz \<ge> PGSIZE then Panic ''inituvm: more than a page''
      else rbind (kalloc s) (\<lambda>(m, s).
        let s = s\<lparr>mem := memset (mem s) m 0 PGSIZE\<rparr> in
        rbind (mappages pgdir 0 PGSIZE (V2P m) (PTE_W OR PTE_U) s) (\<lambda>(_, s).
        Ok (s\<lparr>mem := memmove (mem s) m init sz\<rparr>))))"

definition clearpteu :: "u32 \<Rightarrow> u32 \<Rightarrow> kernel \<Rightarrow> (kernel, kernel) res" where
  "clearpteu pgdir uva s =
     rbind (walkpgdir pgdir uva False s) (\<lambda>(pte, s).
     if pte = 0 then Panic ''clearpteu''
     else Ok (s\<lparr>mem := store32 (mem s) pte (load32 (mem s) pte AND NOT PTE_U)\<rparr>))"

definition uva2ka :: "u32 \<Rightarrow> u32 \<Rightarrow> kernel \<Rightarrow> u32 kres" where
  "uva2ka pgdir uva s =
     rbind (walkpgdir pgdir uva False s) (\<lambda>(pte, s).
     rbind (get_pte pte s) (\<lambda>w.
     if w AND PTE_P = 0 then Ok (0, s)
     else if w AND PTE_U = 0 then Ok (0, s)
     else Ok (P2V (PTE_ADDR w), s)))"

lemma page_rest_pos: "0 < (4096 :: u32) - (va - PGROUNDDOWN va)"
proof -
  have "PGROUNDDOWN va \<le> va" by (simp add: word_le_nat_alt unat_PGROUNDDOWN)
  then have "unat (va - PGROUNDDOWN va) = unat va - (unat va - unat va mod 4096)"
    by (simp add: unat_sub unat_PGROUNDDOWN)
  then have "unat (va - PGROUNDDOWN va) < 4096" by simp
  then have "unat (4096 - (va - PGROUNDDOWN va) :: u32) = 4096 - unat (va - PGROUNDDOWN va)"
    by (subst unat_sub) (simp_all add: word_le_nat_alt)
  with \<open>unat (va - PGROUNDDOWN va) < 4096\<close> show ?thesis by (simp add: word_less_nat_alt)
qed

text \<open>\<open>copyout\<close>, given the bytes at \<open>p\<close>: each round copies up to the end of a page.\<close>

fun store_bytes :: "memory \<Rightarrow> u32 \<Rightarrow> u8 list \<Rightarrow> memory" where
  "store_bytes m a [] = m"
| "store_bytes m a (b # bs) = store_bytes (m(a := b)) (a + 1) bs"

function copyout :: "u32 \<Rightarrow> u32 \<Rightarrow> u8 list \<Rightarrow> kernel \<Rightarrow> int kres" where
  "copyout pgdir va bs s =
     (if length bs > 0 then
        let va0 = PGROUNDDOWN va in
        rbind (uva2ka pgdir va0 s) (\<lambda>(pa0, s).
        if pa0 = 0 then Ok (- 1, s)
        else
          let n = min (unat (PGSIZE - (va - va0))) (length bs);
              s = s\<lparr>mem := store_bytes (mem s) (pa0 + (va - va0)) (take n bs)\<rparr> in
          copyout pgdir (va0 + PGSIZE) (drop n bs) s)
      else Ok (0, s))"
  by pat_completeness auto
termination
proof (relation "measure (\<lambda>(_, _, bs, _). length bs)", goal_cases)
  case (2 pgdir va bs s va0 x pa0 s' n s'')
  moreover from this have "0 < unat (PGSIZE - (va - va0))"
    using page_rest_pos [of va] by (simp add: word_less_nat_alt)
  ultimately show ?case by simp
qed simp

declare copyout.simps [simp del]

end
