(* ===== verification/Swap.thy ===== *)
theory Swap
  imports File Pgtable
begin

text \<open>
  Creating and unlinking names (\<open>sysfile.c\<close>: \<open>isdirempty\<close>, \<open>create\<close>, the body of
  \<open>sys_unlink\<close>) and the swap file of a process (\<open>fs.c\<close>, from \<open>itoa\<close> to
  \<open>readFromSwapFile\<close>); access to memory through the current page table.
\<close>

section \<open>Memory through the page table\<close>

text \<open>Where the hardware finds the byte at virtual address \<open>va\<close>: kernel addresses are mapped
  directly, user addresses through the tables of \<open>cr3\<close>. \<open>None\<close> is a page fault.\<close>

definition translate :: "kernel \<Rightarrow> u32 \<Rightarrow> u32 option" where
  "translate s va =
     (if va \<ge> KERNBASE then Some va
      else
        let pde = load32 (mem s) (P2V (cr3 s) + 4 * PDX va) in
        if pde AND PTE_P = 0 then None
        else
          let pte = load32 (mem s) (P2V (PTE_ADDR pde) + 4 * PTX va) in
          if pte AND PTE_P = 0 then None
          else Some (P2V (PTE_ADDR pte) + PTE_FLAGS va))"

text \<open>An access of the kernel that faults leaves the model: the fault handler would run first.\<close>

fun vread :: "kernel \<Rightarrow> u32 \<Rightarrow> nat \<Rightarrow> (kernel, u8 list) res" where
  "vread s va 0 = Ok []"
| "vread s va (Suc n) =
     (case translate s va of
        None \<Rightarrow> Undef ''page fault''
      | Some a \<Rightarrow> rbind (vread s (va + 1) n) (\<lambda>bs. Ok (mem s a # bs)))"

fun vwrite :: "u32 \<Rightarrow> u8 list \<Rightarrow> kernel \<Rightarrow> (kernel, kernel) res" where
  "vwrite va [] s = Ok s"
| "vwrite va (b # bs) s =
     (case translate s va of
        None \<Rightarrow> Undef ''page fault''
      | Some a \<Rightarrow> vwrite (va + 1) bs (s\<lparr>mem := (mem s)(a := b)\<rparr>))"

section \<open>Creating and unlinking\<close>

function isdirempty_loop :: "nat \<Rightarrow> nat \<Rightarrow> nat \<Rightarrow> kernel \<Rightarrow> bool kres" where
  "isdirempty_loop sz dp off s =
     (if off < sz then
        rbind (readi dp (of_nat off) 16 s) (\<lambda>((r, de), s).
        if r \<noteq> 16 then Panic ''isdirempty: readi''
        else if de_inum de \<noteq> 0 then Ok (False, s)
        else isdirempty_loop sz dp (off + 16) s)
      else Ok (True, s))"
  by pat_completeness auto
termination by (relation "measure (\<lambda>(sz, _, off, _). sz - off)") auto

declare isdirempty_loop.simps [simp del]

definition isdirempty :: "nat \<Rightarrow> kernel \<Rightarrow> bool kres" where
  "isdirempty dp s = isdirempty_loop (unat (ip_size (icache s ! dp))) dp 32 s"

definition dot :: "u8 list" where [simp]: "dot = [46]"
definition dotdot :: "u8 list" where [simp]: "dotdot = [46, 46]"

text \<open>What \<open>sys_unlink\<close> and \<open>removeSwapFile\<close> do from \<open>begin_op()\<close> on.\<close>

definition do_unlink :: "u8 list \<Rightarrow> kernel \<Rightarrow> int kres" where
  "do_unlink path s =
     rbind (begin_op s) (\<lambda>s.
     rbind (nameiparent path s) (\<lambda>((dp, name), s).
     case dp of
       None \<Rightarrow> rbind (end_op s) (\<lambda>s. Ok (- 1, s))
     | Some dp \<Rightarrow>
     let bad = (\<lambda>s. rbind (iunlockput dp s) (\<lambda>s. rbind (end_op s) (\<lambda>s. Ok (- 1, s)))) in
     rbind (ilock (Some dp) s) (\<lambda>s.
     if namecmp name dot = 0 \<or> namecmp name dotdot = 0 then bad s
     else rbind (dirlookup dp name s) (\<lambda>(r, s).
     case r of
       None \<Rightarrow> bad s
     | Some (ip, off) \<Rightarrow>
     rbind (ilock (Some ip) s) (\<lambda>s.
     if ip_nlink (icache s ! ip) < 1 then Panic ''unlink: nlink < 1''
     else rbind (if ip_type (icache s ! ip) = T_DIR then isdirempty ip s else Ok (True, s)) (\<lambda>(e, s).
     if \<not> e then rbind (iunlockput ip s) bad
     else rbind (writei dp (replicate 16 0) (of_nat off) 16 s) (\<lambda>(w, s).
     if w \<noteq> 16 then Panic ''unlink: writei''
     else rbind (if ip_type (icache s ! ip) = T_DIR
                 then iupdate dp (upd_inode dp (\<lambda>i. i\<lparr>ip_nlink := ip_nlink i - 1\<rparr>) s) else Ok s) (\<lambda>s.
     rbind (iunlockput dp s) (\<lambda>s.
     rbind (iupdate ip (upd_inode ip (\<lambda>i. i\<lparr>ip_nlink := ip_nlink i - 1\<rparr>) s)) (\<lambda>s.
     rbind (iunlockput ip s) (\<lambda>s.
     rbind (end_op s) (\<lambda>s. Ok (0, s)))))))))))))"

definition create :: "u8 list \<Rightarrow> int \<Rightarrow> int \<Rightarrow> int \<Rightarrow> kernel \<Rightarrow> nat option kres" where
  "create path type major minor s =
     rbind (nameiparent path s) (\<lambda>((dp, name), s).
     case dp of
       None \<Rightarrow> Ok (None, s)
     | Some dp \<Rightarrow>
     rbind (ilock (Some dp) s) (\<lambda>s.
     rbind (dirlookup dp name s) (\<lambda>(r, s).
     case r of
       Some (ip, _) \<Rightarrow>
         rbind (iunlockput dp s) (\<lambda>s.
         rbind (ilock (Some ip) s) (\<lambda>s.
         if type = T_FILE \<and> ip_type (icache s ! ip) = T_FILE then Ok (Some ip, s)
         else rbind (iunlockput ip s) (\<lambda>s. Ok (None, s))))
     | None \<Rightarrow>
         rbind (ialloc (ip_dev (icache s ! dp)) type s) (\<lambda>(ip, s).
         rbind (ilock (Some ip) s) (\<lambda>s.
         rbind (iupdate ip (upd_inode ip (\<lambda>i. i\<lparr>ip_major := major, ip_minor := minor, ip_nlink := 1\<rparr>) s)) (\<lambda>s.
         rbind (if type = T_DIR then
                  rbind (iupdate dp (upd_inode dp (\<lambda>i. i\<lparr>ip_nlink := ip_nlink i + 1\<rparr>) s)) (\<lambda>s.
                  rbind (dirlink ip dot (ip_inum (icache s ! ip)) s) (\<lambda>(r, s).
                  if r < 0 then Panic ''create dots''
                  else rbind (dirlink ip dotdot (ip_inum (icache s ! dp)) s) (\<lambda>(r, s).
                    if r < 0 then Panic ''create dots'' else Ok s)))
                else Ok s) (\<lambda>s.
         rbind (dirlink dp name (ip_inum (icache s ! ip)) s) (\<lambda>(r, s).
         if r < 0 then Panic ''create: dirlink''
         else rbind (iunlockput dp s) (\<lambda>s. Ok (Some ip, s))))))))))"

section \<open>The swap file\<close>

text \<open>\<open>itoa\<close>: the first loop moves to where the representation ends, the second fills in the
  digits from the end. \<open>b\<close> is the array the digits go to; a store outside it is undefined.\<close>

function ndigits :: "int \<Rightarrow> nat" where
  "ndigits i = (if i div 10 > 0 then Suc (ndigits (i div 10)) else 1)"
  by pat_completeness auto
termination by (relation "measure nat") auto

declare ndigits.simps [simp del]

fun itoa_fill :: "nat \<Rightarrow> int \<Rightarrow> int \<Rightarrow> u8 list \<Rightarrow> (kernel, u8 list) res" where
  "itoa_fill 0 p i b = Ok b"
| "itoa_fill (Suc n) p i b =
     rbind (aset ''itoa'' b (p - 1) (word_of_int (48 + i mod 10))) (\<lambda>b.
     itoa_fill n (p - 1) (i div 10) b)"

definition itoa :: "int \<Rightarrow> int \<Rightarrow> u8 list \<Rightarrow> (kernel, u8 list) res" where
  "itoa i p b =
     rbind (if i < 0 then rbind (aset ''itoa'' b p 45) (\<lambda>b. Ok (- i, p + 1, b)) else Ok (i, p, b))
       (\<lambda>(i, p, b).
     let n = ndigits i in
     rbind (aset ''itoa'' b (p + int n) 0) (\<lambda>b.
     itoa_fill n (p + int n) i b))"

definition DIGITS :: nat where [simp, const_defs]: "DIGITS = 14"

text \<open>\<open>/.swap\<close> followed by the process id, in an array of \<open>DIGITS\<close> bytes.\<close>

definition swap_path :: "int \<Rightarrow> (kernel, u8 list) res" where
  "swap_path pid =
     (let path = blit (replicate DIGITS 0) 0 [47, 46, 115, 119, 97, 112] in
      rbind (itoa pid 6 path) (\<lambda>b. Ok (cstring b)))"

definition removeSwapFile :: "nat \<Rightarrow> kernel \<Rightarrow> int kres" where
  "removeSwapFile p s =
     rbind (swap_path (p_pid (procs s ! p))) (\<lambda>path.
     case p_swapFile (procs s ! p) of
       None \<Rightarrow> Ok (- 1, s)
     | Some f \<Rightarrow> rbind (fileclose f s) (do_unlink path))"

definition createSwapFile :: "nat \<Rightarrow> kernel \<Rightarrow> int kres" where
  "createSwapFile p s =
     rbind (swap_path (p_pid (procs s ! p))) (\<lambda>path.
     rbind (begin_op s) (\<lambda>s.
     rbind (create path T_FILE 0 0 s) (\<lambda>(ip, s).
     rbind (iunlock ip s) (\<lambda>s.
     rbind (filealloc s) (\<lambda>(f, s).
     let s = upd_proc p (\<lambda>q. q\<lparr>p_swapFile := f\<rparr>) s in
     case f of
       None \<Rightarrow> Panic ''no slot for files on /store''
     | Some f \<Rightarrow>
         let s = upd_file f (\<lambda>x. x\<lparr>f_ip := ip, f_type := FD_INODE, f_off := 0, f_readable := 1,
               f_writable := 2\<rparr>) s in
         rbind (end_op s) (\<lambda>s. Ok (0, s)))))))"

definition writeToSwapFile :: "nat \<Rightarrow> u8 list \<Rightarrow> u32 \<Rightarrow> kernel \<Rightarrow> int kres" where
  "writeToSwapFile p bytes placeOnFile s =
     (case p_swapFile (procs s ! p) of
        None \<Rightarrow> Undef ''null swapFile''
      | Some f \<Rightarrow> filewrite f bytes (upd_file f (\<lambda>x. x\<lparr>f_off := placeOnFile\<rparr>) s))"

definition readFromSwapFile :: "nat \<Rightarrow> u32 \<Rightarrow> int \<Rightarrow> kernel \<Rightarrow> (int \<times> u8 list) kres" where
  "readFromSwapFile p placeOnFile sz s =
     (case p_swapFile (procs s ! p) of
        None \<Rightarrow> Undef ''null swapFile''
      | Some f \<Rightarrow> fileread f sz (upd_file f (\<lambda>x. x\<lparr>f_off := placeOnFile\<rparr>) s))"

end
