(* ===== verification/Paging.thy ===== *)
theory Paging
  imports Pgtable
begin

text \<open>
  Page replacement (\<open>proc.c\<close>, from \<open>fixQueue\<close> to \<open>deallocatePage\<close>): the queue of resident
  pages \<open>inRAMQueue\<close>, the victim selection of the four policies, ageing, and the queue of
  free slots of the swap file \<open>availableOffsetQueue\<close>. Both queues are arrays of
  \<open>MAX_PSYC_PAGES\<close> integers, filled from the left and ended by \<open>-1\<close>.
\<close>

section \<open>The array queues\<close>

text \<open>\<open>fixQueue(index)\<close> and \<open>fixOffsetQueue()\<close> close the gap at an index.\<close>

function shift_down :: "int \<Rightarrow> int list \<Rightarrow> (kernel, int list) res" where
  "shift_down index q =
     (if index < int MAX_PSYC_PAGES - 1 then
        rbind (aget ''queue'' q (index + 1)) (\<lambda>x.
        rbind (aset ''queue'' q index x) (\<lambda>q.
        shift_down (index + 1) q))
      else aset ''queue'' q (int MAX_PSYC_PAGES - 1) (- 1))"
  by pat_completeness auto
termination by (relation "measure (\<lambda>(i, _). nat (15 - i))") auto

declare shift_down.simps [simp del]

text \<open>The search of \<open>insert\<close> and \<open>insertOffsetQueue\<close> for the end of the queue: the entry is
  read before its index is compared with the size of the array.\<close>

function end_of_queue :: "string \<Rightarrow> nat \<Rightarrow> int list \<Rightarrow> (kernel, nat) res" where
  "end_of_queue msg i q =
     rbind (aget ''queue'' q (int i)) (\<lambda>x.
     if x \<noteq> - 1 then if i = MAX_PSYC_PAGES then Panic msg else end_of_queue msg (i + 1) q
     else Ok i)"
  by pat_completeness auto
termination
  by (relation "measure (\<lambda>(_, i, q). length q - i)") (auto simp: aget_def split: if_splits)

declare end_of_queue.simps [simp del]

definition enqueue :: "string \<Rightarrow> int \<Rightarrow> int list \<Rightarrow> (kernel, int list) res" where
  "enqueue msg x q = rbind (end_of_queue msg 0 q) (\<lambda>i. aset ''queue'' q (int i) x)"

section \<open>The resident queue of the current process\<close>

definition fixQueue :: "int \<Rightarrow> kernel \<Rightarrow> (kernel, kernel) res" where
  "fixQueue index s =
     rbind (curproc s) (\<lambda>p.
     rbind (shift_down index (p_inRAMQueue (procs s ! p))) (\<lambda>q.
     Ok (upd_proc p (\<lambda>p. p\<lparr>p_inRAMQueue := q\<rparr>) s)))"

definition insert_page :: "int \<Rightarrow> kernel \<Rightarrow> (kernel, kernel) res" where
  "insert_page index s =
     rbind (curproc s) (\<lambda>p.
     rbind (enqueue ''error in inerstion!'' index (p_inRAMQueue (procs s ! p))) (\<lambda>q.
     Ok (upd_proc p (\<lambda>p. p\<lparr>p_inRAMQueue := q\<rparr>) s)))"

text \<open>The entry of \<open>pagesDS\<close> that position \<open>i\<close> of the queue names, and its page table entry.\<close>

definition queue_page :: "nat \<Rightarrow> int \<Rightarrow> kernel \<Rightarrow> (kernel, int \<times> page) res" where
  "queue_page p i s =
     rbind (aget ''inRAMQueue'' (p_inRAMQueue (procs s ! p)) i) (\<lambda>k.
     rbind (aget ''pagesDS'' (p_pagesDS (procs s ! p)) k) (\<lambda>pg. Ok (k, pg)))"

subsection \<open>Second chance\<close>

text \<open>The first loop of \<open>removeSCFIFO\<close>; the pages that get a second chance are collected in
  \<open>temp\<close>. The result is the position and the page where the loop broke off, or \<open>-1\<close>.\<close>

function scfifo_scan :: "nat \<Rightarrow> nat \<Rightarrow> int list \<Rightarrow> kernel \<Rightarrow> (nat \<times> int \<times> int list) kres" where
  "scfifo_scan p i temp s =
     (if i < MAX_PSYC_PAGES then
        rbind (queue_page p (int i) s) (\<lambda>(k, pg).
        rbind (walkpgdir_global (p_pgdir (procs s ! p)) (v_address pg) False s) (\<lambda>(pte, s).
        rbind (get_pte pte s) (\<lambda>w.
        if w AND PTE_A \<noteq> 0
        then rbind (set_pte pte (PTE_A_OFF w) s) (\<lambda>s. scfifo_scan p (i + 1) (temp @ [k]) s)
        else Ok ((i, k, temp), s))))
      else Ok ((i, - 1, temp), s))"
  by pat_completeness auto
termination by (relation "measure (\<lambda>(_, i, _, _). 16 - i)") auto

declare scfifo_scan.simps [simp del]

text \<open>The rest of the queue moves to the front, then the second-chance pages follow: \<open>i\<close> is
  the position after the victim, \<open>new\<close> the position written next.\<close>

function scfifo_move :: "nat \<Rightarrow> nat \<Rightarrow> int list \<Rightarrow> (kernel, nat \<times> int list) res" where
  "scfifo_move i new q =
     (if i < MAX_PSYC_PAGES then
        rbind (aget ''inRAMQueue'' q (int i)) (\<lambda>x.
        if x \<noteq> - 1
        then rbind (aset ''inRAMQueue'' q (int new) x) (\<lambda>q. scfifo_move (i + 1) (new + 1) q)
        else Ok (new, q))
      else Ok (new, q))"
  by pat_completeness auto
termination by (relation "measure (\<lambda>(i, _, _). 16 - i)") auto

declare scfifo_move.simps [simp del]

function scfifo_fill :: "nat \<Rightarrow> nat \<Rightarrow> int list \<Rightarrow> int list \<Rightarrow> (kernel, int list) res" where
  "scfifo_fill i new temp q =
     (if new < MAX_PSYC_PAGES then
        rbind (aget ''temp'' temp (int i)) (\<lambda>x.
        rbind (aset ''inRAMQueue'' q (int new) x) (\<lambda>q. scfifo_fill (i + 1) (new + 1) temp q))
      else Ok q)"
  by pat_completeness auto
termination by (relation "measure (\<lambda>(_, new, _, _). 16 - new)") auto

declare scfifo_fill.simps [simp del]

definition temp_array :: "int list \<Rightarrow> int list" where
  "temp_array t = t @ replicate (MAX_PSYC_PAGES - length t) (- 1)"

definition removeSCFIFO :: "kernel \<Rightarrow> int kres" where
  "removeSCFIFO s =
     rbind (curproc s) (\<lambda>p.
     rbind (scfifo_scan p 0 [] s) (\<lambda>((i, index, temp), s).
     if index = - 1 then
       rbind (aget ''inRAMQueue'' (p_inRAMQueue (procs s ! p)) 0) (\<lambda>index.
       if index \<noteq> - 1 then rbind (fixQueue 0 s) (\<lambda>s. Ok (index, s))
       else Panic ''error in removing scfifo!'')
     else
       rbind (scfifo_move (i + 1) 0 (p_inRAMQueue (procs s ! p))) (\<lambda>(new, q).
       rbind (scfifo_fill 0 new (temp_array temp) q) (\<lambda>q.
       Ok (index, upd_proc p (\<lambda>p. p\<lparr>p_inRAMQueue := q\<rparr>) s)))))"

subsection \<open>Not frequently used with ageing, least accessed page with ageing\<close>

function nfua_scan :: "nat \<Rightarrow> nat \<Rightarrow> nat \<Rightarrow> kernel \<Rightarrow> (kernel, nat) res" where
  "nfua_scan p i min_index s =
     (if i < MAX_PSYC_PAGES then
        rbind (queue_page p (int i) s) (\<lambda>(_, pg).
        rbind (queue_page p (int min_index) s) (\<lambda>(_, mpg).
        nfua_scan p (i + 1) (if age pg < age mpg then i else min_index) s))
      else Ok min_index)"
  by pat_completeness auto
termination by (relation "measure (\<lambda>(_, i, _, _). 16 - i)") auto

declare nfua_scan.simps [simp del]

definition removeNFUA :: "kernel \<Rightarrow> int kres" where
  "removeNFUA s =
     rbind (curproc s) (\<lambda>p.
     rbind (nfua_scan p 1 0 s) (\<lambda>i.
     rbind (aget ''inRAMQueue'' (p_inRAMQueue (procs s ! p)) (int i)) (\<lambda>k.
     rbind (fixQueue (int i) s) (\<lambda>s. Ok (k, s)))))"

text \<open>\<open>curr_count\<close>: the number of bits of the age.\<close>

definition popcount :: "u32 \<Rightarrow> int" where
  "popcount w = int (length (filter (\<lambda>j. push_bit j 1 AND w \<noteq> 0) [0..<32]))"

text \<open>The loop of \<open>removeLAPA\<close>: the ages are \<open>uint\<close> but are compared as \<open>int\<close>.\<close>

function lapa_scan :: "nat \<Rightarrow> nat \<Rightarrow> int \<Rightarrow> int \<Rightarrow> int \<Rightarrow> kernel \<Rightarrow> (kernel, int) res" where
  "lapa_scan p i min_i min_age min_count s =
     (if i < MAX_PSYC_PAGES then
        rbind (queue_page p (int i) s) (\<lambda>(_, pg).
        let curr_age = sint (age pg); curr_count = popcount (age pg) in
        if curr_count < min_count then lapa_scan p (i + 1) (int i) curr_age curr_count s
        else if curr_count = min_count \<and> curr_age < min_age
        then lapa_scan p (i + 1) (int i) curr_age min_count s
        else lapa_scan p (i + 1) min_i min_age min_count s)
      else Ok min_i)"
  by pat_completeness auto
termination by (relation "measure (\<lambda>(_, i, _, _, _, _). 16 - i)") auto

declare lapa_scan.simps [simp del]

definition removeLAPA :: "kernel \<Rightarrow> int kres" where
  "removeLAPA s =
     rbind (curproc s) (\<lambda>p.
     rbind (lapa_scan p 0 (- 1) (sint (0xFFFFFFFF :: u32)) 33 s) (\<lambda>min_i.
     if min_i = - 1 then Panic ''LAPA error''
     else
       rbind (aget ''inRAMQueue'' (p_inRAMQueue (procs s ! p)) min_i) (\<lambda>index.
       rbind (fixQueue min_i s) (\<lambda>s. Ok (index, s)))))"

definition removeAQ :: "kernel \<Rightarrow> int kres" where
  "removeAQ s =
     rbind (curproc s) (\<lambda>p.
     rbind (aget ''inRAMQueue'' (p_inRAMQueue (procs s ! p)) 0) (\<lambda>index.
     rbind (fixQueue 0 s) (\<lambda>s. Ok (index, s))))"

section \<open>Ageing\<close>

definition upd_page :: "nat \<Rightarrow> nat \<Rightarrow> (page \<Rightarrow> page) \<Rightarrow> kernel \<Rightarrow> kernel" where
  "upd_page p i f s =
     upd_proc p (\<lambda>q. q\<lparr>p_pagesDS := (p_pagesDS q)[i := f (p_pagesDS q ! i)]\<rparr>) s"

definition age_page :: "nat \<Rightarrow> nat \<Rightarrow> kernel \<Rightarrow> (kernel, kernel) res" where
  "age_page p i s =
     (let pg = p_pagesDS (procs s ! p) ! i in
      if isAllocated pg = 1 then
        let s = upd_page p i (\<lambda>pg. pg\<lparr>age := drop_bit 1 (age pg)\<rparr>) s in
        rbind (walkpgdir_global (p_pgdir (procs s ! p)) (v_address pg) False s) (\<lambda>(pte, s).
        rbind (get_pte pte s) (\<lambda>w.
        if w AND PTE_A \<noteq> 0
        then set_pte pte (PTE_A_OFF w) (upd_page p i (\<lambda>pg. pg\<lparr>age := age pg OR 0x80000000\<rparr>) s)
        else Ok s))
      else Ok s)"

fun agePages_loop :: "nat \<Rightarrow> nat list \<Rightarrow> kernel \<Rightarrow> (kernel, kernel) res" where
  "agePages_loop p [] s = Ok s"
| "agePages_loop p (i # is) s = rbind (age_page p i s) (agePages_loop p is)"

definition agePages :: "kernel \<Rightarrow> (kernel, kernel) res" where
  "agePages s = rbind (curproc s) (\<lambda>p. agePages_loop p [0..<MAX_TOTAL_PAGES] s)"

text \<open>\<open>advanceQueue\<close>, with its loop \<open>for(i = MAX_PSYC_PAGES-1; i < 0; i--)\<close> as written.\<close>

definition advance_one :: "nat \<Rightarrow> int \<Rightarrow> kernel \<Rightarrow> (kernel, kernel) res" where
  "advance_one p i s =
     rbind (aget ''inRAMQueue'' (p_inRAMQueue (procs s ! p)) i) (\<lambda>curr.
     if curr = - 1 then Ok s
     else
       rbind (aget ''inRAMQueue'' (p_inRAMQueue (procs s ! p)) (i - 1)) (\<lambda>prev.
       rbind (aget ''pagesDS'' (p_pagesDS (procs s ! p)) curr) (\<lambda>cpg.
       rbind (aget ''pagesDS'' (p_pagesDS (procs s ! p)) prev) (\<lambda>ppg.
       rbind (walkpgdir_global (p_pgdir (procs s ! p)) (v_address cpg) False s) (\<lambda>(cpte, s).
       rbind (walkpgdir_global (p_pgdir (procs s ! p)) (v_address ppg) False s) (\<lambda>(ppte, s).
       rbind (get_pte ppte s) (\<lambda>pw.
       rbind (get_pte cpte s) (\<lambda>cw.
       if pw AND PTE_A \<noteq> 0 \<and> cw AND PTE_A = 0
       then Ok (upd_proc p (\<lambda>q. q\<lparr>p_inRAMQueue :=
              (p_inRAMQueue q)[nat i := prev, nat (i - 1) := curr]\<rparr>) s)
       else Ok s))))))))"

function advance_loop :: "nat \<Rightarrow> int \<Rightarrow> kernel \<Rightarrow> (kernel, kernel) res" where
  "advance_loop p i s =
     (if i < 0 then rbind (advance_one p i s) (\<lambda>s. advance_loop p (i - 1) s) else Ok s)"
  by pat_completeness auto
termination
proof (relation "{}")
  fix p i s x
  assume "i < (0 :: int)" "advance_one p i s = Ok x"
  then show "((p, i - 1, x), p, i, s) \<in> {}" by (simp add: advance_one_def)
qed simp

declare advance_loop.simps [simp del]

definition advanceQueue :: "kernel \<Rightarrow> (kernel, kernel) res" where
  "advanceQueue s = rbind (curproc s) (\<lambda>p. advance_loop p (int MAX_PSYC_PAGES - 1) s)"

section \<open>Free slots of the swap file\<close>

definition fixOffsetQueue :: "kernel \<Rightarrow> (kernel, kernel) res" where
  "fixOffsetQueue s =
     rbind (curproc s) (\<lambda>p.
     rbind (shift_down 0 (p_availableOffsetQueue (procs s ! p))) (\<lambda>q.
     Ok (upd_proc p (\<lambda>p. p\<lparr>p_availableOffsetQueue := q\<rparr>) s)))"

definition removeOffsetQueue :: "kernel \<Rightarrow> int kres" where
  "removeOffsetQueue s =
     rbind (curproc s) (\<lambda>p.
     rbind (aget ''availableOffsetQueue'' (p_availableOffsetQueue (procs s ! p)) 0) (\<lambda>index.
     rbind (if index \<noteq> - 1 then fixOffsetQueue s else Ok s) (\<lambda>s. Ok (index, s))))"

definition insertOffsetQueue :: "int \<Rightarrow> kernel \<Rightarrow> (kernel, kernel) res" where
  "insertOffsetQueue index s =
     rbind (curproc s) (\<lambda>p.
     rbind (enqueue ''overflow  in offset insert !'' index (p_availableOffsetQueue (procs s ! p))) (\<lambda>q.
     Ok (upd_proc p (\<lambda>p. p\<lparr>p_availableOffsetQueue := q\<rparr>) s)))"

definition getFreeFileOffset :: "kernel \<Rightarrow> int kres" where
  "getFreeFileOffset s =
     rbind (curproc s) (\<lambda>p.
     rbind (removeOffsetQueue s) (\<lambda>(result, s).
     if result = - 1
     then Ok (sint (p_fileOffset (procs s ! p)),
       upd_proc p (\<lambda>p. p\<lparr>p_fileOffset := p_fileOffset p + PGSIZE\<rparr>) s)
     else Ok (result, s)))"

definition deallocatePage :: "u32 \<Rightarrow> kernel \<Rightarrow> (kernel, kernel) res" where
  "deallocatePage va s =
     rbind (curproc s) (\<lambda>p.
     case find_from (\<lambda>i. isAllocated (p_pagesDS (procs s ! p) ! i) \<noteq> 0 \<and>
         v_address (p_pagesDS (procs s ! p) ! i) = va) 0 MAX_TOTAL_PAGES of
       None \<Rightarrow> Panic ''trying to deallocate a non existing page ''
     | Some i \<Rightarrow>
         let s = upd_page p i (\<lambda>pg. pg\<lparr>v_address := 0,
               age := (if sel s = LAPA then 0xFFFFFFFF else 0), isAllocated := 0\<rparr>) s in
         rbind (if in_RAM (p_pagesDS (procs s ! p) ! i) = 0
                then insertOffsetQueue (file_offset (p_pagesDS (procs s ! p) ! i)) s else Ok s) (\<lambda>s.
         let s = upd_page p i (\<lambda>pg. pg\<lparr>in_RAM := 0, file_offset := - 1\<rparr>) s in
         case find_from (\<lambda>j. p_inRAMQueue (procs s ! p) ! j = int i) 0 MAX_PSYC_PAGES of
           Some j \<Rightarrow> fixQueue (int j) s
         | None \<Rightarrow> Ok s))"

section \<open>The array queues as lists\<close>

text \<open>An array queue holding \<open>xs\<close>.\<close>

definition qrep :: "int list \<Rightarrow> int list" where
  "qrep xs = xs @ replicate (MAX_PSYC_PAGES - length xs) (- 1)"

definition queue_ok :: "int list \<Rightarrow> bool" where
  [inv_defs]: "queue_ok q \<longleftrightarrow> (\<exists>xs. q = qrep xs \<and> length xs \<le> MAX_PSYC_PAGES \<and> - 1 \<notin> set xs)"

definition qabs :: "int list \<Rightarrow> int list" where
  "qabs q = takeWhile (\<lambda>x. x \<noteq> - 1) q"

lemma qabs_qrep [simp]: "- 1 \<notin> set xs \<Longrightarrow> qabs (qrep xs) = xs"
proof -
  assume "- 1 \<notin> set xs"
  then have "qabs (xs @ ys) = xs @ qabs ys" for ys
    unfolding qabs_def by (subst takeWhile_append2) auto
  moreover have "qabs (replicate n (- 1)) = []" for n by (cases n) (simp_all add: qabs_def)
  ultimately show ?thesis by (simp add: qrep_def)
qed

lemma length_qrep [simp]: "length xs \<le> 16 \<Longrightarrow> length (qrep xs) = 16"
  by (simp add: qrep_def)

lemma queue_okE:
  assumes "queue_ok q"
  obtains xs where "q = qrep xs" "qabs q = xs" "length xs \<le> 16" "- 1 \<notin> set xs" "length q = 16"
  using assms by (auto simp: queue_ok_def)

lemma queue_ok_qrep: "length xs \<le> 16 \<Longrightarrow> - 1 \<notin> set xs \<Longrightarrow> queue_ok (qrep xs)"
  by (auto simp: queue_ok_def)

lemma shift_down_eq:
  "length q = 16 \<Longrightarrow> i < 16 \<Longrightarrow> shift_down (int i) q = Ok (take i q @ drop (Suc i) q @ [- 1])"
proof (induction "15 - i" arbitrary: i q)
  case 0
  then have [simp]: "i = 15" by simp
  from 0 show ?case
    by (simp add: shift_down.simps aset_def list_update_append upd_conv_take_nth_drop)
next
  case (Suc n)
  then have i: "i < 15" by simp
  have q: "take (Suc i) (q[i := q ! Suc i]) = take i q @ [q ! Suc i]"
    "drop (Suc (Suc i)) (q[i := q ! Suc i]) = drop (Suc (Suc i)) q"
    using i Suc.prems by (simp_all add: take_Suc_conv_app_nth)
  have d: "drop (Suc i) q = q ! Suc i # drop (Suc (Suc i)) q"
    using i Suc.prems by (simp add: Cons_nth_drop_Suc)
  have "shift_down (int (Suc i)) (q[i := q ! Suc i]) =
      Ok (take (Suc i) (q[i := q ! Suc i]) @ drop (Suc (Suc i)) (q[i := q ! Suc i]) @ [- 1])"
    using Suc.hyps(1) [of "Suc i" "q[i := q ! Suc i]"] Suc.hyps(2) Suc.prems i by simp
  moreover have "shift_down (int i) q = shift_down (int (Suc i)) (q[i := q ! Suc i])"
    using i Suc.prems by (subst shift_down.simps) (simp add: aget_def aset_def nat_add_distrib add.commute)
  ultimately show ?case by (simp only: q d) simp
qed

lemma shift_down_qrep:
  assumes "length xs \<le> 16" "i < length xs"
  shows "shift_down (int i) (qrep xs) = Ok (qrep (take i xs @ drop (Suc i) xs))"
proof -
  have "Suc (16 - length xs) = 16 - (length xs - 1)" using assms by simp
  then have "replicate (16 - length xs) (- 1 :: int) @ [- 1] = replicate (16 - (length xs - 1)) (- 1)"
    by (metis replicate_append_same replicate_Suc)
  with assms show ?thesis by (subst shift_down_eq) (simp_all add: qrep_def)
qed

lemma end_of_queue_eq:
  "i \<le> n \<Longrightarrow> n < length q \<Longrightarrow> length q \<le> 16 \<Longrightarrow> q ! n = - 1 \<Longrightarrow> (\<forall>j. i \<le> j \<and> j < n \<longrightarrow> q ! j \<noteq> - 1) \<Longrightarrow>
     end_of_queue msg i q = Ok n"
proof (induction "n - i" arbitrary: i)
  case 0
  then show ?case by (simp add: end_of_queue.simps)
next
  case (Suc k)
  then have "end_of_queue msg i q = end_of_queue msg (i + 1) q"
    by (subst end_of_queue.simps) simp
  moreover have "end_of_queue msg (i + 1) q = Ok n"
    using Suc.hyps(1) [of "i + 1"] Suc.hyps(2) Suc.prems by simp
  ultimately show ?case by simp
qed

lemma end_of_queue_full:
  "i \<le> length q \<Longrightarrow> length q \<le> 16 \<Longrightarrow> (\<forall>j. i \<le> j \<and> j < length q \<longrightarrow> q ! j \<noteq> - 1) \<Longrightarrow>
     end_of_queue msg i q = Undef ''queue''"
proof (induction "length q - i" arbitrary: i)
  case 0
  then show ?case by (simp add: end_of_queue.simps aget_def)
next
  case (Suc k)
  then have "end_of_queue msg i q = end_of_queue msg (i + 1) q"
    by (subst end_of_queue.simps) simp
  moreover have "end_of_queue msg (i + 1) q = Undef ''queue''"
    using Suc.hyps(1) [of "i + 1"] Suc.hyps(2) Suc.prems by simp
  ultimately show ?case by simp
qed

lemma nth_not_m1: "- 1 \<notin> set xs \<Longrightarrow> j < length xs \<Longrightarrow> xs ! j \<noteq> (- 1 :: int)"
  by (metis nth_mem)

lemma enqueue_qrep:
  assumes "- 1 \<notin> set xs" "length xs < 16"
  shows "enqueue msg x (qrep xs) = Ok (qrep (xs @ [x]))"
proof -
  have "end_of_queue msg 0 (qrep xs) = Ok (length xs)"
    using assms by (intro end_of_queue_eq) (auto simp: qrep_def nth_append dest: nth_not_m1)
  moreover have "replicate (16 - length xs) (- 1 :: int) = - 1 # replicate (16 - Suc (length xs)) (- 1)"
    using assms by (metis Suc_diff_Suc replicate_Suc)
  ultimately show ?thesis using assms by (simp add: enqueue_def qrep_def aset_def list_update_append)
qed

lemma enqueue_full:
  assumes "- 1 \<notin> set xs" "length xs = 16"
  shows "enqueue msg x (qrep xs) = Undef ''queue''"
  using assms by (simp add: enqueue_def qrep_def end_of_queue_full nth_not_m1)

section \<open>An interface of queues\<close>

text \<open>A sequence of insertions, and a number of removals with what they deliver.\<close>

fun enqs :: "(int \<Rightarrow> 's \<Rightarrow> ('s, 's) res) \<Rightarrow> int list \<Rightarrow> 's \<Rightarrow> ('s, 's) res" where
  "enqs enq [] s = Ok s"
| "enqs enq (x # xs) s = rbind (enq x s) (enqs enq xs)"

fun deqs :: "('s \<Rightarrow> ('s, int \<times> 's) res) \<Rightarrow> nat \<Rightarrow> 's \<Rightarrow> ('s, int list \<times> 's) res" where
  "deqs deq 0 s = Ok ([], s)"
| "deqs deq (Suc n) s = rbind (deq s) (\<lambda>(x, s). rbind (deqs deq n s) (\<lambda>(xs, s). Ok (x # xs, s)))"

locale page_queue =
  fixes enq :: "int \<Rightarrow> 's \<Rightarrow> ('s, 's) res"
    and deq :: "'s \<Rightarrow> ('s, int \<times> 's) res"
    and contents :: "'s \<Rightarrow> int list"
    and ok :: "'s \<Rightarrow> bool"
  assumes enq_ok: "ok s \<Longrightarrow> x \<noteq> - 1 \<Longrightarrow> length (contents s) < 16 \<Longrightarrow>
      \<exists>s'. enq x s = Ok s' \<and> ok s' \<and> contents s' = contents s @ [x]"
    and deq_ok: "ok s \<Longrightarrow> contents s = x # xs \<Longrightarrow> \<exists>s'. deq s = Ok (x, s') \<and> ok s' \<and> contents s' = xs"
begin

lemma enqs_ok: "ok s \<Longrightarrow> - 1 \<notin> set xs \<Longrightarrow> length (contents s) + length xs \<le> 16 \<Longrightarrow>
    \<exists>s'. enqs enq xs s = Ok s' \<and> ok s' \<and> contents s' = contents s @ xs"
proof (induction xs arbitrary: s)
  case (Cons x xs)
  then obtain s1 where "enq x s = Ok s1" "ok s1" "contents s1 = contents s @ [x]"
    using enq_ok [of s x] by auto
  with Cons.prems Cons.IH [of s1] show ?case by auto
qed simp

lemma deqs_ok: "ok s \<Longrightarrow> n \<le> length (contents s) \<Longrightarrow>
    \<exists>s'. deqs deq n s = Ok (take n (contents s), s') \<and> ok s' \<and> contents s' = drop n (contents s)"
proof (induction n arbitrary: s)
  case (Suc n)
  then obtain x xs where c: "contents s = x # xs" by (cases "contents s") auto
  then obtain s1 where "deq s = Ok (x, s1)" "ok s1" "contents s1 = xs"
    using deq_ok [OF Suc.prems(1)] by blast
  with Suc.prems Suc.IH [of s1] c show ?case by auto
qed simp

lemma fifo: "ok s \<Longrightarrow> contents s = [] \<Longrightarrow> - 1 \<notin> set xs \<Longrightarrow> length xs \<le> 16 \<Longrightarrow>
    \<exists>s' s''. enqs enq xs s = Ok s' \<and> deqs deq (length xs) s' = Ok (xs, s'') \<and> ok s'' \<and> contents s'' = []"
  using enqs_ok [of s xs] deqs_ok [of _ "length xs"] by fastforce

end

section \<open>Both queues of the current process\<close>

definition cur_ok :: "kernel \<Rightarrow> bool" where
  [inv_defs]: "cur_ok s \<longleftrightarrow> (\<exists>p. cur s = Some p \<and> p < length (procs s))"

definition this_proc :: "kernel \<Rightarrow> proc" where
  "this_proc s = procs s ! the (cur s)"

definition resident_ok :: "kernel \<Rightarrow> bool" where
  [inv_defs]: "resident_ok s \<longleftrightarrow> cur_ok s \<and> queue_ok (p_inRAMQueue (this_proc s))"

definition offsets_ok :: "kernel \<Rightarrow> bool" where
  [inv_defs]: "offsets_ok s \<longleftrightarrow> cur_ok s \<and> queue_ok (p_availableOffsetQueue (this_proc s))"

interpretation resident: page_queue insert_page removeAQ "\<lambda>s. qabs (p_inRAMQueue (this_proc s))" resident_ok
proof unfold_locales
  fix s and x :: int assume s: "resident_ok s" "x \<noteq> - 1" "length (qabs (p_inRAMQueue (this_proc s))) < 16"
  then obtain p where p: "cur s = Some p" "p < length (procs s)" by (auto simp: inv_defs)
  from s(1) obtain xs where xs: "p_inRAMQueue (this_proc s) = qrep xs" "length xs \<le> 16" "- 1 \<notin> set xs"
    by (auto simp: resident_ok_def elim: queue_okE)
  with s show "\<exists>s'. insert_page x s = Ok s' \<and> resident_ok s' \<and>
      qabs (p_inRAMQueue (this_proc s')) = qabs (p_inRAMQueue (this_proc s)) @ [x]"
    using p by (auto simp: insert_page_def curproc_def this_proc_def enqueue_qrep resident_ok_def cur_ok_def queue_ok_qrep)
next
  fix s and x :: int and xs assume s: "resident_ok s" "qabs (p_inRAMQueue (this_proc s)) = x # xs"
  then obtain p where p: "cur s = Some p" "p < length (procs s)" by (auto simp: inv_defs)
  from s have q: "p_inRAMQueue (this_proc s) = qrep (x # xs)" "length (x # xs) \<le> 16" "- 1 \<notin> set (x # xs)"
    by (auto simp: resident_ok_def elim!: queue_okE)
  then have "shift_down 0 (qrep (x # xs)) = Ok (qrep xs)" "aget w (qrep (x # xs)) 0 = Ok x" for w
    using shift_down_qrep [of "x # xs" 0] by (simp_all add: qrep_def aget_def)
  with p q show "\<exists>s'. removeAQ s = Ok (x, s') \<and> resident_ok s' \<and> qabs (p_inRAMQueue (this_proc s')) = xs"
    by (auto simp: removeAQ_def fixQueue_def curproc_def this_proc_def resident_ok_def cur_ok_def queue_ok_qrep)
qed

interpretation offsets: page_queue insertOffsetQueue removeOffsetQueue
  "\<lambda>s. qabs (p_availableOffsetQueue (this_proc s))" offsets_ok
proof unfold_locales
  fix s and x :: int assume s: "offsets_ok s" "x \<noteq> - 1" "length (qabs (p_availableOffsetQueue (this_proc s))) < 16"
  then obtain p where p: "cur s = Some p" "p < length (procs s)" by (auto simp: inv_defs)
  from s(1) obtain xs where xs: "p_availableOffsetQueue (this_proc s) = qrep xs" "length xs \<le> 16" "- 1 \<notin> set xs"
    by (auto simp: offsets_ok_def elim: queue_okE)
  with s show "\<exists>s'. insertOffsetQueue x s = Ok s' \<and> offsets_ok s' \<and>
      qabs (p_availableOffsetQueue (this_proc s')) = qabs (p_availableOffsetQueue (this_proc s)) @ [x]"
    using p by (auto simp: insertOffsetQueue_def curproc_def this_proc_def enqueue_qrep offsets_ok_def cur_ok_def queue_ok_qrep)
next
  fix s and x :: int and xs assume s: "offsets_ok s" "qabs (p_availableOffsetQueue (this_proc s)) = x # xs"
  then obtain p where p: "cur s = Some p" "p < length (procs s)" by (auto simp: inv_defs)
  from s have q: "p_availableOffsetQueue (this_proc s) = qrep (x # xs)" "length (x # xs) \<le> 16" "- 1 \<notin> set (x # xs)"
    by (auto simp: offsets_ok_def elim!: queue_okE)
  then have "shift_down 0 (qrep (x # xs)) = Ok (qrep xs)" "aget w (qrep (x # xs)) 0 = Ok x" for w
    using shift_down_qrep [of "x # xs" 0] by (simp_all add: qrep_def aget_def)
  with p q show "\<exists>s'. removeOffsetQueue s = Ok (x, s') \<and> offsets_ok s' \<and>
      qabs (p_availableOffsetQueue (this_proc s')) = xs"
    by (auto simp: removeOffsetQueue_def fixOffsetQueue_def curproc_def this_proc_def offsets_ok_def cur_ok_def queue_ok_qrep)
qed

section \<open>Page table entries of the queued pages\<close>

definition aligned4 :: "u32 \<Rightarrow> bool" where
  "aligned4 a \<longleftrightarrow> 4 dvd unat a"

lemma load32_store32_aligned:
  assumes "aligned4 a" "aligned4 b"
  shows "load32 (store32 m a w) b = (if a = b then w else load32 m b)"
proof (cases "a = b")
  case False
  have "4 dvd unat (b - a)"
    using assms unfolding aligned4_def unat_sub_if'
    by (auto intro!: dvd_diff_nat dvd_add)
  then obtain q where q: "unat (b - a) = 4 * q" by (elim dvdE)
  have "4 * q < 4294967296" using unsigned_less [of "b - a", where 'a = nat] q by simp
  then have q30: "q < 1073741824" by simp
  have "0 < q" using False q by (cases q) (auto simp: unat_eq_zero)
  have "\<not> in_range a 4 (b + of_nat k)" if "k < 4" for k
  proof -
    have k: "unat (of_nat k :: u32) = k" using that by (simp add: unsigned_of_nat take_bit_eq_mod)
    have "4 * q + k < 4294967296" using q30 that by linarith
    then have "unat (b - a + of_nat k) = 4 * q + k"
      using q k by (subst unat_add_lem [THEN iffD1]) simp_all
    then show ?thesis using \<open>0 < q\<close> by (simp add: in_range_def algebra_simps)
  qed
  then show ?thesis using False by (simp add: load32_store32_disjoint)
qed (simp add: load32_store32_same)

text \<open>The addresses of the page directory entry and of the page table entry of \<open>va\<close>.\<close>

definition pde_addr :: "u32 \<Rightarrow> u32 \<Rightarrow> u32" where
  "pde_addr pgdir va = pgdir + 4 * PDX va"

definition pte_addr :: "memory \<Rightarrow> u32 \<Rightarrow> u32 \<Rightarrow> u32" where
  "pte_addr m pgdir va = P2V (PTE_ADDR (load32 m (pde_addr pgdir va))) + 4 * PTX va"

text \<open>Every address of \<open>vas\<close> has a page table, the entries are distinct words and none of them
  is an entry of the directory.\<close>

definition tables_ok :: "memory \<Rightarrow> u32 \<Rightarrow> u32 list \<Rightarrow> bool" where
  [inv_defs]: "tables_ok m pgdir vas \<longleftrightarrow>
     aligned4 pgdir \<and> distinct (map (pte_addr m pgdir) vas) \<and>
     (\<forall>va \<in> set vas. load32 m (pde_addr pgdir va) AND PTE_P \<noteq> 0 \<and> pte_addr m pgdir va \<noteq> 0 \<and>
        aligned4 (pte_addr m pgdir va) \<and> (\<forall>va' \<in> set vas. pte_addr m pgdir va \<noteq> pde_addr pgdir va'))"

lemma aligned4_pde: "aligned4 pgdir \<Longrightarrow> aligned4 (pde_addr pgdir va)"
proof -
  have "4 dvd unat (4 * PDX va)"
  proof -
    have "unat (PDX va) < 1073741824" by (rule less_trans [OF PDX_less]) simp
    then show ?thesis by (subst unat_mult_lem [THEN iffD1]) simp_all
  qed
  moreover assume "aligned4 pgdir"
  ultimately show ?thesis
    unfolding aligned4_def pde_addr_def by (auto simp: unat_plus_if' intro!: dvd_diff_nat)
qed

definition clear_A :: "u32 \<Rightarrow> memory \<Rightarrow> memory" where
  "clear_A a m = store32 m a (PTE_A_OFF (load32 m a))"

lemma clear_A_pde:
  assumes "tables_ok m pgdir vas" "va \<in> set vas" "va' \<in> set vas"
  shows "load32 (clear_A (pte_addr m pgdir va) m) (pde_addr pgdir va') = load32 m (pde_addr pgdir va')"
  using assms by (auto simp: clear_A_def tables_ok_def load32_store32_aligned aligned4_pde)

lemma clear_A_pte_addr:
  assumes "tables_ok m pgdir vas" "va \<in> set vas" "va' \<in> set vas"
  shows "pte_addr (clear_A (pte_addr m pgdir va) m) pgdir va' = pte_addr m pgdir va'"
  using clear_A_pde [OF assms] by (simp add: pte_addr_def)

lemma tables_ok_clear:
  assumes "tables_ok m pgdir vas" "va \<in> set vas"
  shows "tables_ok (clear_A (pte_addr m pgdir va) m) pgdir vas"
proof -
  have e: "map (pte_addr (clear_A (pte_addr m pgdir va) m) pgdir) vas = map (pte_addr m pgdir) vas"
    using clear_A_pte_addr [OF assms] by simp
  from assms clear_A_pde [OF assms] clear_A_pte_addr [OF assms] show ?thesis
    unfolding tables_ok_def e by simp
qed

lemma clear_A_pte:
  assumes "tables_ok m pgdir vas" "va \<in> set vas" "va' \<in> set vas"
  shows "load32 (clear_A (pte_addr m pgdir va) m) (pte_addr m pgdir va') =
    (if pte_addr m pgdir va = pte_addr m pgdir va' then PTE_A_OFF (load32 m (pte_addr m pgdir va'))
     else load32 m (pte_addr m pgdir va'))"
  using assms by (auto simp: clear_A_def tables_ok_def load32_store32_aligned)

lemma walkpgdir_pte:
  "load32 (mem s) (pde_addr pgdir va) AND PTE_P \<noteq> 0 \<Longrightarrow>
     walkpgdir_global pgdir va False s = Ok (pte_addr (mem s) pgdir va, s)"
  by (simp add: walkpgdir_global_def walkpgdir_def pte_addr_def pde_addr_def)

section \<open>Second chance\<close>

text \<open>Address and reference bit of the page a queue entry names.\<close>

definition va_of :: "proc \<Rightarrow> int \<Rightarrow> u32" where
  "va_of q k = v_address (p_pagesDS q ! nat k)"

definition referenced :: "memory \<Rightarrow> proc \<Rightarrow> int \<Rightarrow> bool" where
  "referenced m q k \<longleftrightarrow> load32 m (pte_addr m (p_pgdir q) (va_of q k)) AND PTE_A \<noteq> 0"

fun clear_all :: "u32 \<Rightarrow> u32 list \<Rightarrow> memory \<Rightarrow> memory" where
  "clear_all pgdir [] m = m"
| "clear_all pgdir (va # vas) m = clear_all pgdir vas (clear_A (pte_addr m pgdir va) m)"

text \<open>A full queue whose entries name pages with page tables.\<close>

definition full_queue :: "memory \<Rightarrow> proc \<Rightarrow> int list \<Rightarrow> bool" where
  [inv_defs]: "full_queue m q xs \<longleftrightarrow> p_inRAMQueue q = xs \<and> length xs = 16 \<and>
     (\<forall>k \<in> set xs. 0 \<le> k \<and> nat k < length (p_pagesDS q)) \<and>
     tables_ok m (p_pgdir q) (map (va_of q) xs)"

lemma full_queue_clear:
  assumes "full_queue m q xs" "k \<in> set xs"
  shows "full_queue (clear_A (pte_addr m (p_pgdir q) (va_of q k)) m) q xs"
  using assms tables_ok_clear [of m "p_pgdir q" "map (va_of q) xs" "va_of q k"]
  by (auto simp: full_queue_def)

lemma referenced_clear:
  assumes "full_queue m q xs" "i < 16" "j < 16" "i \<noteq> j"
  shows "referenced (clear_A (pte_addr m (p_pgdir q) (va_of q (xs ! i))) m) q (xs ! j) = referenced m q (xs ! j)"
proof -
  let ?vas = "map (va_of q) xs"
  from assms have t: "tables_ok m (p_pgdir q) ?vas" and l: "length xs = 16" by (simp_all add: full_queue_def)
  then have in_vas: "va_of q (xs ! i) \<in> set ?vas" "va_of q (xs ! j) \<in> set ?vas" using assms by auto
  have "distinct (map (pte_addr m (p_pgdir q)) ?vas)" using t by (simp add: tables_ok_def)
  then have "pte_addr m (p_pgdir q) (va_of q (xs ! i)) \<noteq> pte_addr m (p_pgdir q) (va_of q (xs ! j))"
    using nth_eq_iff_index_eq [of "map (pte_addr m (p_pgdir q)) ?vas" i j] assms l by simp
  with clear_A_pte [OF t in_vas] clear_A_pte_addr [OF t in_vas] show ?thesis
    by (simp add: referenced_def)
qed

lemma scan_step:
  assumes "full_queue (mem s) (procs s ! p) xs" "i < 16"
  shows "scfifo_scan p i temp s =
    (if referenced (mem s) (procs s ! p) (xs ! i)
     then scfifo_scan p (Suc i) (temp @ [xs ! i])
       (s\<lparr>mem := clear_A (pte_addr (mem s) (p_pgdir (procs s ! p)) (va_of (procs s ! p) (xs ! i))) (mem s)\<rparr>)
     else Ok ((i, xs ! i, temp), s))"
proof -
  let ?q = "procs s ! p"
  have k: "xs ! i \<in> set xs" using assms by (simp add: full_queue_def)
  then have "0 \<le> xs ! i" "nat (xs ! i) < length (p_pagesDS ?q)" using assms(1) by (auto simp: full_queue_def)
  then have q: "queue_page p (int i) s = Ok (xs ! i, p_pagesDS ?q ! nat (xs ! i))"
    using assms by (simp add: queue_page_def full_queue_def)
  have "load32 (mem s) (pde_addr (p_pgdir ?q) (va_of ?q (xs ! i))) AND PTE_P \<noteq> 0"
    and nz: "pte_addr (mem s) (p_pgdir ?q) (va_of ?q (xs ! i)) \<noteq> 0"
    using assms(1) k by (auto simp: full_queue_def tables_ok_def)
  then have w: "walkpgdir_global (p_pgdir ?q) (v_address (p_pagesDS ?q ! nat (xs ! i))) False s =
      Ok (pte_addr (mem s) (p_pgdir ?q) (va_of ?q (xs ! i)), s)"
    by (simp add: walkpgdir_pte va_of_def del: PTE_P_def)
  show ?thesis
    using assms(2) nz
    by (subst scfifo_scan.simps)
      (simp add: q w get_pte_def set_pte_def referenced_def clear_A_def del: PTE_A_def PTE_P_def)
qed

lemma find_from_cong':
  "(\<And>j. i \<le> j \<Longrightarrow> j < n \<Longrightarrow> P j = Q j) \<Longrightarrow> find_from P i n = find_from Q i n"
proof (induction P i n rule: find_from.induct)
  case (1 P lo hi)
  then show ?case by (simp add: find_from.simps [of _ lo])
qed

definition scan_result :: "proc \<Rightarrow> int list \<Rightarrow> nat \<Rightarrow> int list \<Rightarrow> kernel \<Rightarrow> (nat \<times> int \<times> int list) kres" where
  "scan_result q xs i temp s =
     (case find_from (\<lambda>j. \<not> referenced (mem s) q (xs ! j)) i 16 of
        Some j \<Rightarrow> Ok ((j, xs ! j, temp @ take (j - i) (drop i xs)),
          s\<lparr>mem := clear_all (p_pgdir q) (map (va_of q) (take (j - i) (drop i xs))) (mem s)\<rparr>)
      | None \<Rightarrow> Ok ((16, - 1, temp @ drop i xs),
          s\<lparr>mem := clear_all (p_pgdir q) (map (va_of q) (drop i xs)) (mem s)\<rparr>))"

lemma scfifo_scan_eq:
  "full_queue (mem s) (procs s ! p) xs \<Longrightarrow> i \<le> 16 \<Longrightarrow>
     scfifo_scan p i temp s = scan_result (procs s ! p) xs i temp s"
proof (induction "16 - i" arbitrary: i temp s)
  case 0
  then show ?case
    by (simp add: scfifo_scan.simps scan_result_def find_from.simps full_queue_def)
next
  case (Suc n)
  let ?q = "procs s ! p"
  let ?a = "pte_addr (mem s) (p_pgdir ?q) (va_of ?q (xs ! i))"
  have i: "i < 16" and l: "length xs = 16" using Suc.prems Suc.hyps(2) by (simp_all add: full_queue_def)
  have d: "drop i xs = xs ! i # drop (Suc i) xs" using i l by (simp add: Cons_nth_drop_Suc)
  show ?case
  proof (cases "referenced (mem s) ?q (xs ! i)")
    case False
    with i show ?thesis
      by (simp add: scan_step [OF Suc.prems(1) i] scan_result_def find_from.simps)
  next
    case True
    let ?s = "s\<lparr>mem := clear_A ?a (mem s)\<rparr>"
    have fq: "full_queue (mem ?s) (procs ?s ! p) xs"
      using full_queue_clear [OF Suc.prems(1), of "xs ! i"] i l by simp
    have "find_from (\<lambda>j. \<not> referenced (mem ?s) ?q (xs ! j)) (Suc i) 16 =
        find_from (\<lambda>j. \<not> referenced (mem s) ?q (xs ! j)) i 16"
      using referenced_clear [OF Suc.prems(1) i] True i
      by (subst (2) find_from.simps) (auto intro!: find_from_cong')
    moreover have "scfifo_scan p (Suc i) (temp @ [xs ! i]) ?s = scan_result ?q xs (Suc i) (temp @ [xs ! i]) ?s"
      using Suc.hyps(1) [of "Suc i" ?s] Suc.hyps(2) fq i by simp
    moreover have "take (j - i) (drop i xs) = xs ! i # take (j - Suc i) (drop (Suc i) xs)"
      if "find_from (\<lambda>j. \<not> referenced (mem s) ?q (xs ! j)) i 16 = Some j" for j
    proof -
      from that True have "i < j" by (metis find_from_SomeD le_neq_implies_less)
      then show ?thesis by (simp add: d take_Cons' Suc_diff_Suc)
    qed
    ultimately show ?thesis
      using True by (auto simp: scan_step [OF Suc.prems(1) i] scan_result_def d split: option.split)
  qed
qed

lemma scfifo_move_eq:
  "length q = 16 \<Longrightarrow> i \<le> 16 \<Longrightarrow> new \<le> i \<Longrightarrow> - 1 \<notin> set (drop i q) \<Longrightarrow>
     scfifo_move i new q = Ok (new + 16 - i, take new q @ drop i q @ drop (new + 16 - i) q)"
proof (induction "16 - i" arbitrary: i new q)
  case 0
  then show ?case by (simp add: scfifo_move.simps)
next
  case (Suc n)
  then have i: "i < 16" by simp
  let ?q = "q[new := q ! i]"
  have d: "drop i q = q ! i # drop (Suc i) q" using i Suc.prems by (simp add: Cons_nth_drop_Suc)
  then have x: "q ! i \<noteq> - 1" "- 1 \<notin> set (drop (Suc i) q)" using Suc.prems(4) by auto
  have dq: "drop (Suc i) ?q = drop (Suc i) q" "drop (Suc new + 16 - Suc i) ?q = drop (new + 16 - i) q"
    "take (Suc new) ?q = take new q @ [q ! i]"
    using Suc.prems i by (simp_all add: take_Suc_conv_app_nth add.commute)
  have "scfifo_move i new q = scfifo_move (Suc i) (Suc new) ?q"
    using i x Suc.prems by (subst scfifo_move.simps) (simp add: aset_def)
  also have "\<dots> = Ok (Suc new + 16 - Suc i, take (Suc new) ?q @ drop (Suc i) ?q @ drop (Suc new + 16 - Suc i) ?q)"
    using Suc.hyps(1) [of "Suc i" ?q "Suc new"] Suc.hyps(2) Suc.prems i x dq(1) by simp
  finally show ?case by (simp only: dq d) simp
qed

lemma scfifo_fill_eq:
  "length q = 16 \<Longrightarrow> new \<le> 16 \<Longrightarrow> i + 16 \<le> length temp + new \<Longrightarrow>
     scfifo_fill i new temp q = Ok (take new q @ take (16 - new) (drop i temp))"
proof (induction "16 - new" arbitrary: i new q)
  case 0
  then show ?case by (simp add: scfifo_fill.simps)
next
  case (Suc n)
  then have new: "new < 16" and i: "i < length temp" by auto
  let ?q = "q[new := temp ! i]"
  have d: "take (16 - new) (drop i temp) = temp ! i # take (16 - Suc new) (drop (Suc i) temp)"
    using i new by (simp add: Cons_nth_drop_Suc [symmetric] take_Cons' Suc_diff_Suc)
  have t: "take (Suc new) ?q = take new q @ [temp ! i]"
    using Suc.prems new by (simp add: take_Suc_conv_app_nth)
  have "scfifo_fill i new temp q = scfifo_fill (Suc i) (Suc new) temp ?q"
    using new i Suc.prems by (subst scfifo_fill.simps) (simp add: aset_def)
  also have "\<dots> = Ok (take (Suc new) ?q @ take (16 - Suc new) (drop (Suc i) temp))"
    using Suc.hyps(1) [of "Suc new" ?q "Suc i"] Suc.hyps(2) Suc.prems new by simp
  finally show ?case by (simp only: t d) simp
qed

lemma second_chance_rotate:
  assumes "length xs = 16" "- 1 \<notin> set xs" "j < 16"
  shows "rbind (scfifo_move (j + 1) 0 xs) (\<lambda>(new, q). scfifo_fill 0 new (temp_array (take j xs)) q) =
    Ok (qrep (drop (Suc j) xs @ take j xs))"
proof -
  have "- 1 \<notin> set (drop (j + 1) xs)" using assms(2) by (meson in_set_dropD)
  with assms have "scfifo_move (j + 1) 0 xs = Ok (15 - j, drop (Suc j) xs @ drop (15 - j) xs)"
    by (simp add: scfifo_move_eq)
  moreover have "16 - (15 - j) = Suc j" "16 - j = Suc (15 - j)" using assms(3) by simp_all
  ultimately show ?thesis
    using assms by (simp add: scfifo_fill_eq temp_array_def qrep_def)
qed

text \<open>C12 [scfifo_second_chance]: with sixteen resident pages \<open>removeSCFIFO\<close> evicts the first page of the
  queue whose reference bit is clear, and the first page if all are set. The pages before it
  lose their reference bit and go to the end of the queue in the same order.\<close>

theorem scfifo_second_chance:
  assumes "cur s = Some p" "p < length (procs s)" "full_queue (mem s) (procs s ! p) xs"
  shows "removeSCFIFO s =
    (let pgdir = p_pgdir (procs s ! p); va = va_of (procs s ! p);
         j = find_from (\<lambda>j. \<not> referenced (mem s) (procs s ! p) (xs ! j)) 0 16;
         seen = (case j of Some j \<Rightarrow> take j xs | None \<Rightarrow> xs);
         rest = (case j of Some j \<Rightarrow> drop (Suc j) xs @ take j xs | None \<Rightarrow> tl xs) in
     Ok (xs ! (case j of Some j \<Rightarrow> j | None \<Rightarrow> 0),
       upd_proc p (\<lambda>q. q\<lparr>p_inRAMQueue := qrep rest\<rparr>)
         (s\<lparr>mem := clear_all pgdir (map va seen) (mem s)\<rparr>)))"
proof -
  let ?q = "procs s ! p"
  have l: "length xs = 16" and q: "p_inRAMQueue ?q = xs" and k: "\<forall>k \<in> set xs. 0 \<le> k"
    using assms(3) by (auto simp: full_queue_def)
  from k have m1: "- 1 \<notin> set xs" by fastforce
  have scan: "scfifo_scan p 0 [] s = scan_result ?q xs 0 [] s"
    using scfifo_scan_eq [OF assms(3)] by simp
  show ?thesis
  proof (cases "find_from (\<lambda>j. \<not> referenced (mem s) ?q (xs ! j)) 0 16")
    case None
    have "xs ! 0 \<noteq> - 1" "xs \<noteq> []" using nth_not_m1 [OF m1, of 0] l by auto
    moreover have "shift_down 0 xs = Ok (qrep (tl xs))"
      using shift_down_qrep [of xs 0] l by (simp add: qrep_def drop_Suc)
    ultimately show ?thesis
      using assms l q None scan
      by (simp add: removeSCFIFO_def curproc_def scan_result_def fixQueue_def upd_proc_def aget_def)
  next
    case (Some j)
    then have j: "j < 16" by (rule find_from_bound)
    then have "xs ! j \<noteq> - 1" using m1 l by (intro nth_not_m1) simp_all
    then show ?thesis
      using assms q Some scan second_chance_rotate [OF l m1 j]
      by (auto simp: removeSCFIFO_def curproc_def scan_result_def upd_proc_def rbind_Ok_iff split: prod.splits)
  qed
qed

section \<open>Ageing policies\<close>

definition entries_ok :: "proc \<Rightarrow> bool" where
  [inv_defs]: "entries_ok q \<longleftrightarrow> length (p_inRAMQueue q) = 16 \<and>
     (\<forall>k \<in> set (p_inRAMQueue q). k = - 1 \<or> 0 \<le> k \<and> nat k < length (p_pagesDS q))"

definition age_at :: "proc \<Rightarrow> nat \<Rightarrow> u32" where
  "age_at q i = age (p_pagesDS q ! nat (p_inRAMQueue q ! i))"

lemma queue_page_eq:
  assumes "entries_ok (procs s ! p)" "i < 16"
  shows "queue_page p (int i) s =
    (if p_inRAMQueue (procs s ! p) ! i = - 1 then Undef ''pagesDS''
     else Ok (p_inRAMQueue (procs s ! p) ! i,
       p_pagesDS (procs s ! p) ! nat (p_inRAMQueue (procs s ! p) ! i)))"
proof -
  have "p_inRAMQueue (procs s ! p) ! i \<in> set (p_inRAMQueue (procs s ! p))"
    using assms by (simp add: entries_ok_def)
  with assms show ?thesis by (auto simp: queue_page_def entries_ok_def)
qed

lemma nfua_scan_gap:
  assumes "entries_ok (procs s ! p)" "m < 16" "j < 16" "p_inRAMQueue (procs s ! p) ! j = - 1"
  shows "i \<le> j \<Longrightarrow> nfua_scan p i m s = Undef ''pagesDS''"
  using assms(2)
proof (induction "16 - i" arbitrary: i m)
  case 0
  with assms(3) show ?case by simp
next
  case (Suc n)
  have i: "i < 16" using Suc.prems assms(3) by simp
  show ?case
  proof (cases "i = j")
    case True
    with assms i show ?thesis by (simp add: nfua_scan.simps queue_page_eq)
  next
    case False
    then have "nfua_scan p (Suc i) m' s = Undef ''pagesDS''" if "m' < 16" for m'
      using Suc.hyps(1) [of "Suc i" m'] Suc.hyps(2) Suc.prems that i by simp
    with i Suc.prems(2) show ?thesis
      by (subst nfua_scan.simps) (simp add: queue_page_eq [OF assms(1)])
  qed
qed

lemma lapa_scan_gap:
  assumes "entries_ok (procs s ! p)" "j < 16" "p_inRAMQueue (procs s ! p) ! j = - 1"
  shows "i \<le> j \<Longrightarrow> lapa_scan p i m a c s = Undef ''pagesDS''"
proof (induction "16 - i" arbitrary: i m a c)
  case 0
  with assms(2) show ?case by simp
next
  case (Suc n)
  have i: "i < 16" using Suc.prems assms(2) by simp
  show ?case
  proof (cases "i = j")
    case True
    with assms i show ?thesis by (simp add: lapa_scan.simps queue_page_eq)
  next
    case False
    then have "lapa_scan p (Suc i) m' a' c' s = Undef ''pagesDS''" for m' a' c'
      using Suc.hyps(1) [of "Suc i"] Suc.hyps(2) Suc.prems i by simp
    with i show ?thesis
      by (subst lapa_scan.simps) (simp add: queue_page_eq [OF assms(1)] Let_def)
  qed
qed


lemma nfua_scan_min:
  assumes "entries_ok (procs s ! p)" "- 1 \<notin> set (p_inRAMQueue (procs s ! p))"
  shows "m < i \<Longrightarrow> i \<le> 16 \<Longrightarrow> (\<forall>j < i. age_at (procs s ! p) m \<le> age_at (procs s ! p) j) \<Longrightarrow>
    (\<forall>j < m. age_at (procs s ! p) m < age_at (procs s ! p) j) \<Longrightarrow>
    \<exists>m' < 16. nfua_scan p i m s = Ok m' \<and> (\<forall>j < 16. age_at (procs s ! p) m' \<le> age_at (procs s ! p) j) \<and>
      (\<forall>j < m'. age_at (procs s ! p) m' < age_at (procs s ! p) j)"
proof (induction "16 - i" arbitrary: i m)
  case 0
  then show ?case by (auto simp: nfua_scan.simps)
next
  case (Suc n)
  let ?q = "procs s ! p"
  let ?m = "if age_at ?q i < age_at ?q m then i else m"
  have i: "i < 16" using Suc.hyps(2) by simp
  have nm1: "p_inRAMQueue ?q ! j \<noteq> - 1" if "j < 16" for j
    using assms that by (intro nth_not_m1) (simp_all add: entries_ok_def)
  have "nfua_scan p i m s = nfua_scan p (Suc i) ?m s"
    using i Suc.prems(1) nm1 by (subst nfua_scan.simps) (simp add: queue_page_eq [OF assms(1)] age_at_def)
  moreover have "\<forall>j < Suc i. age_at ?q ?m \<le> age_at ?q j"
    using Suc.prems(3) by (auto simp: less_Suc_eq intro: order.trans less_imp_le)
  moreover have "\<forall>j < ?m. age_at ?q ?m < age_at ?q j"
    using Suc.prems by (auto intro: order.strict_trans2)
  ultimately show ?case
    using Suc.hyps(1) [of "Suc i" ?m] Suc.hyps(2) Suc.prems(1) i by auto
qed

text \<open>C13 [nfua_oldest]: with sixteen resident pages \<open>removeNFUA\<close> evicts the page with the smallest age
  counter, the one longest in the queue among several, and leaves the others in order.\<close>

theorem nfua_oldest:
  assumes "cur s = Some p" "p < length (procs s)" "entries_ok (procs s ! p)"
    and "- 1 \<notin> set (p_inRAMQueue (procs s ! p))"
  shows "\<exists>m < 16. removeNFUA s = Ok (p_inRAMQueue (procs s ! p) ! m,
      upd_proc p (\<lambda>q. q\<lparr>p_inRAMQueue := qrep (take m (p_inRAMQueue q) @ drop (Suc m) (p_inRAMQueue q))\<rparr>) s) \<and>
    (\<forall>j < 16. age_at (procs s ! p) m \<le> age_at (procs s ! p) j) \<and>
    (\<forall>j < m. age_at (procs s ! p) m < age_at (procs s ! p) j)"
proof -
  obtain m where m: "m < 16" "nfua_scan p 1 0 s = Ok m"
    "\<forall>j < 16. age_at (procs s ! p) m \<le> age_at (procs s ! p) j"
    "\<forall>j < m. age_at (procs s ! p) m < age_at (procs s ! p) j"
    using nfua_scan_min [OF assms(3,4), of 0 1] by auto
  have l: "length (p_inRAMQueue (procs s ! p)) = 16" using assms(3) by (simp add: entries_ok_def)
  then have "shift_down (int m) (p_inRAMQueue (procs s ! p)) =
      Ok (qrep (take m (p_inRAMQueue (procs s ! p)) @ drop (Suc m) (p_inRAMQueue (procs s ! p))))"
    using shift_down_qrep [of "p_inRAMQueue (procs s ! p)" m] m(1) by (simp add: qrep_def)
  with m l assms(1,2) show ?thesis
    by (intro exI [of _ m]) (simp add: removeNFUA_def curproc_def fixQueue_def upd_proc_def)
qed

lemma advanceQueue_noop: "cur s = Some p \<Longrightarrow> advanceQueue s = Ok s"
  by (simp add: advanceQueue_def curproc_def advance_loop.simps)

section \<open>Slots of the swap file\<close>

text \<open>C15 [offset_queue_fifo]: up to sixteen slots given back with \<open>insertOffsetQueue\<close> to an empty queue are
  all kept and are delivered by \<open>removeOffsetQueue\<close> in the same order, leaving it empty.\<close>

theorem offset_queue_fifo:
  assumes "offsets_ok s" "qabs (p_availableOffsetQueue (this_proc s)) = []" "- 1 \<notin> set xs" "length xs \<le> 16"
  shows "\<exists>s' s''. enqs insertOffsetQueue xs s = Ok s' \<and> deqs removeOffsetQueue (length xs) s' = Ok (xs, s'') \<and>
    offsets_ok s'' \<and> qabs (p_availableOffsetQueue (this_proc s'')) = []"
  using assms by (rule offsets.fifo)

definition paging_sample_proc :: "int list \<Rightarrow> proc" where
  "paging_sample_proc xs = proc0\<lparr>p_inRAMQueue := qrep xs, p_availableOffsetQueue := qrep [],
     p_pgdir := 0x80200000, p_pagesDS := map (\<lambda>i. page0\<lparr>v_address := of_nat i * 4096, age := of_nat i\<rparr>) [0..<16]\<rparr>"

definition paging_sample :: "int list \<Rightarrow> kernel" where
  "paging_sample xs = kernel0\<lparr>cur := Some 0, procs := [paging_sample_proc xs], mem := store32 (\<lambda>_. 0) 0x80200000 0x00201007\<rparr>"

lemma sample_simps [simp]:
  "cur (paging_sample xs) = Some 0" "procs (paging_sample xs) = [paging_sample_proc xs]" "this_proc (paging_sample xs) = paging_sample_proc xs"
  "p_inRAMQueue (paging_sample_proc xs) = qrep xs" "p_availableOffsetQueue (paging_sample_proc xs) = qrep []"
  "length (p_pagesDS (paging_sample_proc xs)) = 16"
  by (simp_all add: paging_sample_def paging_sample_proc_def this_proc_def)

theorem offset_queue_fifo_witness:
  "\<exists>s' s''. enqs insertOffsetQueue [0, 8192, 4096] (paging_sample []) = Ok s' \<and>
    deqs removeOffsetQueue (length [0, 8192, 4096 :: int]) s' = Ok ([0, 8192, 4096], s'') \<and> offsets_ok s'' \<and>
    qabs (p_availableOffsetQueue (this_proc s'')) = []"
  by (rule offset_queue_fifo) (simp_all add: offsets_ok_def cur_ok_def queue_ok_qrep)

text \<open>Slots of pages in the swap file; together with the free slots they are disjoint pages of
  the file below \<open>fileOffset\<close>.\<close>

definition swap_slots :: "proc \<Rightarrow> int list" where
  "swap_slots q = map file_offset (filter (\<lambda>pg. isAllocated pg \<noteq> 0 \<and> in_RAM pg = 0) (p_pagesDS q))"

definition slot_list_ok :: "int list \<Rightarrow> u32 \<Rightarrow> bool" where
  "slot_list_ok xs off \<longleftrightarrow> distinct xs \<and> 4096 dvd uint off \<and>
     (\<forall>x \<in> set xs. 0 \<le> x \<and> 4096 dvd x \<and> x < uint off)"

definition slots_ok :: "kernel \<Rightarrow> bool" where
  [inv_defs]: "slots_ok s \<longleftrightarrow> offsets_ok s \<and>
     slot_list_ok (swap_slots (this_proc s) @ qabs (p_availableOffsetQueue (this_proc s))) (p_fileOffset (this_proc s))"

lemma this_proc_upd: "cur s = Some p \<Longrightarrow> p < length (procs s) \<Longrightarrow> this_proc (upd_proc p f s) = f (this_proc s)"
  by (simp add: this_proc_def)

text \<open>C14 [swap_slot_fresh]: as long as the swap file is below 2 GiB, \<open>getFreeFileOffset\<close> hands out a
  page of the file that holds no page of the process and is not on the free list, reusing a free
  slot when there is one, and growing the file only otherwise.\<close>

theorem swap_slot_fresh:
  assumes "slots_ok s" "uint (p_fileOffset (this_proc s)) < 2 ^ 31 - 4096"
  shows "\<exists>off s'. getFreeFileOffset s = Ok (off, s') \<and> offsets_ok s' \<and>
    slot_list_ok (off # swap_slots (this_proc s) @ qabs (p_availableOffsetQueue (this_proc s'))) (p_fileOffset (this_proc s')) \<and>
    (case qabs (p_availableOffsetQueue (this_proc s)) of
       x # xs \<Rightarrow> off = x \<and> p_fileOffset (this_proc s') = p_fileOffset (this_proc s)
     | [] \<Rightarrow> off = uint (p_fileOffset (this_proc s)) \<and> uint (p_fileOffset (this_proc s')) = off + 4096)"
proof -
  from assms(1) obtain p where p: "cur s = Some p" "p < length (procs s)" by (auto simp: inv_defs)
  have o: "offsets_ok s" using assms(1) by (simp add: slots_ok_def)
  then obtain xs where xs: "p_availableOffsetQueue (this_proc s) = qrep xs" "length xs \<le> 16" "- 1 \<notin> set xs"
    by (auto simp: offsets_ok_def elim: queue_okE)
  show ?thesis
  proof (cases xs)
    case Nil
    then have "removeOffsetQueue s = Ok (- 1, s)"
      using xs p by (simp add: removeOffsetQueue_def curproc_def this_proc_def qrep_def aget_def)
    moreover have "sint (p_fileOffset (this_proc s)) = uint (p_fileOffset (this_proc s))"
      using assms(2) by (simp add: sint_uint) (rule signed_take_bit_int_eq_self, simp_all add: order.trans [OF _ uint_ge_0])
    moreover have u: "uint (p_fileOffset (this_proc s) + 4096) = uint (p_fileOffset (this_proc s)) + 4096"
      using assms(2) by (simp add: uint_word_ariths)
    ultimately show ?thesis
      using assms(1) xs Nil p
      by (auto simp: getFreeFileOffset_def curproc_def this_proc_def slots_ok_def offsets_ok_def cur_ok_def slot_list_ok_def u [unfolded this_proc_def])
  next
    case (Cons x ys)
    then obtain s' where s': "removeOffsetQueue s = Ok (x, s')" "offsets_ok s'"
      "qabs (p_availableOffsetQueue (this_proc s')) = ys"
      using offsets.deq_ok [OF o, of x ys] xs by auto
    moreover have "p_fileOffset (this_proc s') = p_fileOffset (this_proc s)"
      using s'(1) p by (auto simp: removeOffsetQueue_def fixOffsetQueue_def curproc_def rbind_Ok_iff this_proc_def split: if_splits)
    moreover have "x \<noteq> - 1" using xs Cons by auto
    ultimately show ?thesis
      using assms(1) xs Cons p by (auto simp: getFreeFileOffset_def curproc_def slots_ok_def slot_list_ok_def)
  qed
qed

theorem swap_slot_fresh_witness:
  "\<exists>off s'. getFreeFileOffset (paging_sample []) = Ok (off, s') \<and> off = 0 \<and> uint (p_fileOffset (this_proc s')) = 4096"
proof -
  have "slots_ok (paging_sample [])" "p_fileOffset (this_proc (paging_sample [])) = 0"
    by (simp_all add: slots_ok_def offsets_ok_def cur_ok_def queue_ok_qrep slot_list_ok_def swap_slots_def)
      (auto simp: paging_sample_proc_def page0_def proc0_def)
  then show ?thesis using swap_slot_fresh [of "paging_sample []"] by auto
qed

lemma sample_entries: "length xs = 16 \<Longrightarrow> \<forall>k \<in> set xs. k = - 1 \<or> 0 \<le> k \<and> k < 16 \<Longrightarrow> entries_ok (paging_sample_proc xs)"
  by (auto simp: entries_ok_def qrep_def nat_less_iff)


theorem nfua_oldest_witness:
  "\<exists>m < 16. removeNFUA (paging_sample [3, 2, 1, 0, 4, 5, 6, 7, 8, 9, 10, 11, 12, 13, 14, 15]) =
     Ok (qrep [3, 2, 1, 0, 4, 5, 6, 7, 8, 9, 10, 11, 12, 13, 14, 15] ! m,
       upd_proc 0 (\<lambda>q. q\<lparr>p_inRAMQueue := qrep (take m (p_inRAMQueue q) @ drop (Suc m) (p_inRAMQueue q))\<rparr>)
         (paging_sample [3, 2, 1, 0, 4, 5, 6, 7, 8, 9, 10, 11, 12, 13, 14, 15]))"
  using nfua_oldest [of "paging_sample [3, 2, 1, 0, 4, 5, 6, 7, 8, 9, 10, 11, 12, 13, 14, 15]" 0]
  by (simp add: sample_entries) (auto simp: qrep_def)

lemma sample_addr:
  assumes "i < 16"
  shows "pde_addr 0x80200000 (of_nat i * 4096) = 0x80200000"
    and "pte_addr (mem (paging_sample xs)) 0x80200000 (of_nat i * 4096) = 0x80201000 + 4 * of_nat i"
proof -
  have u: "unat (of_nat i * 4096 :: u32) = i * 4096"
    using assms by (simp add: unat_word_ariths unsigned_of_nat take_bit_eq_mod)
  have "PDX (of_nat i * 4096) = 0" using assms by (simp add: unat_eq_zero [symmetric] unat_PDX u)
  moreover have "PTX (of_nat i * 4096) = of_nat i"
    using assms by (simp add: word_unat_eq_iff unat_PTX u unsigned_of_nat take_bit_eq_mod)
  moreover have "load32 (mem (paging_sample xs)) 0x80200000 = 0x00201007"
    by (simp add: paging_sample_def load32_store32_same)
  ultimately show "pde_addr 0x80200000 (of_nat i * 4096) = 0x80200000"
    and "pte_addr (mem (paging_sample xs)) 0x80200000 (of_nat i * 4096) = 0x80201000 + 4 * of_nat i"
    by (simp_all add: pde_addr_def pte_addr_def PTE_ADDR_def P2V_def)
qed

lemma sample_full: "full_queue (mem (paging_sample (map int [0..<16]))) (paging_sample_proc (map int [0..<16])) (map int [0..<16])"
proof -
  have v: "va_of (paging_sample_proc xs) (int i) = of_nat i * 4096" if "i < 16" for i xs
    using that by (simp add: va_of_def paging_sample_proc_def)
  have u: "unat (0x80201000 + 4 * of_nat i :: u32) = 0x80201000 + 4 * i" if "i < 16" for i
    using that by (simp add: unat_word_ariths unsigned_of_nat take_bit_eq_mod)
  have inj: "i = j" if "0x80201000 + 4 * of_nat i = (0x80201000 + 4 * of_nat j :: u32)" "i < 16" "j < 16" for i j
  proof -
    have "unat (0x80201000 + 4 * of_nat i :: u32) = unat (0x80201000 + 4 * of_nat j :: u32)"
      by (simp only: that(1))
    then have "0x80201000 + 4 * i = 0x80201000 + 4 * j" by (simp only: u that(2,3))
    then show ?thesis by simp
  qed
  have ne: "0x80201000 + 4 * of_nat i \<noteq> (0x80200000 :: u32)" "0x80201000 + 4 * of_nat i \<noteq> (0 :: u32)" if "i < 16" for i
  proof -
    show "0x80201000 + 4 * of_nat i \<noteq> (0x80200000 :: u32)"
      
    proof
      assume "0x80201000 + 4 * of_nat i = (0x80200000 :: u32)"
      then have "unat (0x80201000 + 4 * of_nat i :: u32) = unat (0x80200000 :: u32)" by (simp only:)
      then have "0x80201000 + 4 * i = unat (0x80200000 :: u32)" by (simp only: u [OF that])
      then show False by simp
    qed
    show "0x80201000 + 4 * of_nat i \<noteq> (0 :: u32)"
      using u [OF that] by (metis add_is_0 unsigned_0 zero_neq_numeral)
  qed
  have m: "map (pte_addr (mem (paging_sample xs)) 0x80200000) (map (va_of (paging_sample_proc xs)) (map int [0..<16])) =
      map (\<lambda>i. 0x80201000 + 4 * of_nat i) [0..<16]" for xs
    by (simp add: v sample_addr)
  have l: "load32 (mem (paging_sample xs)) 0x80200000 = 0x00201007" for xs
    by (simp add: paging_sample_def load32_store32_same)
  have pg: "p_pgdir (paging_sample_proc xs) = 0x80200000" for xs by (simp add: paging_sample_proc_def)
  show ?thesis
    unfolding full_queue_def tables_ok_def pg m
    using ne by (auto simp: v sample_addr l aligned4_def u distinct_map inj_on_def inj qrep_def nat_less_iff PTE_P_def)
qed

theorem scfifo_second_chance_witness:
  "\<exists>s'. removeSCFIFO (paging_sample (map int [0..<16])) = Ok (0, s')"
proof -
  have "\<not> referenced (mem (paging_sample (map int [0..<16]))) (paging_sample_proc (map int [0..<16])) 0"
  proof -
    have "va_of (paging_sample_proc (map int [0..<16])) 0 = of_nat 0 * 4096" "p_pgdir (paging_sample_proc (map int [0..<16])) = 0x80200000"
      by (simp_all add: va_of_def paging_sample_proc_def page0_def)
    moreover have "load32 (mem (paging_sample (map int [0..<16]))) 0x80201000 = 0"
      by (simp add: paging_sample_def load32_store32_aligned aligned4_def) (simp add: load32_def)
    ultimately show ?thesis by (simp add: referenced_def sample_addr [of 0, simplified])
  qed
  then show ?thesis
    using scfifo_second_chance [of "paging_sample (map int [0..<16])" 0 "map int [0..<16]"] sample_full
    by (simp add: find_from.simps)
qed

end
