(* ===== verification/Uvm.thy ===== *)
theory Uvm
  imports Swap Paging
begin

text \<open>
  User address spaces (the rest of \<open>vm.c\<close>): \<open>setupkvm\<close>, \<open>loaduvm\<close>, \<open>allocuvm\<close>,
  \<open>deallocuvm\<close>, \<open>freevm\<close>, \<open>copyuvm\<close>, and paging out, \<open>selectPage\<close> and \<open>swapToFile\<close>. The
  conditional compilation on a replacement policy is a test of \<open>sel\<close>.
\<close>

definition paging :: "kernel \<Rightarrow> bool" where
  "paging s \<longleftrightarrow> sel s \<noteq> NO_SELECTION"

definition pgdir_of :: "nat \<Rightarrow> kernel \<Rightarrow> u32" where
  "pgdir_of p s = p_pgdir (procs s ! p)"

section \<open>Paging out\<close>

definition selectPage :: "kernel \<Rightarrow> u32 kres" where
  "selectPage s =
     rbind (case sel s of
              SCFIFO \<Rightarrow> removeSCFIFO s
            | NFUA \<Rightarrow> removeNFUA s
            | LAPA \<Rightarrow> removeLAPA s
            | AQ \<Rightarrow> removeAQ s
            | NO_SELECTION \<Rightarrow> Ok (0, s)) (\<lambda>(index, s).
     rbind (curproc s) (\<lambda>p.
     rbind (aget ''pagesDS'' (p_pagesDS (procs s ! p)) index) (\<lambda>pg.
     Ok (v_address pg, s))))"

definition swapToFile :: "u32 \<Rightarrow> kernel \<Rightarrow> u32 kres" where
  "swapToFile pgdir s =
     rbind (curproc s) (\<lambda>p.
     rbind (selectPage s) (\<lambda>(address, s).
     rbind (getFreeFileOffset s) (\<lambda>(offset, s).
     rbind (vread s address 4096) (\<lambda>bytes.
     rbind (writeToSwapFile p bytes (word_of_int offset) s) (\<lambda>(_, s).
     case find_from (\<lambda>i. v_address (p_pagesDS (procs s ! p) ! i) = address) 0 MAX_TOTAL_PAGES of
       None \<Rightarrow> Undef ''pagesDS''
     | Some i \<Rightarrow>
         let s = upd_page p i (\<lambda>pg. pg\<lparr>file_offset := offset, in_RAM := 0\<rparr>) s;
             s = upd_proc p (\<lambda>q. q\<lparr>p_totalNumberOfPagedOut := p_totalNumberOfPagedOut q + 1,
                   p_numberOfPagedOut := p_numberOfPagedOut q + 1\<rparr>) s in
         rbind (walkpgdir pgdir address False s) (\<lambda>(pte, s).
         rbind (get_pte pte s) (\<lambda>w.
         rbind (set_pte pte (PTE_PG_ON (PTE_P_OFF w)) s) (\<lambda>s.
         rbind (get_pte pte s) (\<lambda>w.
         let v = P2V (PTE_ADDR w) in
         rbind (kfree v s) (\<lambda>s.
         Ok (v, s\<lparr>cr3 := V2P (pgdir_of p s)\<rparr>)))))))))))"

section \<open>Shrinking and freeing\<close>

text \<open>A loop that wraps around the address space starts over and never ends.\<close>

function deallocuvm_loop :: "u32 \<Rightarrow> u32 \<Rightarrow> int \<Rightarrow> u32 \<Rightarrow> kernel \<Rightarrow> (kernel, kernel) res" where
  "deallocuvm_loop pgdir oldsz flag a s =
     (if a < oldsz then
        rbind (walkpgdir pgdir a False s) (\<lambda>(pte, s).
        let nxt = (if pte = 0 then PGADDR (PDX a + 1) 0 0 else a + PGSIZE) in
        rbind (if pte = 0 then Ok s
               else rbind (get_pte pte s) (\<lambda>w.
                 if w AND PTE_P \<noteq> 0 then
                   if PTE_ADDR w = 0 then Panic ''kfree''
                   else
                     rbind (if paging s then
                              rbind (curproc s) (\<lambda>p.
                              if p_pid (procs s ! p) > DEFAULT_PROCESSES \<and> flag = 1
                              then deallocatePage a s else Ok s)
                            else Ok s) (\<lambda>s.
                     rbind (kfree (P2V (PTE_ADDR w)) s) (set_pte pte 0))
                 else if paging s then
                   rbind (curproc s) (\<lambda>p.
                   if p_pid (procs s ! p) > DEFAULT_PROCESSES \<and> w AND PTE_PG \<noteq> 0 then
                     if PTE_ADDR w = 0 then Panic ''kfree''
                     else
                       rbind (if flag = 1 then deallocatePage a s else Ok s) (set_pte pte 0)
                   else Ok s)
                 else Ok s)) (\<lambda>s.
        if nxt \<le> a then Hang else deallocuvm_loop pgdir oldsz flag nxt s))
      else Ok s)"
  by pat_completeness auto
termination
proof (relation "measure (\<lambda>(_, _, _, a, _). 2 ^ 32 - unat a)", goal_cases)
  case (2 pgdir oldsz flag a s x pte s' nxt s'')
  then show ?case
    using unsigned_less [of nxt, where 'a = nat] by (simp add: word_le_nat_alt not_le del: unsigned_less)
qed simp

declare deallocuvm_loop.simps [simp del]

definition deallocuvm :: "u32 \<Rightarrow> u32 \<Rightarrow> u32 \<Rightarrow> int \<Rightarrow> kernel \<Rightarrow> u32 kres" where
  "deallocuvm pgdir oldsz newsz flag s =
     (if newsz \<ge> oldsz then Ok (oldsz, s)
      else rbind (deallocuvm_loop pgdir oldsz flag (PGROUNDUP newsz) s) (\<lambda>s. Ok (newsz, s)))"

fun freevm_tables :: "u32 \<Rightarrow> nat list \<Rightarrow> kernel \<Rightarrow> (kernel, kernel) res" where
  "freevm_tables pgdir [] s = Ok s"
| "freevm_tables pgdir (i # is) s =
     (let pde = load32 (mem s) (pgdir + 4 * of_nat i) in
      if pde AND PTE_P \<noteq> 0 then rbind (kfree (P2V (PTE_ADDR pde)) s) (freevm_tables pgdir is)
      else freevm_tables pgdir is s)"

definition freevm :: "u32 \<Rightarrow> kernel \<Rightarrow> (kernel, kernel) res" where
  "freevm pgdir s =
     (if pgdir = 0 then Panic ''freevm: no pgdir''
      else
        rbind (deallocuvm pgdir KERNBASE 0 0 s) (\<lambda>(_, s).
        rbind (freevm_tables pgdir [0..<NPDENTRIES] s) (kfree pgdir)))"

section \<open>Building\<close>

fun setupkvm_loop :: "u32 \<Rightarrow> (u32 \<times> u32 \<times> u32 \<times> u32) list \<Rightarrow> kernel \<Rightarrow> u32 kres" where
  "setupkvm_loop pgdir [] s = Ok (pgdir, s)"
| "setupkvm_loop pgdir ((virt, phys_start, phys_end, perm) # ks) s =
     rbind (mappages pgdir virt (phys_end - phys_start) phys_start perm s) (\<lambda>(r, s).
     if r < 0 then rbind (freevm pgdir s) (\<lambda>s. Ok (0, s))
     else setupkvm_loop pgdir ks s)"

definition setupkvm :: "kernel \<Rightarrow> u32 kres" where
  "setupkvm s =
     rbind (kalloc s) (\<lambda>(pgdir, s).
     if pgdir = 0 then Ok (0, s)
     else
       let s = s\<lparr>mem := memset (mem s) pgdir 0 PGSIZE\<rparr> in
       if P2V PHYSTOP > DEVSPACE then Panic ''PHYSTOP too high''
       else setupkvm_loop pgdir (kmap s) s)"

definition kvmalloc :: "kernel \<Rightarrow> (kernel, kernel) res" where
  "kvmalloc s = rbind (setupkvm s) (\<lambda>(pgdir, s). Ok (switchkvm (s\<lparr>kpgdir := pgdir\<rparr>)))"

text \<open>\<open>loaduvm\<close>: \<open>i\<close> counts bytes of the segment.\<close>

function loaduvm_loop :: "u32 \<Rightarrow> u32 \<Rightarrow> nat \<Rightarrow> u32 \<Rightarrow> nat \<Rightarrow> nat \<Rightarrow> kernel \<Rightarrow> int kres" where
  "loaduvm_loop pgdir addr ip offset sz i s =
     (if i < sz then
        rbind (walkpgdir pgdir (addr + of_nat i) False s) (\<lambda>(pte, s).
        if pte = 0 then Panic ''loaduvm: address should exist''
        else
          let pa = PTE_ADDR (load32 (mem s) pte); n = min (sz - i) 4096 in
          rbind (readi ip (offset + of_nat i) (of_nat n) s) (\<lambda>((r, bs), s).
          let s = s\<lparr>mem := store_bytes (mem s) (P2V pa) bs\<rparr> in
          if r \<noteq> int n then Ok (- 1, s)
          else loaduvm_loop pgdir addr ip offset sz (i + 4096) s))
      else Ok (0, s))"
  by pat_completeness auto
termination by (relation "measure (\<lambda>(_, _, _, _, sz, i, _). sz - i)") auto

declare loaduvm_loop.simps [simp del]

definition loaduvm :: "u32 \<Rightarrow> u32 \<Rightarrow> nat \<Rightarrow> u32 \<Rightarrow> u32 \<Rightarrow> kernel \<Rightarrow> int kres" where
  "loaduvm pgdir addr ip offset sz s =
     (if addr mod PGSIZE \<noteq> 0 then Panic ''loaduvm: addr must be page aligned''
      else loaduvm_loop pgdir addr ip offset (unat sz) 0 s)"

text \<open>The bookkeeping of \<open>allocuvm\<close> for a new page at address \<open>a\<close>.\<close>

definition record_page :: "u32 \<Rightarrow> u32 \<Rightarrow> kernel \<Rightarrow> (kernel, kernel) res" where
  "record_page pgdir a s =
     rbind (curproc s) (\<lambda>p.
     if p_pid (procs s ! p) > DEFAULT_PROCESSES then
       let i = (case find_from (\<lambda>i. isAllocated (p_pagesDS (procs s ! p) ! i) \<noteq> 1) 0 MAX_TOTAL_PAGES of
                  Some i \<Rightarrow> i | None \<Rightarrow> MAX_TOTAL_PAGES) in
       if i \<ge> length (p_pagesDS (procs s ! p)) then Undef ''pagesDS''
       else
         let s = upd_page p i (\<lambda>pg. pg\<lparr>isAllocated := 1, v_address := a, in_RAM := 1, file_offset := - 1\<rparr>) s in
         rbind (insert_page (int i) s) (\<lambda>s.
         let s = upd_proc p (\<lambda>q. q\<lparr>p_numberOfAllocatedPages := p_numberOfAllocatedPages q + 1\<rparr>) s in
         rbind (walkpgdir pgdir a False s) (\<lambda>(pte, s).
         rbind (get_pte pte s) (\<lambda>w.
         set_pte pte (PTE_PG_OFF (PTE_P_ON w)) s)))
     else Ok s)"

text \<open>\<open>newsz\<close> is below \<open>KERNBASE\<close> when the loop is reached, so \<open>a\<close> does not wrap.\<close>

function allocuvm_loop :: "u32 \<Rightarrow> u32 \<Rightarrow> u32 \<Rightarrow> nat \<Rightarrow> kernel \<Rightarrow> u32 kres" where
  "allocuvm_loop pgdir oldsz newsz a s =
     (if a < unat newsz then
        rbind (if paging s then
                 rbind (curproc s) (\<lambda>p.
                 if p_pid (procs s ! p) > DEFAULT_PROCESSES \<and> a \<ge> 4096 * MAX_PSYC_PAGES
                 then rbind (swapToFile pgdir s) (\<lambda>(_, s). Ok s) else Ok s)
               else Ok s) (\<lambda>s.
        rbind (kalloc s) (\<lambda>(m, s).
        if m = 0 then
          rbind (cprintf (chars ''allocuvm out of memory'' @ [10]) [] s) (\<lambda>s.
          rbind (deallocuvm pgdir newsz oldsz 0 s) (\<lambda>(_, s). Ok (0, s)))
        else
          let s = s\<lparr>mem := memset (mem s) m 0 PGSIZE\<rparr> in
          rbind (mappages pgdir (of_nat a) PGSIZE (V2P m) (PTE_W OR PTE_U) s) (\<lambda>(r, s).
          if r < 0 then
            rbind (cprintf (chars ''allocuvm out of memory (2)'' @ [10]) [] s) (\<lambda>s.
            rbind (deallocuvm pgdir newsz oldsz 0 s) (\<lambda>(_, s).
            rbind (kfree m s) (\<lambda>s. Ok (0, s))))
          else
            rbind (if paging s then record_page pgdir (of_nat a) s else Ok s) (\<lambda>s.
            allocuvm_loop pgdir oldsz newsz (a + 4096) s))))
      else Ok (newsz, s))"
  by pat_completeness auto
termination by (relation "measure (\<lambda>(_, _, newsz, a, _). unat newsz - a)") auto

declare allocuvm_loop.simps [simp del]

definition allocuvm :: "u32 \<Rightarrow> u32 \<Rightarrow> u32 \<Rightarrow> kernel \<Rightarrow> u32 kres" where
  "allocuvm pgdir oldsz newsz s =
     (if newsz \<ge> KERNBASE then Ok (0, s)
      else if newsz < oldsz then Ok (oldsz, s)
      else allocuvm_loop pgdir oldsz newsz (unat (PGROUNDUP oldsz)) s)"

section \<open>Copying\<close>

text \<open>\<open>i\<close> counts bytes; the size of a process is below \<open>KERNBASE\<close>.\<close>

function copyuvm_loop :: "u32 \<Rightarrow> u32 \<Rightarrow> nat \<Rightarrow> nat \<Rightarrow> kernel \<Rightarrow> u32 kres" where
  "copyuvm_loop d pgdir sz i s =
     (if i < sz then
        rbind (walkpgdir pgdir (of_nat i) False s) (\<lambda>(pte, s).
        if pte = 0 then Panic ''copyuvm: pte should exist''
        else
          let w = load32 (mem s) pte in
          if w AND PTE_P = 0 then
            if w AND PTE_PG = 0 then Panic ''copyuvm: page not present''
            else copyuvm_loop d pgdir sz (i + 4096) s
          else
            rbind (kalloc s) (\<lambda>(m, s).
            if m = 0 then rbind (freevm d s) (\<lambda>s. Ok (0, s))
            else
              let s = s\<lparr>mem := memmove (mem s) m (P2V (PTE_ADDR w)) PGSIZE\<rparr> in
              rbind (mappages d (of_nat i) PGSIZE (V2P m) (PTE_FLAGS w) s) (\<lambda>(r, s).
              if r < 0 then rbind (freevm d s) (\<lambda>s. Ok (0, s))
              else copyuvm_loop d pgdir sz (i + 4096) s)))
      else Ok (d, s))"
  by pat_completeness auto
termination by (relation "measure (\<lambda>(_, _, sz, i, _). sz - i)") auto

declare copyuvm_loop.simps [simp del]

definition copyuvm :: "u32 \<Rightarrow> u32 \<Rightarrow> kernel \<Rightarrow> u32 kres" where
  "copyuvm pgdir sz s =
     rbind (setupkvm s) (\<lambda>(d, s).
     if d = 0 then Ok (0, s) else copyuvm_loop d pgdir (unat sz) 0 s)"

end
