(* ===== verification/Proc.thy ===== *)
theory Proc
  imports Uvm
begin

text \<open>
  The life of a process (\<open>proc.c\<close>): \<open>allocproc\<close>, \<open>userinit\<close>, \<open>growproc\<close>, \<open>fork\<close>, \<open>exit\<close>,
  \<open>wait\<close>, the scheduler and \<open>forkret\<close>. The trap frame and the saved context of a process are
  fields of its entry in the process table; in the code they lie at the top of its kernel stack.
  The kernel is compiled with \<open>VERBOSE_PRINT=FALSE\<close>, the default of the Makefile.
\<close>

definition SEG_UCODE :: u16 where [simp, const_defs]: "SEG_UCODE = 3"
definition SEG_UDATA :: u16 where [simp, const_defs]: "SEG_UDATA = 4"
definition DPL_USER :: u16 where [simp, const_defs]: "DPL_USER = 3"
definition FL_IF :: u32 where [simp, const_defs]: "FL_IF = 0x200"
definition TF_SIZE :: u32 where [simp, const_defs]: "TF_SIZE = 76"

section \<open>Creating a process\<close>

definition page_init :: "policy \<Rightarrow> page" where
  "page_init pol = \<lparr>v_address = 0, file_offset = - 1, in_RAM = 0, isAllocated = 0,
     age = (if pol = LAPA then 0xFFFFFFFF else 0)\<rparr>"

definition allocproc :: "kernel \<Rightarrow> nat option kres" where
  "allocproc s =
     rbind (acquire L_ptable s) (\<lambda>s.
     case find_from (\<lambda>i. p_state (procs s ! i) = UNUSED) 0 (length (procs s)) of
       None \<Rightarrow> rbind (release L_ptable s) (\<lambda>s. Ok (None, s))
     | Some p \<Rightarrow>
         let s = upd_proc p (\<lambda>q. q\<lparr>p_state := EMBRYO, p_pid := nextpid s\<rparr>) s;
             s = s\<lparr>nextpid := nextpid s + 1\<rparr> in
         rbind (release L_ptable s) (\<lambda>s.
         rbind (kalloc s) (\<lambda>(stk, s).
         let s = upd_proc p (\<lambda>q. q\<lparr>p_kstack := stk\<rparr>) s in
         if stk = 0 then Ok (None, upd_proc p (\<lambda>q. q\<lparr>p_state := UNUSED\<rparr>) s)
         else
           let s = s\<lparr>mem := store32 (mem s) (stk + PGSIZE - TF_SIZE - 4) (k_trapret s)\<rparr> in
           Ok (Some p, upd_proc p (\<lambda>q. q\<lparr>p_context := context0\<lparr>ctx_eip := k_forkret s\<rparr>,
             p_fileOffset := 0, p_numberOfPagedOut := 0, p_numberOfPageFaults := 0,
             p_totalNumberOfPagedOut := 0, p_numberOfAllocatedPages := 0,
             p_pagesDS := replicate MAX_TOTAL_PAGES (page_init (sel s)),
             p_inRAMQueue := replicate MAX_PSYC_PAGES (- 1),
             p_availableOffsetQueue := replicate MAX_PSYC_PAGES (- 1)\<rparr>) s))))"

text \<open>\<open>start\<close> and \<open>size\<close> are the linker symbols of the embedded \<open>initcode\<close>.\<close>

definition init_tf :: trapframe where
  "init_tf = tf0\<lparr>tf_cs := push_bit 3 SEG_UCODE OR DPL_USER, tf_ds := push_bit 3 SEG_UDATA OR DPL_USER,
     tf_es := push_bit 3 SEG_UDATA OR DPL_USER, tf_ss := push_bit 3 SEG_UDATA OR DPL_USER,
     tf_eflags := FL_IF, tf_esp := PGSIZE, tf_eip := 0\<rparr>"

definition userinit :: "u32 \<Rightarrow> u32 \<Rightarrow> kernel \<Rightarrow> (kernel, kernel) res" where
  "userinit start sz s =
     rbind (getCurrentCapacity s) (\<lambda>(n, s).
     let s = s\<lparr>initial_size := n\<rparr> in
     rbind (allocproc s) (\<lambda>(p, s).
     let s = s\<lparr>initproc := p\<rparr> in
     case p of
       None \<Rightarrow> Undef ''null proc''
     | Some p \<Rightarrow>
         rbind (setupkvm s) (\<lambda>(pgdir, s).
         let s = upd_proc p (\<lambda>q. q\<lparr>p_pgdir := pgdir\<rparr>) s in
         if pgdir = 0 then Panic ''userinit: out of memory?''
         else
           rbind (inituvm pgdir start sz s) (\<lambda>s.
           let s = upd_proc p (\<lambda>q. q\<lparr>p_sz := PGSIZE, p_tf := init_tf,
                 p_name := blit (p_name q) 0 (safestrcpy 16 [105, 110, 105, 116, 99, 111, 100, 101])\<rparr>) s in
           rbind (namei [SLASH] s) (\<lambda>(ip, s).
           let s = upd_proc p (\<lambda>q. q\<lparr>p_cwd := ip\<rparr>) s in
           rbind (acquire L_ptable s) (\<lambda>s.
           release L_ptable (upd_proc p (\<lambda>q. q\<lparr>p_state := RUNNABLE\<rparr>) s)))))))"

definition growproc :: "int \<Rightarrow> kernel \<Rightarrow> int kres" where
  "growproc n s =
     rbind (curproc s) (\<lambda>p.
     let sz = p_sz (procs s ! p); pgdir = p_pgdir (procs s ! p);
         finish = (\<lambda>sz s. rbind (switchuvm (Some p) (upd_proc p (\<lambda>q. q\<lparr>p_sz := sz\<rparr>) s)) (\<lambda>s. Ok (0, s))) in
     if n > 0 then
       rbind (allocuvm pgdir sz (sz + word_of_int n) s) (\<lambda>(sz, s).
       if sz = 0 then Ok (- 1, s) else finish sz s)
     else if n < 0 then
       let s = upd_proc p (\<lambda>q. q\<lparr>p_numberOfAllocatedPages :=
             p_numberOfAllocatedPages q + (n + 4095) div 4096\<rparr>) s in
       rbind (deallocuvm pgdir sz (sz + word_of_int n) 1 s) (\<lambda>(sz, s).
       if sz = 0 then Ok (- 1, s) else finish sz s)
     else finish sz s)"

section \<open>Forking\<close>

fun dup_files :: "nat \<Rightarrow> nat \<Rightarrow> nat list \<Rightarrow> kernel \<Rightarrow> (kernel, kernel) res" where
  "dup_files me np [] s = Ok s"
| "dup_files me np (i # is) s =
     (case p_ofile (procs s ! me) ! i of
        None \<Rightarrow> dup_files me np is s
      | Some f \<Rightarrow>
          rbind (filedup f s) (\<lambda>(f, s).
          dup_files me np is (upd_proc np (\<lambda>q. q\<lparr>p_ofile := (p_ofile q)[i := Some f]\<rparr>) s)))"

text \<open>The copy of the parent's swap file, through the page \<open>newPage\<close>.\<close>

fun copy_swap :: "nat \<Rightarrow> nat \<Rightarrow> u32 \<Rightarrow> nat list \<Rightarrow> kernel \<Rightarrow> (kernel, kernel) res" where
  "copy_swap me np newPage [] s = Ok s"
| "copy_swap me np newPage (i # is) s =
     rbind (readFromSwapFile me (of_nat i * PGSIZE) 4096 s) (\<lambda>((_, bs), s).
     rbind (vwrite newPage bs s) (\<lambda>s.
     rbind (vread s newPage 4096) (\<lambda>bs.
     rbind (writeToSwapFile np bs (of_nat i * PGSIZE) s) (\<lambda>(_, s).
     copy_swap me np newPage is s))))"

definition fork_paging :: "nat \<Rightarrow> nat \<Rightarrow> kernel \<Rightarrow> (kernel, kernel) res" where
  "fork_paging me np s =
     rbind (createSwapFile np s) (\<lambda>(_, s).
     let s = upd_proc np (\<lambda>q. q\<lparr>p_fileOffset := p_fileOffset (procs s ! me),
           p_numberOfPagedOut := p_numberOfPagedOut (procs s ! me),
           p_numberOfAllocatedPages := p_numberOfAllocatedPages (procs s ! me),
           p_numberOfPageFaults := 0, p_totalNumberOfPagedOut := 0,
           p_pagesDS := p_pagesDS (procs s ! me)\<rparr>) s in
     rbind (kalloc s) (\<lambda>(newPage, s).
     rbind (copy_swap me np newPage [0..<unat (p_numberOfPagedOut (procs s ! me))] s) (\<lambda>s.
     kfree newPage (upd_proc np (\<lambda>q. q\<lparr>p_inRAMQueue := p_inRAMQueue (procs s ! me),
       p_availableOffsetQueue := p_availableOffsetQueue (procs s ! me)\<rparr>) s))))"

definition fork :: "kernel \<Rightarrow> int kres" where
  "fork s =
     rbind (curproc s) (\<lambda>me.
     rbind (allocproc s) (\<lambda>(np, s).
     case np of
       None \<Rightarrow> Ok (- 1, s)
     | Some np \<Rightarrow>
         rbind (copyuvm (p_pgdir (procs s ! me)) (p_sz (procs s ! me)) s) (\<lambda>(pgdir, s).
         let s = upd_proc np (\<lambda>q. q\<lparr>p_pgdir := pgdir\<rparr>) s in
         if pgdir = 0 then
           rbind (kfree (p_kstack (procs s ! np)) s) (\<lambda>s.
           Ok (- 1, upd_proc np (\<lambda>q. q\<lparr>p_kstack := 0, p_state := UNUSED\<rparr>) s))
         else
           let s = upd_proc np (\<lambda>q. q\<lparr>p_sz := p_sz (procs s ! me), p_parent := Some me,
                 p_tf := (p_tf (procs s ! me))\<lparr>tf_eax := 0\<rparr>\<rparr>) s in
           rbind (dup_files me np [0..<NOFILE] s) (\<lambda>s.
           case p_cwd (procs s ! me) of
             None \<Rightarrow> Undef ''null inode''
           | Some ip \<Rightarrow>
               rbind (idup ip s) (\<lambda>(ip, s).
               let s = upd_proc np (\<lambda>q. q\<lparr>p_cwd := Some ip,
                     p_name := blit (p_name q) 0 (safestrcpy 16 (p_name (procs s ! me)))\<rparr>) s;
                   pid = p_pid (procs s ! np) in
               rbind (if paging s \<and> pid > DEFAULT_PROCESSES then fork_paging me np s else Ok s) (\<lambda>s.
               rbind (acquire L_ptable s) (\<lambda>s.
               rbind (release L_ptable (upd_proc np (\<lambda>q. q\<lparr>p_state := RUNNABLE\<rparr>) s)) (\<lambda>s.
               Ok (pid, s)))))))))"

section \<open>Exiting and waiting\<close>

fun close_files :: "nat \<Rightarrow> nat list \<Rightarrow> kernel \<Rightarrow> (kernel, kernel) res" where
  "close_files me [] s = Ok s"
| "close_files me (fd # fds) s =
     (case p_ofile (procs s ! me) ! fd of
        None \<Rightarrow> close_files me fds s
      | Some f \<Rightarrow>
          rbind (fileclose f s) (\<lambda>s.
          close_files me fds (upd_proc me (\<lambda>q. q\<lparr>p_ofile := (p_ofile q)[fd := None]\<rparr>) s)))"

fun pass_children :: "nat \<Rightarrow> nat list \<Rightarrow> kernel \<Rightarrow> kernel" where
  "pass_children me [] s = s"
| "pass_children me (i # is) s =
     (if p_parent (procs s ! i) = Some me then
        let s = upd_proc i (\<lambda>q. q\<lparr>p_parent := initproc s\<rparr>) s in
        pass_children me is
          (if p_state (procs s ! i) = ZOMBIE then wakeup1 (map_option C_proc (initproc s)) s else s)
      else pass_children me is s)"

definition exit_last :: "nat \<Rightarrow> kernel \<Rightarrow> kernel" where
  "exit_last me s =
     (let s = wakeup1 (map_option C_proc (p_parent (procs s ! me))) s;
          s = pass_children me [0..<length (procs s)] s in
      upd_proc me (\<lambda>q. q\<lparr>p_state := ZOMBIE\<rparr>) s)"

definition exit :: "kernel \<Rightarrow> (kernel, 'a) res" where
  "exit s =
     rbind (curproc s) (\<lambda>me.
     if Some me = initproc s then Panic ''init exiting''
     else
       rbind (close_files me [0..<NOFILE] s) (\<lambda>s.
       rbind (begin_op s) (\<lambda>s.
       case p_cwd (procs s ! me) of
         None \<Rightarrow> Undef ''null inode''
       | Some ip \<Rightarrow>
           rbind (iput ip s) (\<lambda>s.
           rbind (end_op s) (\<lambda>s.
           let s = upd_proc me (\<lambda>q. q\<lparr>p_cwd := None\<rparr>) s in
           rbind (if paging s then rbind (removeSwapFile me s) (\<lambda>(_, s). Ok s) else Ok s) (\<lambda>s.
           rbind (acquire L_ptable s) (\<lambda>s.
           sched (exit_last me s))))))))"

definition reap :: "nat \<Rightarrow> kernel \<Rightarrow> int kres" where
  "reap p s =
     (let pid = p_pid (procs s ! p) in
      rbind (kfree (p_kstack (procs s ! p)) s) (\<lambda>s.
      let s = upd_proc p (\<lambda>q. q\<lparr>p_kstack := 0\<rparr>) s in
      rbind (freevm (p_pgdir (procs s ! p)) s) (\<lambda>s.
      let s = upd_proc p (\<lambda>q. q\<lparr>p_pid := 0, p_parent := None, p_name := (p_name q)[0 := 0],
            p_killed := False, p_state := UNUSED\<rparr>) s in
      rbind (release L_ptable s) (\<lambda>s. Ok (pid, s)))))"

definition wait :: "kernel \<Rightarrow> int kres" where
  "wait s =
     rbind (curproc s) (\<lambda>me.
     rbind (acquire L_ptable s) (\<lambda>s.
     case find_from (\<lambda>i. p_parent (procs s ! i) = Some me \<and> p_state (procs s ! i) = ZOMBIE)
         0 (length (procs s)) of
       Some p \<Rightarrow> reap p s
     | None \<Rightarrow>
         if find_from (\<lambda>i. p_parent (procs s ! i) = Some me) 0 (length (procs s)) = None \<or>
            p_killed (procs s ! me)
         then rbind (release L_ptable s) (\<lambda>s. Ok (- 1, s))
         else sleep (C_proc me) L_ptable s))"

section \<open>The scheduler\<close>

text \<open>
  The scheduler is cut at \<open>swtch\<close>: \<open>scheduler_to i\<close> is its search of the process table from
  entry \<open>i\<close> on, up to the switch to the process it finds (which is returned), or the end of the
  table, where \<open>ptable.lock\<close> is released; \<open>scheduler_back\<close> is what it does when a process has
  switched back.
\<close>

definition scheduler_to :: "nat \<Rightarrow> kernel \<Rightarrow> nat option kres" where
  "scheduler_to i s =
     (case find_from (\<lambda>i. p_state (procs s ! i) = RUNNABLE) i (length (procs s)) of
        None \<Rightarrow> rbind (release L_ptable s) (\<lambda>s. Ok (None, s))
      | Some p \<Rightarrow>
          rbind (switchuvm (Some p) (s\<lparr>cur := Some p\<rparr>)) (\<lambda>s.
          Ok (Some p, upd_proc p (\<lambda>q. q\<lparr>p_state := RUNNING\<rparr>) s)))"

definition scheduler_back :: "kernel \<Rightarrow> (kernel, kernel) res" where
  "scheduler_back s =
     (let s = switchkvm s in
      rbind (if sel s = NFUA \<or> sel s = LAPA then agePages s
             else if sel s = AQ then advanceQueue s
             else Ok s) (\<lambda>s.
      Ok (s\<lparr>cur := None\<rparr>)))"

definition scheduler :: "kernel \<Rightarrow> nat option kres" where
  "scheduler s = rbind (acquire L_ptable (s\<lparr>cur := None\<rparr>)) (scheduler_to 0)"

definition forkret :: "kernel \<Rightarrow> (kernel, kernel) res" where
  "forkret s =
     rbind (release L_ptable s) (\<lambda>s.
     if forkret_first s then
       rbind (iinit ROOTDEV (s\<lparr>forkret_first := False\<rparr>)) (initlog ROOTDEV)
     else Ok s)"

section \<open>Fairness of the scheduler\<close>

text \<open>One pass of the scheduler over the table: \<open>run p\<close> is what happens between the switch to process \<open>p\<close> and the
  next round of the loop, \<open>scheduler_back\<close> included. The result lists the processes that were run.\<close>

function sched_pass :: "(nat \<Rightarrow> kernel \<Rightarrow> kernel) \<Rightarrow> nat \<Rightarrow> kernel \<Rightarrow> nat list" where
  "sched_pass run i s =
     (case scheduler_to i s of
        Ok (Some p, t) \<Rightarrow> if i \<le> p \<and> p < NPROC then p # sched_pass run (Suc p) (run p t) else []
      | _ \<Rightarrow> [])"
  by pat_completeness auto
termination by (relation "measure (\<lambda>(_, i, _). NPROC - i)") auto

declare sched_pass.simps [simp del]

text \<open>A process that can be switched to.\<close>

definition ready :: "kernel \<Rightarrow> nat \<Rightarrow> bool" where
  "ready s q \<longleftrightarrow> q < length (procs s) \<and> p_state (procs s ! q) = RUNNABLE \<and> p_kstack (procs s ! q) \<noteq> 0 \<and> p_pgdir (procs s ! q) \<noteq> 0"

definition runnable_ready :: "kernel \<Rightarrow> bool" where
  "runnable_ready s \<longleftrightarrow> length (procs s) = NPROC \<and> (\<forall>q < NPROC. p_state (procs s ! q) = RUNNABLE \<longrightarrow> ready s q)"

lemma sched_pass_cases:
  "sched_pass run i s = [] \<or> (\<exists>p t. i \<le> p \<and> p < NPROC \<and> sched_pass run i s = p # sched_pass run (Suc p) (run p t))"
  by (subst (1 2) sched_pass.simps) (auto split: res.split prod.split option.split)

lemma sched_pass_sorted: "sorted_wrt (<) (sched_pass run i s) \<and> (\<forall>p \<in> set (sched_pass run i s). i \<le> p)"
proof (induction "NPROC - i" arbitrary: i s rule: less_induct)
  case less
  consider "sched_pass run i s = []" | p t where "i \<le> p" "p < NPROC" "sched_pass run i s = p # sched_pass run (Suc p) (run p t)"
    using sched_pass_cases by blast
  then show ?case
  proof cases
    case (2 p t)
    then have "NPROC - Suc p < NPROC - i" by (auto simp del: NPROC_def)
    then show ?thesis using less [of "Suc p" "run p t"] 2 by (force simp: Suc_le_eq)
  qed simp
qed

lemma scheduler_to_next:
  assumes "runnable_ready s" "ready s q" "i \<le> q"
  shows "\<exists>p t. scheduler_to i s = Ok (Some p, t) \<and> i \<le> p \<and> p \<le> q \<and> p < NPROC \<and> ready s p \<and> length (procs t) = NPROC \<and>
    cur t = Some p \<and> p_state (procs t ! p) = RUNNING \<and> (\<forall>r. r \<noteq> p \<longrightarrow> procs t ! r = procs s ! r)"
proof -
  have l: "length (procs s) = NPROC" "q < NPROC" using assms(1,2) by (simp_all add: runnable_ready_def ready_def)
  obtain p where f: "find_from (\<lambda>i. p_state (procs s ! i) = RUNNABLE) i (length (procs s)) = Some p"
    using find_from_NoneD [of _ i "length (procs s)" q] assms(2,3) l by (fastforce simp: ready_def)
  note p = find_from_SomeD [OF f]
  then have "p \<le> q" using assms(2,3) by (metis leI ready_def)
  moreover have r: "ready s p" using p assms(1) l by (simp add: runnable_ready_def)
  ultimately show ?thesis
    using p l f by (simp add: scheduler_to_def switchuvm_def ready_def upd_proc_def nth_list_update)
qed


definition sched_sample :: kernel where
  "sched_sample = kernel0\<lparr>locks := (\<lambda>_. False)(L_ptable := True), ncli := 1, procs := (replicate NPROC proc0)
     [3 := proc0\<lparr>p_state := RUNNABLE, p_kstack := 0x80200000, p_pgdir := 0x80300000\<rparr>,
      9 := proc0\<lparr>p_state := RUNNABLE, p_kstack := 0x80201000, p_pgdir := 0x80301000\<rparr>]\<rparr>"

text \<open>A process that goes to sleep at once.\<close>

definition run_sleep :: "nat \<Rightarrow> kernel \<Rightarrow> kernel" where
  "run_sleep p s = (if runnable_ready s then s else s\<lparr>procs := map (\<lambda>q. if p_kstack q = 0 \<or> p_pgdir q = 0
     then q\<lparr>p_state := SLEEPING\<rparr> else q) (procs s)\<rparr>)"


section \<open>The shape of the process table\<close>

definition proc_shape :: "proc \<Rightarrow> bool" where
  "proc_shape q \<longleftrightarrow> length (p_ofile q) = NOFILE \<and> length (p_name q) = 16 \<and> length (p_pagesDS q) = MAX_TOTAL_PAGES \<and>
     length (p_inRAMQueue q) = MAX_PSYC_PAGES \<and> length (p_availableOffsetQueue q) = MAX_PSYC_PAGES"

definition ptable_shape :: "kernel \<Rightarrow> bool" where
  [inv_defs]: "ptable_shape s \<longleftrightarrow> length (procs s) = NPROC \<and> (\<forall>q \<in> set (procs s). proc_shape q)"

lemma shape_upd [intro]:
  assumes "ptable_shape s" "\<And>q. proc_shape q \<Longrightarrow> proc_shape (f q)"
  shows "ptable_shape (upd_proc i f s)"
proof (cases "i < length (procs s)")
  case True
  then show ?thesis using assms set_update_subset_insert [of "procs s" i "f (procs s ! i)"]
    by (auto simp: ptable_shape_def upd_proc_def)
qed (use assms(1) in \<open>simp add: upd_proc_def list_update_beyond ptable_shape_def\<close>)

lemma shape_same: "procs s' = procs s \<Longrightarrow> ptable_shape s' = ptable_shape s"
  by (simp add: ptable_shape_def)

lemma shape_locks [simp]: "ptable_shape (s\<lparr>locks := l\<rparr>) = ptable_shape s" "ptable_shape (s\<lparr>ncli := n\<rparr>) = ptable_shape s"
  "ptable_shape (s\<lparr>nextpid := i\<rparr>) = ptable_shape s" "ptable_shape (s\<lparr>mem := m\<rparr>) = ptable_shape s"
  by (simp_all add: ptable_shape_def)

lemma acquire_procs: "acquire l s = Ok s' \<Longrightarrow> procs s' = procs s"
  and release_procs: "release l s = Ok s' \<Longrightarrow> procs s' = procs s"
  by (auto simp: acquire_def release_def split: if_splits)

lemma kalloc_procs: "kalloc s = Ok (r, s') \<Longrightarrow> procs s' = procs s"
  by (auto simp: kalloc_def Let_def rbind_Ok_iff dest!: acquire_procs release_procs split: if_splits)

lemma wakeup1_shape: "ptable_shape s \<Longrightarrow> ptable_shape (wakeup1 ch s)"
  by (auto simp: ptable_shape_def wakeup1_def proc_shape_def)

lemma sched_state: "sched s = Block s' \<Longrightarrow> s' = s"
  by (auto simp: sched_def curproc_def split: if_splits option.splits)

lemma shape_eq: "ptable_shape s \<Longrightarrow> procs s' = procs s \<Longrightarrow> ptable_shape s'"
  by (simp add: ptable_shape_def)

lemma allocproc_shape:
  assumes "ptable_shape s" "allocproc s = Ok (r, s')"
  shows "ptable_shape s'"
proof -
  from assms(2) obtain s1 where s1: "acquire L_ptable s = Ok s1"
    by (auto simp: allocproc_def rbind_Ok_iff)
  have 1: "ptable_shape s1" using shape_eq [OF assms(1) acquire_procs [OF s1]] .
  show ?thesis
  proof (cases "find_from (\<lambda>i. p_state (procs s1 ! i) = UNUSED) 0 (length (procs s1))")
    case None
    with assms(2) s1 show ?thesis
      by (auto simp: allocproc_def rbind_Ok_iff dest!: release_procs intro: shape_eq [OF 1])
  next
    case (Some p)
    let ?a = "upd_proc p (\<lambda>q. q\<lparr>p_state := EMBRYO, p_pid := nextpid s1\<rparr>) s1"
    have 2: "ptable_shape (?a\<lparr>nextpid := n\<rparr>)" for n
      using 1 by (auto simp: proc_shape_def)
    from Some assms(2) s1 obtain s2 stk s3 where s2: "release L_ptable (?a\<lparr>nextpid := nextpid ?a + 1\<rparr>) = Ok s2"
      and s3: "kalloc s2 = Ok (stk, s3)"
      by (auto simp: allocproc_def rbind_Ok_iff Let_def)
    have "ptable_shape s3" using shape_eq [OF shape_eq [OF 2 release_procs [OF s2]] kalloc_procs [OF s3]] .
    with Some assms(2) s1 s2 s3 show ?thesis
      by (auto simp: allocproc_def rbind_Ok_iff Let_def proc_shape_def split: if_splits intro!: shape_upd)
  qed
qed

lemma kill_shape:
  assumes "ptable_shape s" "kill pid s = Ok (r, s')"
  shows "ptable_shape s'"
proof -
  from assms(2) obtain s1 where s1: "acquire L_ptable s = Ok s1"
    by (auto simp: kill_def rbind_Ok_iff)
  have 1: "ptable_shape s1" using shape_eq [OF assms(1) acquire_procs [OF s1]] .
  show ?thesis
  proof (cases "find_from (\<lambda>i. p_pid (procs s1 ! i) = pid) 0 (length (procs s1))")
    case None
    with assms(2) s1 show ?thesis
      by (auto simp: kill_def rbind_Ok_iff dest!: release_procs intro: shape_eq [OF 1])
  next
    case (Some i)
    define f :: "proc \<Rightarrow> proc" where "f = (\<lambda>q. q\<lparr>p_killed := True\<rparr>)"
    define g :: "proc \<Rightarrow> proc" where "g = (\<lambda>q. q\<lparr>p_state := RUNNABLE\<rparr>)"
    have fg: "ptable_shape (upd_proc i f s1)" "ptable_shape (upd_proc i g (upd_proc i f s1))"
      using 1 by (auto simp: f_def g_def proc_shape_def intro!: shape_upd)
    from Some assms(2) s1 have "\<exists>s2. ptable_shape s2 \<and> release L_ptable s2 = Ok s'"
      unfolding kill_def Let_def f_def [symmetric] g_def [symmetric] using fg by (auto simp: rbind_Ok_iff split: if_splits)
    then show ?thesis using shape_eq release_procs by blast
  qed
qed

lemma wakeup_shape:
  assumes "ptable_shape s" "wakeup ch s = Ok s'"
  shows "ptable_shape s'"
proof -
  from assms(2) obtain s1 where s1: "acquire L_ptable s = Ok s1" "release L_ptable (wakeup1 (Some ch) s1) = Ok s'"
    by (auto simp: wakeup_def rbind_Ok_iff)
  from shape_eq [OF assms(1) acquire_procs [OF s1(1)]] have "ptable_shape (wakeup1 (Some ch) s1)" by (rule wakeup1_shape)
  then show ?thesis using release_procs [OF s1(2)] by (rule shape_eq)
qed

lemma pass_children_shape: "ptable_shape s \<Longrightarrow> ptable_shape (pass_children me xs s)"
proof (induction me xs s rule: pass_children.induct)
  case (2 me i xs s)
  have "ptable_shape (upd_proc i (\<lambda>q. q\<lparr>p_parent := initproc s\<rparr>) s)"
    using 2(3) by (rule shape_upd) (simp add: proc_shape_def)
  with 2 wakeup1_shape show ?case by (simp add: Let_def)
qed simp

lemma exit_last_shape:
  assumes "ptable_shape s"
  shows "ptable_shape (exit_last me s)"
  unfolding exit_last_def Let_def
  by (rule shape_upd [OF pass_children_shape [OF wakeup1_shape [OF assms]]]) (simp add: proc_shape_def)

lemma rbind_Block_iff: "rbind m f = Block y \<longleftrightarrow> m = Block y \<or> (\<exists>x. m = Ok x \<and> f x = Block y)"
  by (cases m) auto

lemma acquire_not_block [simp]: "acquire l s \<noteq> Block s'" "release l s \<noteq> Block s'"
  by (simp_all add: acquire_def release_def)

lemma sleep_shape:
  assumes "ptable_shape s" "(sleep ch lk s :: (kernel, 'a) res) = Block s'"
  shows "ptable_shape s'"
proof -
  let ?f = "\<lambda>p. p\<lparr>p_chan := Some ch, p_state := SLEEPING\<rparr>"
  from assms(2) obtain p s1 s2 where s2: "procs s2 = procs s" "(sched (upd_proc p ?f s2) :: (kernel, 'a) res) = Block s'"
    by (auto simp: sleep_def rbind_Block_iff rbind_Ok_iff dest!: acquire_procs release_procs split: option.splits if_splits)
  have "ptable_shape (upd_proc p ?f s2)"
    using shape_eq [OF assms(1) s2(1)] by (rule shape_upd) (simp add: proc_shape_def)
  then show ?thesis using sched_state [OF s2(2)] by simp
qed

lemma yield_shape:
  assumes "ptable_shape s" "(yield s :: (kernel, 'a) res) = Block s'"
  shows "ptable_shape s'"
proof -
  let ?f = "\<lambda>p. p\<lparr>p_state := RUNNABLE\<rparr>"
  from assms(2) obtain p s2 where s2: "procs s2 = procs s" "(sched (upd_proc p ?f s2) :: (kernel, 'a) res) = Block s'"
    by (auto simp: yield_def rbind_Block_iff curproc_def dest!: acquire_procs split: option.splits)
  have "ptable_shape (upd_proc p ?f s2)"
    using shape_eq [OF assms(1) s2(1)] by (rule shape_upd) (simp add: proc_shape_def)
  then show ?thesis using sched_state [OF s2(2)] by simp
qed


lemma kernel0_shape: "ptable_shape kernel0"
  by (simp add: kernel0_def ptable_shape_def proc_shape_def proc0_def)


section \<open>Killing process 0\<close>

text \<open>C40 [kill_zero_marks_free_slot]: free entries of the process table have process id 0, and \<open>kill\<close> does not look at
  the state: \<open>kill(0)\<close> succeeds and marks a free entry as killed. \<open>allocproc\<close> does not clear the mark, so the
  next process created in that entry starts out killed.\<close>

lemma kill_zero_frame:
  assumes "unlocked s" "i < length (procs s)" "p_pid (procs s ! i) = 0" "p_state (procs s ! i) = UNUSED"
    "\<And>j. j < i \<Longrightarrow> p_pid (procs s ! j) \<noteq> 0"
  shows "kill 0 s = Ok (0, upd_proc i (\<lambda>q. q\<lparr>p_killed := True\<rparr>) s)"
proof -
  have "find_from (\<lambda>i. p_pid (procs s ! i) = 0) 0 (length (procs s)) = Some i"
    using assms by (simp add: find_from_eq_Some_iff)
  with assms show ?thesis by (simp add: kill_def upd_proc_def unlocked_def fun_upd_idem)
qed

lemma kalloc_unlocked:
  assumes "unlocked s" "kmem_freelist s \<noteq> 0"
  shows "kalloc s = Ok (kmem_freelist s, s\<lparr>kmem_freelist := load32 (mem s) (kmem_freelist s)\<rparr>)"
  using assms by (simp add: kalloc_def unlocked_def fun_upd_idem Let_def)

theorem kill_zero_marks_free_slot:
  assumes "unlocked s" "i < length (procs s)" "p_pid (procs s ! i) = 0" "p_state (procs s ! i) = UNUSED"
    "\<forall>j < i. p_pid (procs s ! j) \<noteq> 0 \<and> p_state (procs s ! j) \<noteq> UNUSED" "kmem_freelist s \<noteq> 0"
  shows "\<exists>s' s''. kill 0 s = Ok (0, s') \<and> allocproc s' = Ok (Some i, s'') \<and> p_killed (procs s'' ! i)"
proof -
  let ?s = "upd_proc i (\<lambda>q. q\<lparr>p_killed := True\<rparr>) s"
  let ?a = "upd_proc i (\<lambda>q. q\<lparr>p_state := EMBRYO, p_pid := nextpid s\<rparr>) ?s\<lparr>nextpid := nextpid s + 1, locks := \<lambda>_. False, ncli := 0\<rparr>"
  have k: "kill 0 s = Ok (0, ?s)" using assms by (intro kill_zero_frame) auto
  have "find_from (\<lambda>i. p_state (procs ?s ! i) = UNUSED) 0 (length (procs ?s)) = Some i"
    using assms by (auto simp: find_from_eq_Some_iff upd_proc_def)
  moreover have "unlocked ?a" "kmem_freelist ?a \<noteq> 0" using assms by (simp_all add: upd_proc_def unlocked_def)
  note kalloc_unlocked [OF this]
  ultimately have "\<exists>s''. allocproc ?s = Ok (Some i, s'') \<and> p_killed (procs s'' ! i)"
    using assms by (simp add: allocproc_def upd_proc_def unlocked_def fun_upd_idem Let_def)
  with k show ?thesis by blast
qed

definition kill_sample :: kernel where
  "kill_sample = kernel0\<lparr>kmem_freelist := 0x80400000\<rparr>"

theorem kill_zero_marks_free_slot_witness:
  "\<exists>s' s''. kill 0 kill_sample = Ok (0, s') \<and> allocproc s' = Ok (Some 0, s'') \<and> p_killed (procs s'' ! 0)"
  using kill_zero_marks_free_slot [of kill_sample 0]
  by (simp add: kill_sample_def kernel0_def unlocked_def proc0_def)

end
