(* ===== verification/Exec.thy ===== *)
theory Exec
  imports Proc
begin

text \<open>
  Replacing the image of a process (\<open>exec.c\<close>, with the headers of \<open>elf.h\<close>). The arguments
  are the bytes of the strings \<open>argv\<close> points to.
\<close>

definition ELF_MAGIC :: u32 where [simp, const_defs]: "ELF_MAGIC = 0x464C457F"
definition ELF_PROG_LOAD :: u32 where [simp, const_defs]: "ELF_PROG_LOAD = 1"

record elfhdr =
  e_magic :: u32
  e_entry :: u32
  e_phoff :: u32
  e_phnum :: u16

record proghdr =
  ph_type :: u32
  ph_off :: u32
  ph_vaddr :: u32
  ph_filesz :: u32
  ph_memsz :: u32

definition elf_of :: "u8 list \<Rightarrow> elfhdr" where
  "elf_of b = \<lparr>e_magic = rd32 b 0, e_entry = rd32 b 24, e_phoff = rd32 b 28, e_phnum = rd16 b 44\<rparr>"

definition ph_of :: "u8 list \<Rightarrow> proghdr" where
  "ph_of b = \<lparr>ph_type = rd32 b 0, ph_off = rd32 b 4, ph_vaddr = rd32 b 8, ph_filesz = rd32 b 16,
     ph_memsz = rd32 b 20\<rparr>"

section \<open>The paging data across \<open>exec\<close>\<close>

text \<open>The ages of the pages are not part of the backup.\<close>

record backup =
  bk_pagesDS :: "page list"
  bk_inRAMQueue :: "int list"
  bk_availableOffsetQueue :: "int list"
  bk_fileOffset :: u32
  bk_numberOfPagedOut :: u32
  bk_numberOfPageFaults :: int
  bk_totalNumberOfPagedOut :: int
  bk_numberOfAllocatedPages :: int

definition initializePagesDataExec :: "nat \<Rightarrow> kernel \<Rightarrow> backup \<times> kernel" where
  "initializePagesDataExec p s =
     (let q = procs s ! p in
      (\<lparr>bk_pagesDS = p_pagesDS q, bk_inRAMQueue = p_inRAMQueue q,
        bk_availableOffsetQueue = p_availableOffsetQueue q, bk_fileOffset = p_fileOffset q,
        bk_numberOfPagedOut = p_numberOfPagedOut q, bk_numberOfPageFaults = p_numberOfPageFaults q,
        bk_totalNumberOfPagedOut = p_totalNumberOfPagedOut q,
        bk_numberOfAllocatedPages = p_numberOfAllocatedPages q\<rparr>,
       upd_proc p (\<lambda>q. q\<lparr>
         p_pagesDS := map (\<lambda>pg. pg\<lparr>v_address := 0, file_offset := - 1, in_RAM := 0, isAllocated := 0\<rparr>)
           (p_pagesDS q),
         p_inRAMQueue := map (\<lambda>_. - 1) (p_inRAMQueue q),
         p_availableOffsetQueue := map (\<lambda>_. - 1) (p_availableOffsetQueue q),
         p_fileOffset := 0, p_numberOfPagedOut := 0, p_numberOfPageFaults := 0,
         p_totalNumberOfPagedOut := 0, p_numberOfAllocatedPages := 0\<rparr>) s))"

definition restoreFromBackup :: "nat \<Rightarrow> backup \<Rightarrow> kernel \<Rightarrow> kernel" where
  "restoreFromBackup p bk s =
     upd_proc p (\<lambda>q. q\<lparr>
       p_pagesDS := map2 (\<lambda>pg b. pg\<lparr>v_address := v_address b, file_offset := file_offset b,
         in_RAM := in_RAM b, isAllocated := isAllocated b\<rparr>) (p_pagesDS q) (bk_pagesDS bk),
       p_inRAMQueue := bk_inRAMQueue bk, p_availableOffsetQueue := bk_availableOffsetQueue bk,
       p_fileOffset := bk_fileOffset bk, p_numberOfPagedOut := bk_numberOfPagedOut bk,
       p_numberOfPageFaults := bk_numberOfPageFaults bk,
       p_totalNumberOfPagedOut := bk_totalNumberOfPagedOut bk,
       p_numberOfAllocatedPages := bk_numberOfAllocatedPages bk\<rparr>) s"

section \<open>Loading\<close>

text \<open>The loop over the program headers, of which \<open>n\<close> are left; \<open>None\<close> is \<open>goto bad\<close>.\<close>

fun exec_load :: "nat \<Rightarrow> u32 \<Rightarrow> nat \<Rightarrow> u32 \<Rightarrow> u32 \<Rightarrow> kernel \<Rightarrow> u32 option kres" where
  "exec_load 0 off ip pgdir sz s = Ok (Some sz, s)"
| "exec_load (Suc n) off ip pgdir sz s =
     rbind (readi ip off 32 s) (\<lambda>((r, b), s).
     if r \<noteq> 32 then Ok (None, s)
     else
       let ph = ph_of b in
       if ph_type ph \<noteq> ELF_PROG_LOAD then exec_load n (off + 32) ip pgdir sz s
       else if ph_memsz ph < ph_filesz ph then Ok (None, s)
       else if ph_vaddr ph + ph_memsz ph < ph_vaddr ph then Ok (None, s)
       else
         rbind (allocuvm pgdir sz (ph_vaddr ph + ph_memsz ph) s) (\<lambda>(sz, s).
         if sz = 0 then Ok (None, s)
         else if ph_vaddr ph mod PGSIZE \<noteq> 0 then Ok (None, s)
         else
           rbind (loaduvm pgdir (ph_vaddr ph) ip (ph_off ph) (ph_filesz ph) s) (\<lambda>(r, s).
           if r < 0 then Ok (None, s)
           else exec_load n (off + 32) ip pgdir sz s)))"

text \<open>From the ELF header to the end of the loop: the page directory (0 if there is none yet),
  and the entry point and size, unless it is \<open>goto bad\<close>.\<close>

definition exec_image :: "nat \<Rightarrow> kernel \<Rightarrow> (u32 \<times> (u32 \<times> u32) option) kres" where
  "exec_image ip s =
     rbind (readi ip 0 52 s) (\<lambda>((r, b), s).
     if r \<noteq> 52 then Ok ((0, None), s)
     else if e_magic (elf_of b) \<noteq> ELF_MAGIC then Ok ((0, None), s)
     else
       rbind (setupkvm s) (\<lambda>(pgdir, s).
       if pgdir = 0 then Ok ((0, None), s)
       else
         rbind (exec_load (unat (e_phnum (elf_of b))) (e_phoff (elf_of b)) ip pgdir 0 s) (\<lambda>(r, s).
         Ok ((pgdir, map_option (\<lambda>sz. (e_entry (elf_of b), sz)) r), s))))"

section \<open>The stack\<close>

text \<open>Pushing the argument strings; the result is \<open>sp\<close> and the entries of \<open>ustack\<close> from 3 on.\<close>

fun push_args :: "u32 \<Rightarrow> nat \<Rightarrow> u8 list list \<Rightarrow> u32 \<Rightarrow> u32 list \<Rightarrow> kernel \<Rightarrow> (u32 \<times> u32 list) option kres" where
  "push_args pgdir argc [] sp ustack s = Ok (Some (sp, ustack), s)"
| "push_args pgdir argc (a # args) sp ustack s =
     (if argc \<ge> MAXARG then Ok (None, s)
      else
        let sp = (sp - (of_nat (length a) + 1)) AND NOT 3 in
        rbind (copyout pgdir sp (a @ [0]) s) (\<lambda>(r, s).
        if r < 0 then Ok (None, s)
        else push_args pgdir (Suc argc) args sp (ustack @ [sp]) s))"

definition exec_stack :: "u32 \<Rightarrow> u32 \<Rightarrow> u8 list list \<Rightarrow> kernel \<Rightarrow> (u32 \<times> u32) option kres" where
  "exec_stack pgdir sz argv s =
     (let sz = PGROUNDUP sz in
      rbind (allocuvm pgdir sz (sz + 2 * PGSIZE) s) (\<lambda>(sz, s).
      if sz = 0 then Ok (None, s)
      else
        rbind (clearpteu pgdir (sz - 2 * PGSIZE) s) (\<lambda>s.
        rbind (push_args pgdir 0 argv sz [] s) (\<lambda>(r, s).
        case r of
          None \<Rightarrow> Ok (None, s)
        | Some (sp, us) \<Rightarrow>
            let argc = of_nat (length us);
                ustack = [0xffffffff, argc, sp - (argc + 1) * 4] @ us @ [0];
                sp = sp - (3 + argc + 1) * 4 in
            rbind (copyout pgdir sp (concat (map le32 ustack)) s) (\<lambda>(r, s).
            if r < 0 then Ok (None, s) else Ok (Some (sz, sp), s))))))"

text \<open>The last element of the path, which becomes the name of the process.\<close>

fun path_last :: "u8 list \<Rightarrow> u8 list \<Rightarrow> u8 list" where
  "path_last l [] = l"
| "path_last l (c # cs) = path_last (if c = SLASH then cs else l) cs"

section \<open>exec\<close>

definition exec_bad :: "nat \<Rightarrow> backup \<Rightarrow> u32 \<Rightarrow> nat option \<Rightarrow> kernel \<Rightarrow> int kres" where
  "exec_bad p bk pgdir ip s =
     (let s = (if paging s then restoreFromBackup p bk s else s) in
      rbind (if pgdir \<noteq> 0 then freevm pgdir s else Ok s) (\<lambda>s.
      rbind (case ip of None \<Rightarrow> Ok s | Some ip \<Rightarrow> rbind (iunlockput ip s) end_op) (\<lambda>s.
      Ok (- 1, s))))"

definition exec_commit :: "nat \<Rightarrow> u8 list \<Rightarrow> u32 \<Rightarrow> u32 \<Rightarrow> u32 \<Rightarrow> u32 \<Rightarrow> kernel \<Rightarrow> int kres" where
  "exec_commit p path pgdir sz entry sp s =
     (let oldpgdir = p_pgdir (procs s ! p);
          s = upd_proc p (\<lambda>q. q\<lparr>p_name := blit (p_name q) 0 (safestrcpy 16 (path_last path path)),
            p_pgdir := pgdir, p_sz := sz, p_tf := (p_tf q)\<lparr>tf_eip := entry, tf_esp := sp\<rparr>\<rparr>) s in
      rbind (if paging s \<and> p_pid (procs s ! p) > DEFAULT_PROCESSES
             then rbind (removeSwapFile p s) (\<lambda>(_, s). createSwapFile p s) else Ok (0, s)) (\<lambda>(_, s).
      rbind (switchuvm (Some p) s) (\<lambda>s.
      rbind (freevm oldpgdir s) (\<lambda>s. Ok (0, s)))))"

definition exec :: "u8 list \<Rightarrow> u8 list list \<Rightarrow> kernel \<Rightarrow> int kres" where
  "exec path argv s =
     rbind (curproc s) (\<lambda>p.
     rbind (begin_op s) (\<lambda>s.
     rbind (namei path s) (\<lambda>(ip, s).
     case ip of
       None \<Rightarrow>
         rbind (end_op s) (\<lambda>s.
         rbind (cprintf (chars ''exec: fail'' @ [10]) [] s) (\<lambda>s. Ok (- 1, s)))
     | Some ip \<Rightarrow>
         rbind (ilock (Some ip) s) (\<lambda>s.
         let (bk, s') = initializePagesDataExec p s;
             s = (if paging s then s' else s) in
         rbind (exec_image ip s) (\<lambda>((pgdir, r), s).
         case r of
           None \<Rightarrow> exec_bad p bk pgdir (Some ip) s
         | Some (entry, sz) \<Rightarrow>
             rbind (iunlockput ip s) (\<lambda>s.
             rbind (end_op s) (\<lambda>s.
             rbind (exec_stack pgdir sz argv s) (\<lambda>(r, s).
             case r of
               None \<Rightarrow> exec_bad p bk pgdir None s
             | Some (sz, sp) \<Rightarrow> exec_commit p path pgdir sz entry sp s))))))))"

end
