(* ===== verification/Syscall.thy ===== *)
theory Syscall
  imports Exec
begin

text \<open>
  System calls: the access to the arguments on the user stack and the dispatcher
  (\<open>syscall.c\<close>), and the calls themselves (\<open>sysproc.c\<close>, \<open>sysfile.c\<close>). A function that
  returns -1 or stores through a pointer gives \<open>None\<close> or \<open>Some\<close> of what it stores.
\<close>

section \<open>Arguments\<close>

definition fetchint :: "u32 \<Rightarrow> kernel \<Rightarrow> (kernel, u32 option) res" where
  "fetchint addr s =
     rbind (curproc s) (\<lambda>p.
     let sz = p_sz (procs s ! p) in
     if addr \<ge> sz \<or> addr + 4 > sz then Ok None
     else rbind (vread s addr 4) (\<lambda>b. Ok (Some (rd32 b 0))))"

text \<open>The string at \<open>a\<close>, if a NUL comes before \<open>ep\<close>.\<close>

function fetchstr_loop :: "u32 \<Rightarrow> u32 \<Rightarrow> u8 list \<Rightarrow> kernel \<Rightarrow> (kernel, u8 list option) res" where
  "fetchstr_loop a ep acc s =
     (if a < ep then
        rbind (vread s a 1) (\<lambda>b.
        if hd b = 0 then Ok (Some (rev acc)) else fetchstr_loop (a + 1) ep (hd b # acc) s)
      else Ok None)"
  by pat_completeness auto
termination
proof (relation "measure (\<lambda>(a, ep, _, _). unat ep - unat a)", goal_cases)
  case (2 a ep acc s b)
  then have "unat a < unat ep" by (simp add: word_less_nat_alt)
  then have "unat (a + 1) = unat a + 1"
    using unsigned_less [of ep, where 'a = nat] by (subst unat_add_lem [THEN iffD1]) simp_all
  with 2 show ?case by (simp add: word_less_nat_alt)
qed simp

declare fetchstr_loop.simps [simp del]

definition fetchstr :: "u32 \<Rightarrow> kernel \<Rightarrow> (kernel, u8 list option) res" where
  "fetchstr addr s =
     rbind (curproc s) (\<lambda>p.
     let sz = p_sz (procs s ! p) in
     if addr \<ge> sz then Ok None else fetchstr_loop addr sz [] s)"

definition argint :: "nat \<Rightarrow> kernel \<Rightarrow> (kernel, u32 option) res" where
  "argint n s =
     rbind (curproc s) (\<lambda>p. fetchint (tf_esp (p_tf (procs s ! p)) + 4 + 4 * of_nat n) s)"

definition argptr :: "nat \<Rightarrow> int \<Rightarrow> kernel \<Rightarrow> (kernel, u32 option) res" where
  "argptr n len s =
     rbind (curproc s) (\<lambda>p.
     let sz = p_sz (procs s ! p) in
     rbind (argint n s) (\<lambda>r.
     case r of
       None \<Rightarrow> Ok None
     | Some i \<Rightarrow>
         if len < 0 \<or> i \<ge> sz \<or> i + word_of_int len > sz then Ok None else Ok (Some i)))"

definition argstr :: "nat \<Rightarrow> kernel \<Rightarrow> (kernel, u8 list option) res" where
  "argstr n s =
     rbind (argint n s) (\<lambda>r. case r of None \<Rightarrow> Ok None | Some addr \<Rightarrow> fetchstr addr s)"

definition argfd :: "nat \<Rightarrow> kernel \<Rightarrow> (kernel, (nat \<times> nat) option) res" where
  "argfd n s =
     rbind (curproc s) (\<lambda>p.
     rbind (argint n s) (\<lambda>r.
     case r of
       None \<Rightarrow> Ok None
     | Some fd \<Rightarrow>
         if sint fd < 0 \<or> sint fd \<ge> int NOFILE then Ok None
         else case p_ofile (procs s ! p) ! unat fd of
           None \<Rightarrow> Ok None
         | Some f \<Rightarrow> Ok (Some (unat fd, f))))"

text \<open>\<open>if(arg... < 0) return -1\<close> in front of the rest of a call.\<close>

definition with_arg :: "(kernel, 'a option) res \<Rightarrow> ('a \<Rightarrow> int kres) \<Rightarrow> kernel \<Rightarrow> int kres" where
  "with_arg a k s = rbind a (\<lambda>r. case r of None \<Rightarrow> Ok (- 1, s) | Some x \<Rightarrow> k x)"

section \<open>Processes (\<open>sysproc.c\<close>)\<close>

definition sys_yield :: "kernel \<Rightarrow> int kres" where
  "sys_yield s = yield s"

definition sys_fork :: "kernel \<Rightarrow> int kres" where
  "sys_fork s = fork s"

definition sys_exit :: "kernel \<Rightarrow> int kres" where
  "sys_exit s = exit s"

definition sys_wait :: "kernel \<Rightarrow> int kres" where
  "sys_wait s = wait s"

definition sys_kill :: "kernel \<Rightarrow> int kres" where
  "sys_kill s = with_arg (argint 0 s) (\<lambda>pid. kill (sint pid) s) s"

definition sys_getpid :: "kernel \<Rightarrow> int kres" where
  "sys_getpid s = rbind (curproc s) (\<lambda>p. Ok (p_pid (procs s ! p), s))"

definition sys_sbrk :: "kernel \<Rightarrow> int kres" where
  "sys_sbrk s =
     with_arg (argint 0 s) (\<lambda>n.
       rbind (curproc s) (\<lambda>p.
       let addr = p_sz (procs s ! p) in
       rbind (growproc (sint n) s) (\<lambda>(r, s).
       if r < 0 then Ok (- 1, s) else Ok (sint addr, s)))) s"

text \<open>The loop of \<open>sys_sleep\<close>, entered again after each wakeup; the comparison is unsigned.\<close>

definition sys_sleep_loop :: "u32 \<Rightarrow> u32 \<Rightarrow> kernel \<Rightarrow> int kres" where
  "sys_sleep_loop ticks0 n s =
     (if ticks s - ticks0 < n then
        rbind (curproc s) (\<lambda>p.
        if p_killed (procs s ! p) then rbind (release L_ticks s) (\<lambda>s. Ok (- 1, s))
        else sleep C_ticks L_ticks s)
      else rbind (release L_ticks s) (\<lambda>s. Ok (0, s)))"

definition sys_sleep :: "kernel \<Rightarrow> int kres" where
  "sys_sleep s =
     with_arg (argint 0 s) (\<lambda>n.
       rbind (acquire L_ticks s) (\<lambda>s. sys_sleep_loop (ticks s) n s)) s"

definition sys_uptime :: "kernel \<Rightarrow> int kres" where
  "sys_uptime s =
     rbind (acquire L_ticks s) (\<lambda>s.
     let xticks = ticks s in
     rbind (release L_ticks s) (\<lambda>s. Ok (sint xticks, s)))"

section \<open>Files (\<open>sysfile.c\<close>)\<close>

definition fdalloc :: "nat \<Rightarrow> kernel \<Rightarrow> int kres" where
  "fdalloc f s =
     rbind (curproc s) (\<lambda>p.
     case find_from (\<lambda>fd. p_ofile (procs s ! p) ! fd = None) 0 NOFILE of
       Some fd \<Rightarrow> Ok (int fd, upd_proc p (\<lambda>q. q\<lparr>p_ofile := (p_ofile q)[fd := Some f]\<rparr>) s)
     | None \<Rightarrow> Ok (- 1, s))"

definition sys_dup :: "kernel \<Rightarrow> int kres" where
  "sys_dup s =
     with_arg (argfd 0 s) (\<lambda>(_, f).
       rbind (fdalloc f s) (\<lambda>(fd, s).
       if fd < 0 then Ok (- 1, s)
       else rbind (filedup f s) (\<lambda>(_, s). Ok (fd, s)))) s"

definition sys_read :: "kernel \<Rightarrow> int kres" where
  "sys_read s =
     with_arg (argfd 0 s) (\<lambda>(_, f).
     with_arg (argint 2 s) (\<lambda>n.
     with_arg (argptr 1 (sint n) s) (\<lambda>p.
       rbind (fileread f (sint n) s) (\<lambda>((r, bs), s).
       rbind (vwrite p bs s) (\<lambda>s. Ok (r, s)))) s) s) s"

definition sys_write :: "kernel \<Rightarrow> int kres" where
  "sys_write s =
     with_arg (argfd 0 s) (\<lambda>(_, f).
     with_arg (argint 2 s) (\<lambda>n.
     with_arg (argptr 1 (sint n) s) (\<lambda>p.
       rbind (vread s p (unat n)) (\<lambda>bs. filewrite f bs s)) s) s) s"

definition sys_close :: "kernel \<Rightarrow> int kres" where
  "sys_close s =
     with_arg (argfd 0 s) (\<lambda>(fd, f).
       rbind (curproc s) (\<lambda>p.
       rbind (fileclose f (upd_proc p (\<lambda>q. q\<lparr>p_ofile := (p_ofile q)[fd := None]\<rparr>) s)) (\<lambda>s.
       Ok (0, s)))) s"

text \<open>\<open>struct stat\<close> in user memory, field by field (20 bytes with padding).\<close>

definition put_stat :: "u32 \<Rightarrow> stat \<Rightarrow> kernel \<Rightarrow> (kernel, kernel) res" where
  "put_stat a st s =
     rbind (vwrite (a + 4) (le32 (word_of_int (st_dev st))) s) (\<lambda>s.
     rbind (vwrite (a + 8) (le32 (st_ino st)) s) (\<lambda>s.
     rbind (vwrite a (le16 (word_of_int (st_type st))) s) (\<lambda>s.
     rbind (vwrite (a + 12) (le16 (word_of_int (st_nlink st))) s) (\<lambda>s.
     vwrite (a + 16) (le32 (st_size st)) s))))"

definition sys_fstat :: "kernel \<Rightarrow> int kres" where
  "sys_fstat s =
     with_arg (argfd 0 s) (\<lambda>(_, f).
     with_arg (argptr 1 20 s) (\<lambda>a.
       rbind (filestat f s) (\<lambda>((r, st), s).
       case st of
         None \<Rightarrow> Ok (r, s)
       | Some st \<Rightarrow> rbind (put_stat a st s) (\<lambda>s. Ok (r, s)))) s) s"

definition link_bad :: "nat \<Rightarrow> kernel \<Rightarrow> int kres" where
  "link_bad ip s =
     rbind (ilock (Some ip) s) (\<lambda>s.
     rbind (iupdate ip (upd_inode ip (\<lambda>i. i\<lparr>ip_nlink := ip_nlink i - 1\<rparr>) s)) (\<lambda>s.
     rbind (iunlockput ip s) (\<lambda>s.
     rbind (end_op s) (\<lambda>s. Ok (- 1, s)))))"

definition sys_link :: "kernel \<Rightarrow> int kres" where
  "sys_link s =
     with_arg (argstr 0 s) (\<lambda>old.
     with_arg (argstr 1 s) (\<lambda>new.
       rbind (begin_op s) (\<lambda>s.
       rbind (namei old s) (\<lambda>(ip, s).
       case ip of
         None \<Rightarrow> rbind (end_op s) (\<lambda>s. Ok (- 1, s))
       | Some ip \<Rightarrow>
       rbind (ilock (Some ip) s) (\<lambda>s.
       if ip_type (icache s ! ip) = T_DIR
       then rbind (iunlockput ip s) (\<lambda>s. rbind (end_op s) (\<lambda>s. Ok (- 1, s)))
       else
         rbind (iupdate ip (upd_inode ip (\<lambda>i. i\<lparr>ip_nlink := ip_nlink i + 1\<rparr>) s)) (\<lambda>s.
         rbind (iunlock (Some ip) s) (\<lambda>s.
         rbind (nameiparent new s) (\<lambda>((dp, name), s).
         case dp of
           None \<Rightarrow> link_bad ip s
         | Some dp \<Rightarrow>
         rbind (ilock (Some dp) s) (\<lambda>s.
         rbind (if ip_dev (icache s ! dp) \<noteq> ip_dev (icache s ! ip) then Ok (- 1, s)
                else dirlink dp name (ip_inum (icache s ! ip)) s) (\<lambda>(r, s).
         rbind (iunlockput dp s) (\<lambda>s.
         if r < 0 then link_bad ip s
         else rbind (iput ip s) (\<lambda>s. rbind (end_op s) (\<lambda>s. Ok (0, s))))))))))))) s) s"

definition sys_unlink :: "kernel \<Rightarrow> int kres" where
  "sys_unlink s = with_arg (argstr 0 s) (\<lambda>path. do_unlink path s) s"

definition O_RDONLY :: u32 where [simp, const_defs]: "O_RDONLY = 0x000"
definition O_WRONLY :: u32 where [simp, const_defs]: "O_WRONLY = 0x001"
definition O_RDWR :: u32 where [simp, const_defs]: "O_RDWR = 0x002"
definition O_CREATE :: u32 where [simp, const_defs]: "O_CREATE = 0x200"

text \<open>The inode \<open>sys_open\<close> opens, locked; \<open>None\<close> when it has returned -1.\<close>

definition open_inode :: "u8 list \<Rightarrow> u32 \<Rightarrow> kernel \<Rightarrow> nat option kres" where
  "open_inode path omode s =
     (if omode AND O_CREATE \<noteq> 0 then create path T_FILE 0 0 s
      else rbind (namei path s) (\<lambda>(ip, s).
        case ip of
          None \<Rightarrow> Ok (None, s)
        | Some ip \<Rightarrow>
            rbind (ilock (Some ip) s) (\<lambda>s.
            if ip_type (icache s ! ip) = T_DIR \<and> omode \<noteq> O_RDONLY
            then rbind (iunlockput ip s) (\<lambda>s. Ok (None, s))
            else Ok (Some ip, s))))"

definition sys_open :: "kernel \<Rightarrow> int kres" where
  "sys_open s =
     with_arg (argstr 0 s) (\<lambda>path.
     with_arg (argint 1 s) (\<lambda>omode.
       rbind (begin_op s) (\<lambda>s.
       rbind (open_inode path omode s) (\<lambda>(ip, s).
       case ip of
         None \<Rightarrow> rbind (end_op s) (\<lambda>s. Ok (- 1, s))
       | Some ip \<Rightarrow>
       rbind (filealloc s) (\<lambda>(f, s).
       rbind (case f of None \<Rightarrow> Ok (- 1, s) | Some f \<Rightarrow> fdalloc f s) (\<lambda>(fd, s).
       if fd < 0 then
         rbind (case f of None \<Rightarrow> Ok s | Some f \<Rightarrow> fileclose f s) (\<lambda>s.
         rbind (iunlockput ip s) (\<lambda>s.
         rbind (end_op s) (\<lambda>s. Ok (- 1, s))))
       else
         rbind (iunlock (Some ip) s) (\<lambda>s.
         rbind (end_op s) (\<lambda>s.
         Ok (fd, upd_file (the f) (\<lambda>x. x\<lparr>f_type := FD_INODE, f_ip := Some ip, f_off := 0,
           f_readable := (if omode AND O_WRONLY = 0 then 1 else 0),
           f_writable := (if omode AND O_WRONLY \<noteq> 0 \<or> omode AND O_RDWR \<noteq> 0 then 1 else 0)\<rparr>) s)))))))) s) s"

text \<open>\<open>sys_mkdir\<close> and \<open>sys_mknod\<close> fetch their arguments inside the transaction.\<close>

definition made :: "nat option \<Rightarrow> kernel \<Rightarrow> int kres" where
  "made ip s =
     (case ip of
        None \<Rightarrow> rbind (end_op s) (\<lambda>s. Ok (- 1, s))
      | Some ip \<Rightarrow> rbind (iunlockput ip s) (\<lambda>s. rbind (end_op s) (\<lambda>s. Ok (0, s))))"

definition sys_mkdir :: "kernel \<Rightarrow> int kres" where
  "sys_mkdir s =
     rbind (begin_op s) (\<lambda>s.
     rbind (argstr 0 s) (\<lambda>path.
     case path of
       None \<Rightarrow> made None s
     | Some path \<Rightarrow> rbind (create path T_DIR 0 0 s) (\<lambda>(ip, s). made ip s)))"

definition short :: "u32 \<Rightarrow> int" where
  "short w = sint (ucast w :: u16)"

definition sys_mknod :: "kernel \<Rightarrow> int kres" where
  "sys_mknod s =
     rbind (begin_op s) (\<lambda>s.
     rbind (argstr 0 s) (\<lambda>path.
     case path of None \<Rightarrow> made None s | Some path \<Rightarrow>
     rbind (argint 1 s) (\<lambda>major.
     case major of None \<Rightarrow> made None s | Some major \<Rightarrow>
     rbind (argint 2 s) (\<lambda>minor.
     case minor of None \<Rightarrow> made None s | Some minor \<Rightarrow>
     rbind (create path T_DEV (short major) (short minor) s) (\<lambda>(ip, s). made ip s)))))"

definition sys_chdir :: "kernel \<Rightarrow> int kres" where
  "sys_chdir s =
     rbind (curproc s) (\<lambda>p.
     rbind (begin_op s) (\<lambda>s.
     rbind (argstr 0 s) (\<lambda>path.
     rbind (case path of None \<Rightarrow> Ok (None, s) | Some path \<Rightarrow> namei path s) (\<lambda>(ip, s).
     case ip of
       None \<Rightarrow> rbind (end_op s) (\<lambda>s. Ok (- 1, s))
     | Some ip \<Rightarrow>
         rbind (ilock (Some ip) s) (\<lambda>s.
         if ip_type (icache s ! ip) \<noteq> T_DIR
         then rbind (iunlockput ip s) (\<lambda>s. rbind (end_op s) (\<lambda>s. Ok (- 1, s)))
         else
           rbind (iunlock (Some ip) s) (\<lambda>s.
           case p_cwd (procs s ! p) of
             None \<Rightarrow> Undef ''null inode''
           | Some old \<Rightarrow>
               rbind (iput old s) (\<lambda>s.
               rbind (end_op s) (\<lambda>s.
               Ok (0, upd_proc p (\<lambda>q. q\<lparr>p_cwd := Some ip\<rparr>) s)))))))))"

text \<open>The loop of \<open>sys_exec\<close> over \<open>argv\<close>; \<open>fuel\<close> is what is left of \<open>MAXARG\<close>.\<close>

fun fetch_argv :: "nat \<Rightarrow> u32 \<Rightarrow> kernel \<Rightarrow> (kernel, u8 list list option) res" where
  "fetch_argv 0 uargv s = Ok None"
| "fetch_argv (Suc n) uargv s =
     rbind (fetchint uargv s) (\<lambda>r.
     case r of
       None \<Rightarrow> Ok None
     | Some uarg \<Rightarrow>
         if uarg = 0 then Ok (Some [])
         else rbind (fetchstr uarg s) (\<lambda>r.
           case r of
             None \<Rightarrow> Ok None
           | Some a \<Rightarrow> rbind (fetch_argv n (uargv + 4) s) (\<lambda>r. Ok (map_option (Cons a) r))))"

definition sys_exec :: "kernel \<Rightarrow> int kres" where
  "sys_exec s =
     with_arg (argstr 0 s) (\<lambda>path.
     with_arg (argint 1 s) (\<lambda>uargv.
     with_arg (fetch_argv MAXARG uargv s) (\<lambda>argv. exec path argv s) s) s) s"

definition sys_pipe :: "kernel \<Rightarrow> int kres" where
  "sys_pipe s =
     with_arg (argptr 0 8 s) (\<lambda>a.
       rbind (pipealloc s) (\<lambda>((r, rf0, wf1), s).
       case (rf0, wf1) of
         (Some rf0, Some wf1) \<Rightarrow>
           if r < 0 then Ok (- 1, s)
           else
             rbind (fdalloc rf0 s) (\<lambda>(fd0, s).
             rbind (if fd0 < 0 then Ok (- 1, s) else fdalloc wf1 s) (\<lambda>(fd1, s).
             if fd0 < 0 \<or> fd1 < 0 then
               rbind (curproc s) (\<lambda>p.
               let s = (if fd0 \<ge> 0
                     then upd_proc p (\<lambda>q. q\<lparr>p_ofile := (p_ofile q)[nat fd0 := None]\<rparr>) s else s) in
               rbind (fileclose rf0 s) (\<lambda>s.
               rbind (fileclose wf1 s) (\<lambda>s. Ok (- 1, s))))
             else
               rbind (vwrite a (le32 (word_of_int fd0)) s) (\<lambda>s.
               rbind (vwrite (a + 4) (le32 (word_of_int fd1)) s) (\<lambda>s. Ok (0, s)))))
       | _ \<Rightarrow> Ok (- 1, s))) s"

section \<open>The dispatcher\<close>

definition syscalls :: "int \<Rightarrow> (kernel \<Rightarrow> int kres) option" where
  "syscalls num =
     (if num = 1 then Some sys_fork else if num = 2 then Some sys_exit
      else if num = 3 then Some sys_wait else if num = 4 then Some sys_pipe
      else if num = 5 then Some sys_read else if num = 6 then Some sys_kill
      else if num = 7 then Some sys_exec else if num = 8 then Some sys_fstat
      else if num = 9 then Some sys_chdir else if num = 10 then Some sys_dup
      else if num = 11 then Some sys_getpid else if num = 12 then Some sys_sbrk
      else if num = 13 then Some sys_sleep else if num = 14 then Some sys_uptime
      else if num = 15 then Some sys_open else if num = 16 then Some sys_write
      else if num = 17 then Some sys_mknod else if num = 18 then Some sys_unlink
      else if num = 19 then Some sys_link else if num = 20 then Some sys_mkdir
      else if num = 21 then Some sys_close else if num = 22 then Some sys_yield
      else None)"

definition set_eax :: "nat \<Rightarrow> int \<Rightarrow> kernel \<Rightarrow> kernel" where
  "set_eax p r s = upd_proc p (\<lambda>q. q\<lparr>p_tf := (p_tf q)\<lparr>tf_eax := word_of_int r\<rparr>\<rparr>) s"

definition syscall :: "kernel \<Rightarrow> (kernel, kernel) res" where
  "syscall s =
     rbind (curproc s) (\<lambda>p.
     let num = tf_eax (p_tf (procs s ! p)) in
     case syscalls (sint num) of
       Some f \<Rightarrow> rbind (f s) (\<lambda>(r, s). Ok (set_eax p r s))
     | None \<Rightarrow>
         rbind (cprintf (chars ''%d %s: unknown sys call %d'' @ [10])
           [AInt (word_of_int (p_pid (procs s ! p))), AStr (Some (cstr (p_name (procs s ! p)))), AInt num] s) (\<lambda>s.
         Ok (set_eax p (- 1) s)))"

section \<open>Checks of arguments\<close>

text \<open>C38 [argptr_in_bounds]: when \<open>argptr\<close> accepts a pointer to a block of \<open>len\<close> bytes, the whole block lies in
  the memory of the process; the sum in the comparison does not wrap, because a process is no larger
  than \<open>KERNBASE\<close>.\<close>

theorem argptr_in_bounds:
  assumes "argptr n len s = Ok (Some i)" "cur s = Some p" "p_sz (procs s ! p) \<le> KERNBASE" "len < 2 ^ 31"
  shows "0 \<le> len \<and> unat i + nat len \<le> unat (p_sz (procs s ! p))"
proof -
  let ?sz = "p_sz (procs s ! p)"
  have c: "0 \<le> len" "i < ?sz" "i + word_of_int len \<le> ?sz"
    using assms(1,2) by (auto simp: argptr_def curproc_def Let_def rbind_Ok_iff not_le not_less split: option.splits if_splits)
  have w: "unat (word_of_int len :: u32) = nat len"
    using c(1) assms(4) by (simp add: nat_take_bit_eq unsigned_of_int take_bit_int_eq_self)
  have "unat i < 2 ^ 31" using c(2) assms(3) by (simp add: word_less_nat_alt word_le_nat_alt)
  then have "unat i + nat len < 2 ^ 32" using assms(4) by (simp add: nat_less_iff c(1))
  then have "unat (i + word_of_int len) = unat i + nat len"
    using unat_word_ariths(1) [of i "word_of_int len"] by (simp only: w) simp
  then show ?thesis using c by (simp add: word_le_nat_alt)
qed

text \<open>A process of one page, its stack at address 0 with the argument 16.\<close>

definition arg_sample :: kernel where
  "arg_sample = kernel0\<lparr>cur := Some 0, cr3 := 0x1000, procs := [proc0\<lparr>p_sz := 0x1000\<rparr>],
     mem := (\<lambda>_. 0)(0x80001000 := 0x07, 0x80001001 := 0x20, 0x80002000 := 0x07, 0x80002001 := 0x30, 0x80003004 := 16)\<rparr>"

lemma arg_sample_simps:
  "mem arg_sample = (\<lambda>_. 0)(0x80001000 := 0x07, 0x80001001 := 0x20, 0x80002000 := 0x07, 0x80002001 := 0x30, 0x80003004 := 16)"
  "cr3 arg_sample = 0x1000" "cur arg_sample = Some 0" "procs arg_sample = [proc0\<lparr>p_sz := 0x1000\<rparr>]"
  by (simp_all add: arg_sample_def)

lemma arg_sample_translate:
  "translate arg_sample 4 = Some 0x80003004" "translate arg_sample 5 = Some 0x80003005"
  "translate arg_sample 6 = Some 0x80003006" "translate arg_sample 7 = Some 0x80003007"
  by (simp_all add: translate_def arg_sample_simps P2V_def PDX_def PTX_def load32_def PTE_ADDR_def PTE_P_def PTE_FLAGS_def)

theorem argptr_in_bounds_witness: "argptr 0 100 arg_sample = Ok (Some 16) \<and> unat (16 :: u32) + 100 \<le> 4096"
proof -
  have "vread arg_sample 4 4 = Ok [16, 0, 0, 0]"
    by (simp add: numeral_eq_Suc) (simp add: arg_sample_translate arg_sample_simps)
  then have "argint 0 arg_sample = Ok (Some 16)"
    by (simp add: argint_def fetchint_def curproc_def arg_sample_simps proc0_def tf0_def rd32_def)
  then have "argptr 0 100 arg_sample = Ok (Some 16)"
    by (simp add: argptr_def curproc_def arg_sample_simps)
  then show ?thesis using argptr_in_bounds [of 0 100 arg_sample 16 0] by (simp add: arg_sample_simps)
qed

text \<open>\<open>fdalloc\<close> gives the lowest descriptor that is not in use, as the shell's
  redirections rely on, and puts the file there; without a free one it returns -1 and changes nothing.\<close>

theorem fdalloc_lowest:
  assumes "cur s = Some p" "p < length (procs s)" "length (p_ofile (procs s ! p)) = NOFILE" "fdalloc f s = Ok (r, s')"
  shows "(0 \<le> r \<and> nat r < NOFILE \<and> p_ofile (procs s ! p) ! nat r = None \<and> (\<forall>fd < nat r. p_ofile (procs s ! p) ! fd \<noteq> None) \<and>
      p_ofile (procs s' ! p) = (p_ofile (procs s ! p))[nat r := Some f]) \<or>
    (r = - 1 \<and> s' = s \<and> None \<notin> set (p_ofile (procs s ! p)))"
proof (cases "find_from (\<lambda>fd. p_ofile (procs s ! p) ! fd = None) 0 NOFILE")
  case None
  then have "r = - 1" "s' = s" using assms(1,4) by (simp_all add: fdalloc_def curproc_def)
  then show ?thesis using None assms(3) by (auto simp: find_from_eq_None_iff in_set_conv_nth)
next
  case (Some fd)
  then have "r = int fd" "s' = upd_proc p (\<lambda>q. q\<lparr>p_ofile := (p_ofile q)[fd := Some f]\<rparr>) s"
    using assms by (simp_all add: fdalloc_def curproc_def)
  then show ?thesis using find_from_SomeD [OF Some] assms(2) by auto
qed

theorem fdalloc_lowest_witness: "\<exists>s'. fdalloc 7 arg_sample = Ok (0, s') \<and> p_ofile (procs s' ! 0) ! 0 = Some 7"
proof -
  obtain s' where s': "fdalloc 7 arg_sample = Ok (0, s')"
    by (simp add: fdalloc_def curproc_def arg_sample_def proc0_def find_from.simps)
  then show ?thesis using fdalloc_lowest [of arg_sample 0 7 0 s'] by (simp add: arg_sample_def proc0_def)
qed

end
