(* ===== verification/Kbd.thy ===== *)
theory Kbd
  imports Console
begin

text \<open>
  The keyboard (\<open>kbd.c\<close>, tables of \<open>kbd.h\<close>) and the input side of the serial port
  (\<open>uart.c\<close>). The argument of an interrupt handler is what the device delivers.
\<close>

section \<open>Tables\<close>

definition NO :: u8 where [simp, const_defs]: "NO = 0"
definition SHIFT :: u8 where [simp, const_defs]: "SHIFT = 1"
definition CTL :: u8 where [simp, const_defs]: "CTL = 2"
definition ALT :: u8 where [simp, const_defs]: "ALT = 4"
definition CAPSLOCK :: u8 where [simp, const_defs]: "CAPSLOCK = 8"
definition NUMLOCK :: u8 where [simp, const_defs]: "NUMLOCK = 16"
definition SCROLLLOCK :: u8 where [simp, const_defs]: "SCROLLLOCK = 32"
definition E0ESC :: u8 where [simp, const_defs]: "E0ESC = 64"

text \<open>An array with an initial segment and designated entries; the rest is 0.\<close>

definition table :: "u8 list \<Rightarrow> (u8 \<times> u8) list \<Rightarrow> u8 \<Rightarrow> u8" where
  "table xs ds i =
     (if unat i < length xs then xs ! unat i
      else case map_of ds i of Some v \<Rightarrow> v | None \<Rightarrow> NO)"

definition shiftcode :: "u8 \<Rightarrow> u8" where
  "shiftcode = table [] [(0x1D, CTL), (0x2A, SHIFT), (0x36, SHIFT), (0x38, ALT), (0x9D, CTL), (0xB8, ALT)]"

definition togglecode :: "u8 \<Rightarrow> u8" where
  "togglecode = table [] [(0x3A, CAPSLOCK), (0x45, NUMLOCK), (0x46, SCROLLLOCK)]"

definition normalmap :: "u8 \<Rightarrow> u8" where
  "normalmap = table
     [0, 27, 49, 50, 51, 52, 53, 54, 55, 56, 57, 48, 45, 61, 8, 9,
      113, 119, 101, 114, 116, 121, 117, 105, 111, 112, 91, 93, 10, 0, 97, 115,
      100, 102, 103, 104, 106, 107, 108, 59, 39, 96, 0, 92, 122, 120, 99, 118,
      98, 110, 109, 44, 46, 47, 0, 42, 0, 32, 0, 0, 0, 0, 0, 0,
      0, 0, 0, 0, 0, 0, 0, 55, 56, 57, 45, 52, 53, 54, 43, 49,
      50, 51, 48, 46, 0, 0, 0, 0]
     [(156, 10), (181, 47), (200, 226), (208, 227), (201, 230), (209, 231),
      (203, 228), (205, 229), (151, 224), (207, 225), (210, 232), (211, 233)]"

definition shiftmap :: "u8 \<Rightarrow> u8" where
  "shiftmap = table
     [0, 27, 33, 64, 35, 36, 37, 94, 38, 42, 40, 41, 95, 43, 8, 9,
      81, 87, 69, 82, 84, 89, 85, 73, 79, 80, 123, 125, 10, 0, 65, 83,
      68, 70, 71, 72, 74, 75, 76, 58, 34, 126, 0, 124, 90, 88, 67, 86,
      66, 78, 77, 60, 62, 63, 0, 42, 0, 32, 0, 0, 0, 0, 0, 0,
      0, 0, 0, 0, 0, 0, 0, 55, 56, 57, 45, 52, 53, 54, 43, 49,
      50, 51, 48, 46, 0, 0, 0, 0]
     [(156, 10), (181, 47), (200, 226), (208, 227), (201, 230), (209, 231),
      (203, 228), (205, 229), (151, 224), (207, 225), (210, 232), (211, 233)]"

definition ctlmap :: "u8 \<Rightarrow> u8" where
  "ctlmap = table
     [0, 0, 0, 0, 0, 0, 0, 0, 0, 0, 0, 0, 0, 0, 0, 0,
      17, 23, 5, 18, 20, 25, 21, 9, 15, 16, 0, 0, 13, 0, 1, 19,
      4, 6, 7, 8, 10, 11, 12, 0, 0, 0, 0, 28, 26, 24, 3, 22,
      2, 14, 13, 0, 0, 239, 0, 0]
     [(156, 13), (181, 239), (200, 226), (208, 227), (201, 230), (209, 231),
      (203, 228), (205, 229), (151, 224), (207, 225), (210, 232), (211, 233)]"

definition charcode :: "u8 \<Rightarrow> u8 \<Rightarrow> u8" where
  "charcode sh = (if sh = 0 then normalmap else if sh = 1 then shiftmap else ctlmap)"

section \<open>kbdgetc\<close>

text \<open>\<open>kbdgetc\<close> on a scan code, given and returning \<open>shift\<close>.\<close>

definition kbdgetc :: "u8 \<Rightarrow> u8 \<Rightarrow> u8 \<times> u8" where
  "kbdgetc shift data =
     (if data = 0xE0 then (0, shift OR E0ESC)
      else if data AND 0x80 \<noteq> 0 then
        let data = (if shift AND E0ESC \<noteq> 0 then data else data AND 0x7F) in
        (0, shift AND NOT (shiftcode data OR E0ESC))
      else
        let (data, shift) = (if shift AND E0ESC \<noteq> 0 then (data OR 0x80, shift AND NOT E0ESC)
                             else (data, shift));
            shift = shift OR shiftcode data;
            shift = shift XOR togglecode data;
            c = charcode (shift AND (CTL OR SHIFT)) data;
            c = (if shift AND CAPSLOCK \<noteq> 0 then
                   if 97 \<le> c \<and> c \<le> 122 then c + (65 - 97)
                   else if 65 \<le> c \<and> c \<le> 90 then c + (97 - 65) else c
                 else c) in
        (c, shift))"

fun kbd_run :: "u8 \<Rightarrow> u8 list \<Rightarrow> int list \<times> u8" where
  "kbd_run shift [] = ([], shift)"
| "kbd_run shift (d # ds) =
     (let (c, shift) = kbdgetc shift d; (cs, shift) = kbd_run shift ds in (uint c # cs, shift))"

text \<open>\<open>scan\<close>: the scan codes in the controller when the interrupt is served.\<close>

definition kbdintr :: "u8 list \<Rightarrow> kernel \<Rightarrow> (kernel, kernel) res" where
  "kbdintr scan s =
     (let (cs, shift) = kbd_run (kbd_shift s) scan in consoleintr cs (s\<lparr>kbd_shift := shift\<rparr>))"

section \<open>The serial port\<close>

fun uartputs :: "int list \<Rightarrow> kernel \<Rightarrow> kernel" where
  "uartputs [] s = s"
| "uartputs (c # cs) s = uartputs cs (uartputc c s)"

text \<open>\<open>lsr\<close> is the line status register.\<close>

definition uartinit :: "u8 \<Rightarrow> kernel \<Rightarrow> kernel" where
  "uartinit lsr s =
     (if lsr = 0xFF then s
      else uartputs (chars ''xv6...'' @ [10]) (upd_cons (\<lambda>c. c\<lparr>uart_present := True\<rparr>) s))"

text \<open>What \<open>uartgetc\<close> delivers to \<open>consoleintr\<close> when the port holds \<open>received\<close>.\<close>

definition uartgetc :: "u8 list \<Rightarrow> kernel \<Rightarrow> int list" where
  "uartgetc received s = (if uart_present (cons s) then map uint received else [])"

definition uartintr :: "u8 list \<Rightarrow> kernel \<Rightarrow> (kernel, kernel) res" where
  "uartintr received s = consoleintr (uartgetc received s) s"

end
