(* ===== verification/Ide.thy ===== *)
theory Ide
  imports Bio Bytes
begin

text \<open>
  The disk driver (\<open>ide.c\<close>), the alternative to the memory disk of \<open>memide.c\<close>. The buffers
  waiting for the disk form a list linked by \<open>qnext\<close>. What the driver writes to the ports of
  the controller is a \<open>request\<close>; what it reads is an argument: the status byte and the sector.
\<close>

text \<open>Number of sectors, sector number, drive byte, and the data of a write command.\<close>

record request =
  rq_count :: u8
  rq_lba0 :: u8
  rq_lba1 :: u8
  rq_lba2 :: u8
  rq_drive :: u8
  rq_write :: "u8 list option"

text \<open>\<open>idewait\<close>, given the first status with \<open>IDE_DRDY\<close> and not \<open>IDE_BSY\<close>.\<close>

definition idewait :: "bool \<Rightarrow> u8 \<Rightarrow> int" where
  "idewait checkerr r = (if checkerr \<and> r AND (0x20 OR 0x01) \<noteq> 0 then - 1 else 0)"

definition idestart :: "nat option \<Rightarrow> kernel \<Rightarrow> (kernel, request) res" where
  "idestart b s =
     (case b of
        None \<Rightarrow> Panic ''idestart''
      | Some b \<Rightarrow>
          if b_blockno (bufs s ! b) \<ge> of_nat FSSIZE then Panic ''incorrect blockno''
          else
            let sector = b_blockno (bufs s ! b) in
            Ok \<lparr>rq_count = 1, rq_lba0 = ucast (sector AND 0xff),
                rq_lba1 = ucast (drop_bit 8 sector AND 0xff),
                rq_lba2 = ucast (drop_bit 16 sector AND 0xff),
                rq_drive = 0xe0 OR ucast (push_bit 4 (b_dev (bufs s ! b) AND 1)) OR
                  ucast (drop_bit 24 sector AND 0x0f),
                rq_write = (if b_dirty (bufs s ! b) then Some (b_data (bufs s ! b)) else None)\<rparr>)"

text \<open>\<open>status\<close> and \<open>sector\<close>: what \<open>idewait\<close> and \<open>insl\<close> read. The result is the request
  started for the next buffer, if any.\<close>

definition ideintr :: "u8 \<Rightarrow> u8 list \<Rightarrow> kernel \<Rightarrow> request option kres" where
  "ideintr status sector s =
     rbind (acquire L_ide s) (\<lambda>s.
     case idequeue s of
       None \<Rightarrow> rbind (release L_ide s) (\<lambda>s. Ok (None, s))
     | Some b \<Rightarrow>
         let s = s\<lparr>idequeue := b_qnext (bufs s ! b)\<rparr>;
             s = (if \<not> b_dirty (bufs s ! b) \<and> idewait True status \<ge> 0
                  then upd_buf b (\<lambda>x. x\<lparr>b_data := sector\<rparr>) s else s);
             s = upd_buf b (\<lambda>x. x\<lparr>b_valid := True, b_dirty := False\<rparr>) s in
         rbind (wakeup (C_buf b) s) (\<lambda>s.
         rbind (if idequeue s \<noteq> None then rbind (idestart (idequeue s) s) (\<lambda>r. Ok (Some r))
                else Ok None) (\<lambda>r.
         rbind (release L_ide s) (\<lambda>s. Ok (r, s)))))"

text \<open>Appending to the queue: \<open>fuel\<close> bounds the walk to its end by the number of buffers.\<close>

fun queue_end :: "nat \<Rightarrow> buf list \<Rightarrow> nat \<Rightarrow> nat option" where
  "queue_end 0 bs b = None"
| "queue_end (Suc n) bs b =
     (case b_qnext (bs ! b) of None \<Rightarrow> Some b | Some c \<Rightarrow> queue_end n bs c)"

definition ide_append :: "nat \<Rightarrow> kernel \<Rightarrow> (kernel, kernel) res" where
  "ide_append b s =
     (let s = upd_buf b (\<lambda>x. x\<lparr>b_qnext := None\<rparr>) s in
      case idequeue s of
        None \<Rightarrow> Ok (s\<lparr>idequeue := Some b\<rparr>)
      | Some h \<Rightarrow>
          (case queue_end (length (bufs s)) (bufs s) h of
             None \<Rightarrow> Hang
           | Some e \<Rightarrow> Ok (upd_buf e (\<lambda>x. x\<lparr>b_qnext := Some b\<rparr>) s)))"

text \<open>\<open>iderw\<close> of the driver, up to its first \<open>sleep\<close>: the request started is returned beside
  the state in which the caller sleeps.\<close>

definition ide_submit :: "nat \<Rightarrow> kernel \<Rightarrow> request option kres" where
  "ide_submit b s =
     rbind (holdingsleep (SLBuf b) s) (\<lambda>(h, s).
     if \<not> h then Panic ''iderw: buf not locked''
     else if b_valid (bufs s ! b) \<and> \<not> b_dirty (bufs s ! b) then Panic ''iderw: nothing to do''
     else if b_dev (bufs s ! b) \<noteq> 0 \<and> \<not> havedisk1 s then Panic ''iderw: ide disk 1 not present''
     else
       rbind (acquire L_ide s) (\<lambda>s.
       rbind (ide_append b s) (\<lambda>s.
       if idequeue s = Some b then rbind (idestart (Some b) s) (\<lambda>r. Ok (Some r, s))
       else Ok (None, s))))"

definition ide_wait :: "nat \<Rightarrow> kernel \<Rightarrow> (kernel, kernel) res" where
  "ide_wait b s =
     (if b_valid (bufs s ! b) \<and> \<not> b_dirty (bufs s ! b) then release L_ide s
      else sleep (C_buf b) L_ide s)"

text \<open>\<open>ideinit\<close>: \<open>present\<close> is whether one of the 1000 status reads of disk 1 was not zero.\<close>

definition ideinit :: "bool \<Rightarrow> kernel \<Rightarrow> kernel" where
  "ideinit present s =
     (let s = s\<lparr>locks := (locks s)(L_ide := False)\<rparr> in
      if present then s\<lparr>havedisk1 := True\<rparr> else s)"

end
