(* ===== verification/Trap.thy ===== *)
theory Trap
  imports Syscall Kbd Ide
begin

text \<open>
  Traps (\<open>trap.c\<close>): system calls, device interrupts, page faults. What the hardware provides
  is the record \<open>hw\<close>: the processor's number, \<open>%cr2\<close>, and what the devices deliver. The idt
  itself is not modelled.
\<close>

definition T_PGFLT :: u32 where [simp, const_defs]: "T_PGFLT = 14"
definition T_SYSCALL :: u32 where [simp, const_defs]: "T_SYSCALL = 64"
definition T_IRQ0 :: u32 where [simp, const_defs]: "T_IRQ0 = 32"
definition IRQ_TIMER :: u32 where [simp, const_defs]: "IRQ_TIMER = 0"
definition IRQ_KBD :: u32 where [simp, const_defs]: "IRQ_KBD = 1"
definition IRQ_COM1 :: u32 where [simp, const_defs]: "IRQ_COM1 = 4"
definition IRQ_IDE :: u32 where [simp, const_defs]: "IRQ_IDE = 14"
definition IRQ_SPURIOUS :: u32 where [simp, const_defs]: "IRQ_SPURIOUS = 31"

record hw =
  hw_cpuid :: nat
  hw_cr2 :: u32
  hw_scan :: "u8 list"
  hw_uart :: "u8 list"
  hw_ide_status :: u8
  hw_ide_sector :: "u8 list"

definition tvinit :: "kernel \<Rightarrow> kernel" where
  "tvinit s = s\<lparr>locks := (locks s)(L_ticks := False)\<rparr>"

section \<open>Page faults\<close>

definition resident :: "page list \<Rightarrow> nat" where
  "resident ps = length (filter (\<lambda>pg. isAllocated pg = 1 \<and> in_RAM pg \<noteq> 0) ps)"

definition pgflt :: "hw \<Rightarrow> kernel \<Rightarrow> (kernel, kernel) res" where
  "pgflt h s =
     rbind (curproc s) (\<lambda>p.
     let s = upd_proc p (\<lambda>q. q\<lparr>p_numberOfPageFaults := p_numberOfPageFaults q + 1\<rparr>) s;
         va = hw_cr2 h; page = PGROUNDDOWN va; pgdir = p_pgdir (procs s ! p) in
     rbind (if resident (p_pagesDS (procs s ! p)) = MAX_PSYC_PAGES
            then rbind (swapToFile pgdir s) (\<lambda>(_, s). Ok s) else Ok s) (\<lambda>s.
     rbind (kalloc s) (\<lambda>(newPageAddress, s).
     if newPageAddress = 0 then cprintf (chars ''kalloc failed in trap PGFLT case'' @ [10]) [] s
     else
       let s = s\<lparr>mem := memset (mem s) newPageAddress 0 PGSIZE\<rparr> in
       case find_from (\<lambda>i. v_address (p_pagesDS (procs s ! p) ! i) = page) 0 MAX_TOTAL_PAGES of
         None \<Rightarrow> Panic ''can't find appropriate page''
       | Some i \<Rightarrow>
           let offset = file_offset (p_pagesDS (procs s ! p) ! i) in
           rbind (readFromSwapFile p (word_of_int offset) 4096 s) (\<lambda>((_, bs), s).
           let s = s\<lparr>mem := store_bytes (mem s) newPageAddress bs\<rparr> in
           rbind (walkpgdir_global pgdir va False s) (\<lambda>(pte, s).
           rbind (get_pte pte s) (\<lambda>w.
           rbind (set_pte pte (PTE_PG_ON (PTE_P_OFF w)) s) (\<lambda>s.
           rbind (mappages_global pgdir page PGSIZE (V2P newPageAddress) (PTE_W OR PTE_U) s) (\<lambda>(_, s).
           rbind (get_pte pte s) (\<lambda>w.
           rbind (set_pte pte (PTE_PG_OFF (PTE_P_ON w)) s) (\<lambda>s.
           let s = upd_page p i (\<lambda>pg. pg\<lparr>in_RAM := 1\<rparr>) s in
           rbind (insertOffsetQueue (file_offset (p_pagesDS (procs s ! p) ! i)) s) (\<lambda>s.
           let s = upd_page p i (\<lambda>pg. pg\<lparr>file_offset := - 1\<rparr>) s in
           rbind (insert_page (int i) s) (\<lambda>s.
           Ok (upd_proc p (\<lambda>q. q\<lparr>p_numberOfPagedOut := p_numberOfPagedOut q - 1\<rparr>) s)))))))))))))"

section \<open>trap\<close>

definition killed_exit :: "trapframe \<Rightarrow> kernel \<Rightarrow> (kernel, kernel) res" where
  "killed_exit tf s =
     (case myproc s of
        None \<Rightarrow> Ok s
      | Some p \<Rightarrow> if p_killed (procs s ! p) \<and> tf_cs tf AND 3 = DPL_USER then exit s else Ok s)"

definition unexpected :: "hw \<Rightarrow> trapframe \<Rightarrow> kernel \<Rightarrow> (kernel, kernel) res" where
  "unexpected h tf s =
     (case myproc s of
        Some p \<Rightarrow>
          if tf_cs tf AND 3 = 0 then Panic ''trap''
          else
            rbind (cprintf (chars ''pid %d %s: trap %d err %d on cpu %d eip 0x%x addr 0x%x--kill proc'' @ [10])
              [AInt (word_of_int (p_pid (procs s ! p))), AStr (Some (cstr (p_name (procs s ! p)))),
               AInt (tf_trapno tf), AInt (tf_err tf), AInt (of_nat (hw_cpuid h)), AInt (tf_eip tf),
               AInt (hw_cr2 h)] s) (\<lambda>s.
            Ok (upd_proc p (\<lambda>q. q\<lparr>p_killed := True\<rparr>) s))
      | None \<Rightarrow> Panic ''trap'')"

text \<open>The \<open>switch\<close>.\<close>

definition trap_dispatch :: "hw \<Rightarrow> trapframe \<Rightarrow> kernel \<Rightarrow> (kernel, kernel) res" where
  "trap_dispatch h tf s =
     (let n = tf_trapno tf in
      if n = T_IRQ0 + IRQ_TIMER then
        if hw_cpuid h = 0 then
          rbind (acquire L_ticks s) (\<lambda>s.
          rbind (wakeup C_ticks (s\<lparr>ticks := ticks s + 1\<rparr>)) (release L_ticks))
        else Ok s
      else if n = T_IRQ0 + IRQ_IDE then
        rbind (ideintr (hw_ide_status h) (hw_ide_sector h) s) (\<lambda>(_, s). Ok s)
      else if n = T_IRQ0 + IRQ_IDE + 1 then Ok s
      else if n = T_IRQ0 + IRQ_KBD then kbdintr (hw_scan h) s
      else if n = T_IRQ0 + IRQ_COM1 then uartintr (hw_uart h) s
      else if n = T_IRQ0 + 7 \<or> n = T_IRQ0 + IRQ_SPURIOUS then
        cprintf (chars ''cpu%d: spurious interrupt at %x:%x'' @ [10])
          [AInt (of_nat (hw_cpuid h)), AInt (ucast (tf_cs tf)), AInt (tf_eip tf)] s
      else if n = T_PGFLT \<and> paging s then pgflt h s
      else unexpected h tf s)"

text \<open>A trap returns, or ends in \<open>Block\<close> where the process gives up the processor. After
  \<open>yield\<close> the process resumes at \<open>trap_resume\<close>.\<close>

definition trap :: "hw \<Rightarrow> trapframe \<Rightarrow> kernel \<Rightarrow> (kernel, kernel) res" where
  "trap h tf s =
     (if tf_trapno tf = T_SYSCALL then
        rbind (curproc s) (\<lambda>p.
        rbind (if p_killed (procs s ! p) then exit s else Ok s) (\<lambda>s.
        rbind (syscall (upd_proc p (\<lambda>q. q\<lparr>p_tf := tf\<rparr>) s)) (\<lambda>s.
        if p_killed (procs s ! p) then exit s else Ok s)))
      else
        rbind (trap_dispatch h tf s) (\<lambda>s.
        rbind (killed_exit tf s) (\<lambda>s.
        rbind (case myproc s of
                 None \<Rightarrow> Ok s
               | Some p \<Rightarrow>
                   if p_state (procs s ! p) = RUNNING \<and> tf_trapno tf = T_IRQ0 + IRQ_TIMER
                   then yield s else Ok s) (killed_exit tf))))"

text \<open>What is left of \<open>yield\<close> and \<open>trap\<close> when the process is scheduled again.\<close>

definition trap_resume :: "trapframe \<Rightarrow> kernel \<Rightarrow> (kernel, kernel) res" where
  "trap_resume tf s = rbind (release L_ptable s) (killed_exit tf)"

end
