(* ===== verification/Shell.thy ===== *)
theory Shell
  imports Cstring
begin

text \<open>
  The shell (\<open>sh.c\<close>) and \<open>init.c\<close>. The parser works on the bytes between \<open>*ps\<close> and \<open>es\<close>, which
  hold no NUL; reading at \<open>es\<close> gives 0. The text between \<open>q\<close> and \<open>eq\<close> is a list of bytes, which is
  what \<open>nulterminate\<close> makes of it. \<open>panic()\<close> of the shell prints and exits. The programs themselves
  are trees of system calls, with a branch for every reply of the kernel.
\<close>

section \<open>Commands\<close>

datatype cmd =
  EXEC "u8 list list"
| REDIR cmd "u8 list" u32 int
| PIPE cmd cmd
| LIST cmd cmd
| BACK cmd

definition MAXARGS :: nat where [simp, const_defs]: "MAXARGS = 10"

type_synonym 'a parser = "u8 list \<Rightarrow> (unit, 'a \<times> u8 list) res"

definition whitespace :: "u8 list" where "whitespace = [32, 9, 13, 10, 11]"
definition symbols :: "u8 list" where "symbols = [60, 124, 62, 38, 59, 40, 41]"

definition white :: "u8 \<Rightarrow> bool" where
  "white c \<longleftrightarrow> strchr whitespace c \<noteq> None"

definition symbol :: "u8 \<Rightarrow> bool" where
  "symbol c \<longleftrightarrow> strchr symbols c \<noteq> None"

definition word_char :: "u8 \<Rightarrow> bool" where
  "word_char c \<longleftrightarrow> \<not> white c \<and> \<not> symbol c"

section \<open>Tokens\<close>

text \<open>The token code, its text, and what follows it.\<close>

definition gettoken :: "u8 list \<Rightarrow> u8 \<times> u8 list \<times> u8 list" where
  "gettoken cs =
     (let s = dropWhile white cs; c = c0 s in
      if c = 0 then (0, [], dropWhile white s)
      else if c \<in> {124, 40, 41, 59, 38, 60} then (c, [c], dropWhile white (tl s))
      else if c = 62 then
        if c0 (tl s) = 62 then (43, [62, 62], dropWhile white (tl (tl s)))
        else (62, [62], dropWhile white (tl s))
      else (97, takeWhile word_char s, dropWhile white (dropWhile word_char s)))"

definition token :: "u8 list \<Rightarrow> u8" where "token cs = fst (gettoken cs)"
definition token_text :: "u8 list \<Rightarrow> u8 list" where "token_text cs = fst (snd (gettoken cs))"
definition after :: "u8 list \<Rightarrow> u8 list" where "after cs = snd (snd (gettoken cs))"

definition peek :: "u8 list \<Rightarrow> u8 list \<Rightarrow> bool" where
  "peek toks cs \<longleftrightarrow> c0 (dropWhile white cs) \<noteq> 0 \<and> strchr toks (c0 (dropWhile white cs)) \<noteq> None"

definition skip :: "u8 list \<Rightarrow> u8 list" where
  "skip cs = dropWhile white cs"

lemma length_tl_less: "c0 s \<noteq> 0 \<Longrightarrow> length (tl s) < length s"
  by (cases s) auto

lemma word_charI: "c \<noteq> 0 \<Longrightarrow> c \<notin> {124, 40, 41, 59, 38, 60} \<Longrightarrow> c \<noteq> 62 \<Longrightarrow> \<not> white c \<Longrightarrow> word_char c"
  by (auto simp: word_char_def symbol_def symbols_def)

lemma white_c0: "\<not> white (c0 (dropWhile white cs))"
proof (cases "dropWhile white cs")
  case Nil
  have "\<not> white 0" by (simp add: white_def whitespace_def)
  then show ?thesis unfolding Nil by simp
next
  case (Cons c r)
  then have "\<not> white c" by (metis dropWhile_eq_Cons_conv)
  with Cons show ?thesis by simp
qed

lemma length_after:
  assumes "c0 (dropWhile white cs) \<noteq> 0"
  shows "length (after cs) < length cs"
proof -
  let ?s = "dropWhile white cs"
  have s: "length ?s \<le> length cs" by (rule length_dropWhile_le)
  have l: "length (dropWhile white xs) \<le> length xs" for xs by (rule length_dropWhile_le)
  have t: "length (tl ?s) < length ?s" using assms by (rule length_tl_less)
  have "length (dropWhile word_char ?s) < length ?s" if "word_char (c0 ?s)"
    using that assms length_dropWhile_le [of word_char "tl ?s"] by (cases ?s) auto
  moreover have "word_char (c0 ?s) \<or> c0 ?s \<in> {124, 40, 41, 59, 38, 60} \<or> c0 ?s = 62"
    using word_charI [OF assms _ _ white_c0] by blast
  ultimately show ?thesis
    using assms s t l [of "tl ?s"] l [of "tl (tl ?s)"] l [of "dropWhile word_char ?s"]
    by (auto simp: after_def gettoken_def Let_def)
qed

lemma length_after_le: "length (after cs) \<le> length cs"
proof (cases "c0 (dropWhile white cs) = 0")
  case True
  then show ?thesis
    using length_dropWhile_le [of white cs] length_dropWhile_le [of white "dropWhile white cs"]
    by (simp add: after_def gettoken_def Let_def)
qed (simp add: length_after less_imp_le)

lemma peek_after: "peek toks cs \<Longrightarrow> length (after cs) < length cs"
  by (simp add: peek_def length_after)

lemma length_skip: "length (skip cs) \<le> length cs"
  by (simp add: skip_def length_dropWhile_le)

section \<open>The parser\<close>

text \<open>A redirection: file, mode and descriptor.\<close>

type_synonym redir = "u8 list \<times> u32 \<times> int"

fun wrap :: "cmd \<Rightarrow> redir list \<Rightarrow> cmd" where
  "wrap c [] = c"
| "wrap c ((f, m, fd) # rs) = wrap (REDIR c f m fd) rs"

function parseredirs :: "redir list parser" where
  "parseredirs cs =
     (if peek [60, 62] cs then
        let tok = token cs; cs' = after cs in
        if token cs' \<noteq> 97 then Panic ''missing file for redirection''
        else
          let r = (token_text cs', if tok = 60 then 0 else 0x201, if tok = 60 then 0 else 1) in
          rbind (parseredirs (after cs')) (\<lambda>(rs, cs). Ok (r # rs, cs))
      else Ok ([], skip cs))"
  by pat_completeness auto
termination
  by (relation "measure length") (auto intro: le_less_trans [OF length_after_le peek_after])

declare parseredirs.simps [simp del]

text \<open>The loop of \<open>parseexec\<close>: the arguments and redirections seen so far.\<close>

lemma parseredirs_length: "parseredirs cs = Ok (rs, cs') \<Longrightarrow> length cs' \<le> length cs"
proof (induction cs arbitrary: rs cs' rule: parseredirs.induct)
  case (1 cs)
  show ?case
  proof (cases "peek [60, 62] cs")
    case True
    with "1.prems" have tok: "token (after cs) = 97"
      by (auto simp: parseredirs.simps [of cs] Let_def split: if_splits)
    with True "1.prems" obtain rs' where "parseredirs (after (after cs)) = Ok (rs', cs')"
      by (auto simp: parseredirs.simps [of cs] Let_def rbind_Ok_iff)
    with "1.IH" [OF True refl refl] tok have "length cs' \<le> length (after (after cs))" by blast
    also have "\<dots> \<le> length (after cs)" by (rule length_after_le)
    also have "\<dots> \<le> length cs" by (rule length_after_le)
    finally show ?thesis .
  next
    case False
    with "1.prems" show ?thesis by (auto simp: parseredirs.simps [of cs] length_skip)
  qed
qed

lemma token_word: "token cs = 97 \<Longrightarrow> c0 (dropWhile white cs) \<noteq> 0"
  by (auto simp: token_def gettoken_def Let_def)

function parseargs :: "u8 list list \<Rightarrow> redir list \<Rightarrow> cmd parser" where
  "parseargs args rs cs =
     (if peek [124, 41, 38, 59] cs then Ok (wrap (EXEC args) rs, skip cs)
      else if token cs = 0 then Ok (wrap (EXEC args) rs, after cs)
      else if token cs \<noteq> 97 then Panic ''syntax''
      else if length args + 1 \<ge> MAXARGS then Panic ''too many args''
      else rbind (parseredirs (after cs)) (\<lambda>(rs', cs').
        parseargs (args @ [token_text cs]) (rs @ rs') cs'))"
  by pat_completeness auto
termination
proof (relation "measure (\<lambda>(_, _, cs). length cs)", goal_cases)
  case (2 args rs cs x rs' cs')
  then have "length cs' \<le> length (after cs)" by (auto dest: parseredirs_length)
  also have "\<dots> < length cs" using 2 by (intro length_after token_word) auto
  finally show ?case by simp
qed simp

declare parseargs.simps [simp del]

function backs :: "cmd \<Rightarrow> u8 list \<Rightarrow> cmd \<times> u8 list" where
  "backs c cs = (if peek [38] cs then backs (BACK c) (after cs) else (c, skip cs))"
  by pat_completeness auto
termination by (relation "measure (\<lambda>(_, cs). length cs)") (auto intro: peek_after)

declare backs.simps [simp del]

text \<open>\<open>parseblock\<close> from the call of \<open>parseline\<close> on, which it is given; the test for the opening
  parenthesis is that of its caller.\<close>

definition parseblock :: "cmd parser \<Rightarrow> cmd parser" where
  "parseblock line cs =
     rbind (line (after cs)) (\<lambda>(c, cs).
     if \<not> peek [41] cs then Panic ''syntax - missing )''
     else rbind (parseredirs (after cs)) (\<lambda>(rs, cs). Ok (wrap c rs, cs)))"

lemma parseblock_cong [fundef_cong]:
  "cs = cs' \<Longrightarrow> line (after cs') = line' (after cs') \<Longrightarrow> parseblock line cs = parseblock line' cs'"
  by (simp add: parseblock_def)

text \<open>The mutually recursive functions, with a bound on the depth of the recursion.\<close>

fun parseline :: "nat \<Rightarrow> cmd parser"
  and parsepipe :: "nat \<Rightarrow> cmd parser"
  and parseexec :: "nat \<Rightarrow> cmd parser"
where
  "parseline 0 cs = Hang"
| "parseline (Suc n) cs =
     rbind (parsepipe n cs) (\<lambda>(c, cs).
     let (c, cs) = backs c cs in
     if peek [59] cs then rbind (parseline n (after cs)) (\<lambda>(c', cs). Ok (LIST c c', cs))
     else Ok (c, skip cs))"
| "parsepipe 0 cs = Hang"
| "parsepipe (Suc n) cs =
     rbind (parseexec n cs) (\<lambda>(c, cs).
     if peek [124] cs then rbind (parsepipe n (after cs)) (\<lambda>(c', cs). Ok (PIPE c c', cs))
     else Ok (c, skip cs))"
| "parseexec 0 cs = Hang"
| "parseexec (Suc n) cs =
     (if peek [40] cs then parseblock (parseline n) cs
      else rbind (parseredirs cs) (\<lambda>(rs, cs). parseargs [] rs cs))"

text \<open>\<open>parsecmd\<close>: the command, or the text that is left over.\<close>

definition parsecmd :: "u8 list \<Rightarrow> (unit, cmd + u8 list) res" where
  "parsecmd s =
     rbind (parseline (3 * length s + 3) s) (\<lambda>(c, cs).
     Ok (if skip cs = [] then Inl c else Inr (skip cs)))"

section \<open>The parser ends\<close>

lemma parseargs_length: "parseargs args rs cs = Ok (c, cs') \<Longrightarrow> length cs' \<le> length cs"
proof (induction args rs cs arbitrary: c cs' rule: parseargs.induct)
  case (1 args rs cs)
  consider (stop) "peek [124, 41, 38, 59] cs \<or> token cs = 0" | (more) rs' ds where
    "\<not> peek [124, 41, 38, 59] cs" "token cs \<noteq> 0" "token cs = 97" "\<not> length args + 1 \<ge> MAXARGS"
    "parseredirs (after cs) = Ok (rs', ds)" "parseargs (args @ [token_text cs]) (rs @ rs') ds = Ok (c, cs')"
    using "1.prems" by (auto simp: parseargs.simps [of args rs cs] rbind_Ok_iff split: if_splits)
  then show ?case
  proof cases
    case stop
    with "1.prems" show ?thesis
      by (auto simp: parseargs.simps [of args rs cs] length_skip length_after_le split: if_splits)
  next
    case more
    then have "length cs' \<le> length ds" using "1.IH" by blast
    also have "\<dots> \<le> length (after cs)" using more(5) by (rule parseredirs_length)
    also have "\<dots> \<le> length cs" by (rule length_after_le)
    finally show ?thesis .
  qed
qed

lemma backs_length: "backs c cs = (c', cs') \<Longrightarrow> length cs' \<le> length cs"
proof (induction c cs arbitrary: c' cs' rule: backs.induct)
  case (1 c cs)
  show ?case
  proof (cases "peek [38] cs")
    case True
    with "1.prems" "1.IH" have "length cs' \<le> length (after cs)" by (simp add: backs.simps [of c cs])
    with length_after_le [of cs] show ?thesis by simp
  next
    case False
    with "1.prems" show ?thesis by (auto simp: backs.simps [of c cs] length_skip)
  qed
qed

lemma parse_length:
  "parseline n cs = Ok (c, cs') \<Longrightarrow> length cs' \<le> length cs"
  "parsepipe n cs = Ok (c, cs') \<Longrightarrow> length cs' \<le> length cs"
  "parseexec n cs = Ok (c, cs') \<Longrightarrow> length cs' \<le> length cs"
proof (induction n arbitrary: c cs cs')
  case (Suc n)
  {
    case 1
    then obtain c1 cs1 where p: "parsepipe n cs = Ok (c1, cs1)"
      and r: "(let (c, cs) = backs c1 cs1 in
        if peek [59] cs then rbind (parseline n (after cs)) (\<lambda>(c', cs). Ok (LIST c c', cs))
        else Ok (c, skip cs)) = Ok (c, cs')"
      by (auto simp: rbind_Ok_iff)
    obtain c2 cs2 where b: "backs c1 cs1 = (c2, cs2)" by force
    with p r have *: "parsepipe n cs = Ok (c1, cs1)" "backs c1 cs1 = (c2, cs2)"
      "(if peek [59] cs2 then rbind (parseline n (after cs2)) (\<lambda>(c', cs). Ok (LIST c2 c', cs))
        else Ok (c2, skip cs2)) = Ok (c, cs')"
      by simp_all
    have "length cs2 \<le> length cs" using Suc.IH(2) [OF *(1)] backs_length [OF *(2)] by simp
    moreover have "length cs' \<le> length cs2"
      using *(3) Suc.IH(1) length_after_le [of cs2] length_skip [of cs2]
      by (auto simp: rbind_Ok_iff split: if_splits intro: le_trans)
    ultimately show ?case by simp
  next
    case 2
    then obtain c1 cs1 where *: "parseexec n cs = Ok (c1, cs1)"
      "(if peek [124] cs1 then rbind (parsepipe n (after cs1)) (\<lambda>(c', cs). Ok (PIPE c1 c', cs))
        else Ok (c1, skip cs1)) = Ok (c, cs')"
      by (auto simp: rbind_Ok_iff)
    have "length cs' \<le> length cs1"
      using *(2) Suc.IH(2) length_after_le [of cs1] length_skip [of cs1]
      by (auto simp: rbind_Ok_iff split: if_splits intro: le_trans)
    with Suc.IH(3) [OF *(1)] show ?case by simp
  next
    case 3
    show ?case
    proof (cases "peek [40] cs")
      case True
      with 3 obtain c1 cs1 rs where *: "parseline n (after cs) = Ok (c1, cs1)"
        "parseredirs (after cs1) = Ok (rs, cs')"
        by (auto simp: parseblock_def rbind_Ok_iff split: if_splits)
      from parseredirs_length [OF *(2)] Suc.IH(1) [OF *(1)] length_after_le [of cs] length_after_le [of cs1]
      show ?thesis by simp
    next
      case False
      with 3 obtain rs cs1 where "parseredirs cs = Ok (rs, cs1)" "parseargs [] rs cs1 = Ok (c, cs')"
        by (auto simp: rbind_Ok_iff)
      then have "length cs1 \<le> length cs" "length cs' \<le> length cs1"
        by (blast intro: parseredirs_length parseargs_length)+
      then show ?thesis by simp
    qed
  }
qed auto

lemma rbind_Hang_iff: "rbind m f = Hang \<longleftrightarrow> m = Hang \<or> (\<exists>x. m = Ok x \<and> f x = Hang)"
  by (cases m) auto

lemma not_Hang:
  "parseredirs cs \<noteq> Hang" "parseargs args rs cs \<noteq> Hang"
proof -
  show r: "parseredirs cs \<noteq> Hang" for cs
  proof (induction cs rule: parseredirs.induct)
    case (1 cs)
    have "parseredirs (after (after cs)) \<noteq> Hang" if "peek [60, 62] cs" "token (after cs) = 97"
      using "1.IH" [OF that(1) refl refl] that(2) by blast
    then show ?case by (auto simp: parseredirs.simps [of cs] Let_def rbind_Hang_iff)
  qed
  show "parseargs args rs cs \<noteq> Hang"
  proof (induction args rs cs rule: parseargs.induct)
    case (1 args rs cs)
    then show ?case
      using r [of "after cs"] by (cases "parseredirs (after cs)") (auto simp: parseargs.simps [of args rs cs])
  qed
qed

lemma parse_not_Hang:
  "3 * length cs + 3 \<le> n \<Longrightarrow> parseline n cs \<noteq> Hang"
  "3 * length cs + 2 \<le> n \<Longrightarrow> parsepipe n cs \<noteq> Hang"
  "3 * length cs + 1 \<le> n \<Longrightarrow> parseexec n cs \<noteq> Hang"
proof (induction n arbitrary: cs)
  case (Suc n)
  {
    case 1
    have "parseline n (after cs2) \<noteq> Hang"
      if "parsepipe n cs = Ok (c1, cs1)" "backs c1 cs1 = (c2, cs2)" "peek [59] cs2" for c1 cs1 c2 cs2
    proof (rule Suc.IH(1))
      have "length (after cs2) < length cs2" using that(3) by (rule peek_after)
      with parse_length(2) [OF that(1)] backs_length [OF that(2)] 1 show "3 * length (after cs2) + 3 \<le> n" by simp
    qed
    moreover have "parsepipe n cs \<noteq> Hang" using Suc.IH(2) 1 by simp
    moreover have "(let (c, cs) = backs c1 cs1 in
        if peek [59] cs then rbind (parseline n (after cs)) (\<lambda>(c', cs). Ok (LIST c c', cs))
        else Ok (c, skip cs)) \<noteq> Hang" if "parsepipe n cs = Ok (c1, cs1)" for c1 cs1
    proof -
      obtain c2 cs2 where "backs c1 cs1 = (c2, cs2)" by force
      with calculation(1) [OF that] show ?thesis by (auto simp: rbind_Hang_iff)
    qed
    ultimately show ?case by (auto simp: rbind_Hang_iff)
  next
    case 2
    have "parsepipe n (after cs1) \<noteq> Hang" if "parseexec n cs = Ok (c1, cs1)" "peek [124] cs1" for c1 cs1
    proof (rule Suc.IH(2))
      have "length (after cs1) < length cs1" using that(2) by (rule peek_after)
      with parse_length(3) [OF that(1)] 2 show "3 * length (after cs1) + 2 \<le> n" by simp
    qed
    moreover have "parseexec n cs \<noteq> Hang" using Suc.IH(3) 2 by simp
    ultimately show ?case by (auto simp: rbind_Hang_iff)
  next
    case 3
    have "parseline n (after cs) \<noteq> Hang" if "peek [40] cs"
      using Suc.IH(1) peek_after [OF that] 3 by simp
    then show ?case by (auto simp: parseblock_def rbind_Hang_iff not_Hang)
  }
qed auto

text \<open>C19 [shell_parser_ends]: \<open>parsecmd\<close> ends on every line; the depth of its recursion is at most
  three calls per character and three more. It yields a command, the text left over, or a syntax error.\<close>

theorem shell_parser_ends: "parsecmd s \<noteq> Hang \<and> parseline (3 * length s + 3 + m) s \<noteq> Hang"
proof -
  have "parsecmd s \<noteq> Hang"
    by (auto simp: parsecmd_def rbind_Hang_iff parse_not_Hang)
  then show ?thesis by (simp add: parse_not_Hang)
qed

section \<open>Printing and parsing\<close>

text \<open>Commands as a user types them: words followed by a space, simple commands separated by
  \<open>|\<close>, pipelines perhaps followed by \<open>&\<close> and separated by \<open>;\<close>.\<close>

definition word_ok :: "u8 list \<Rightarrow> bool" where
  "word_ok w \<longleftrightarrow> w \<noteq> [] \<and> (\<forall>c \<in> set w. word_char c \<and> c \<noteq> 0)"

definition simple_ok :: "u8 list list \<Rightarrow> bool" where
  "simple_ok ws \<longleftrightarrow> length ws < MAXARGS \<and> (\<forall>w \<in> set ws. word_ok w)"

fun show_words :: "u8 list list \<Rightarrow> u8 list" where
  "show_words [] = []"
| "show_words (w # ws) = w @ 32 # show_words ws"

type_synonym job = "u8 list list list \<times> bool"

fun show_pipe :: "u8 list list list \<Rightarrow> u8 list" where
  "show_pipe [] = []"
| "show_pipe [ws] = show_words ws"
| "show_pipe (ws # wss) = show_words ws @ 124 # show_pipe wss"

fun pipe_cmd :: "u8 list list list \<Rightarrow> cmd" where
  "pipe_cmd [] = EXEC []"
| "pipe_cmd [ws] = EXEC ws"
| "pipe_cmd (ws # wss) = PIPE (EXEC ws) (pipe_cmd wss)"

definition job_cmd :: "job \<Rightarrow> cmd" where
  "job_cmd j = (if snd j then BACK (pipe_cmd (fst j)) else pipe_cmd (fst j))"

definition show_job :: "job \<Rightarrow> u8 list" where
  "show_job j = show_pipe (fst j) @ (if snd j then [38] else [])"

fun show_jobs :: "job list \<Rightarrow> u8 list" where
  "show_jobs [] = []"
| "show_jobs [j] = show_job j"
| "show_jobs (j # js) = show_job j @ 59 # show_jobs js"

fun jobs_cmd :: "job list \<Rightarrow> cmd" where
  "jobs_cmd [] = EXEC []"
| "jobs_cmd [j] = job_cmd j"
| "jobs_cmd (j # js) = LIST (job_cmd j) (jobs_cmd js)"

definition job_ok :: "job \<Rightarrow> bool" where
  "job_ok j \<longleftrightarrow> fst j \<noteq> [] \<and> (\<forall>ws \<in> set (fst j). ws \<noteq> [] \<and> simple_ok ws)"

text \<open>What may follow a simple command.\<close>

definition stop :: "u8 list \<Rightarrow> bool" where
  "stop k \<longleftrightarrow> k = [] \<or> hd k \<in> {124, 38, 59}"

lemma white_sep [simp]: "white 32" "\<not> white 124" "\<not> white 38" "\<not> white 59" "\<not> white 0"
  by (simp_all add: white_def whitespace_def)

lemma stop_skip: "stop k \<Longrightarrow> dropWhile white k = k"
  by (cases k) (auto simp: stop_def)

lemma word_skip: "word_ok w \<Longrightarrow> dropWhile white (w @ k) = w @ k"
  by (cases w) (auto simp: word_ok_def word_char_def)

lemma word_c0:
  assumes "word_ok w"
  shows "c0 (w @ k) \<noteq> 0" "word_char (c0 (w @ k))"
  using assms by (cases w; auto simp: word_ok_def)+

lemma word_char_neq: "word_char c \<Longrightarrow> c \<notin> {124, 40, 41, 59, 38, 60, 62}"
  by (auto simp: word_char_def symbol_def symbols_def)

lemma gettoken_word:
  assumes "word_ok w"
  shows "gettoken (w @ 32 # k) = (97, w, dropWhile white k)"
proof -
  have "takeWhile word_char (w @ 32 # k) = w" "dropWhile word_char (w @ 32 # k) = 32 # k"
    using assms by (auto simp: word_ok_def word_char_def takeWhile_tail dropWhile_append)
  then show ?thesis
    using assms word_c0 [OF assms, of "32 # k"] word_char_neq [of "c0 (w @ 32 # k)"]
    by (simp add: gettoken_def word_skip Let_def)
qed

lemma peek_word: "word_ok w \<Longrightarrow> set toks \<subseteq> {124, 40, 41, 59, 38, 60, 62} \<Longrightarrow> \<not> peek toks (w @ k)"
proof -
  assume w: "word_ok w" and t: "set toks \<subseteq> {124, 40, 41, 59, 38, 60, 62}"
  have "strchr toks c = None" if "c \<notin> set toks" for c using that by (induction toks) auto
  moreover have "c0 (w @ k) \<notin> set toks" using word_char_neq [OF word_c0(2) [OF w]] t by blast
  ultimately show ?thesis by (simp add: peek_def word_skip [OF w])
qed

lemma peek_stop:
  assumes "stop k"
  shows "\<not> peek [60, 62] k" "\<not> peek [40] k" "peek [124, 41, 38, 59] k \<longleftrightarrow> k \<noteq> []"
    "peek [124] k \<longleftrightarrow> k \<noteq> [] \<and> hd k = 124" "peek [38] k \<longleftrightarrow> k \<noteq> [] \<and> hd k = 38"
    "peek [59] k \<longleftrightarrow> k \<noteq> [] \<and> hd k = 59"
  using assms stop_skip [OF assms] by (cases k; auto simp: peek_def stop_def)+

lemma after_sep: "c \<in> {124, 38, 59} \<Longrightarrow> after (c # k) = dropWhile white k"
  by (auto simp: after_def gettoken_def)

lemma parseredirs_none: "\<not> peek [60, 62] cs \<Longrightarrow> parseredirs cs = Ok ([], dropWhile white cs)"
  by (simp add: parseredirs.simps skip_def)

lemma show_words_no_redir: "\<forall>w \<in> set ws. word_ok w \<Longrightarrow> stop k \<Longrightarrow>
    \<not> peek [60, 62] (show_words ws @ k) \<and> \<not> peek [40] (show_words ws @ k) \<and>
    dropWhile white (show_words ws @ k) = show_words ws @ k"
  by (cases ws) (auto simp: peek_word peek_stop word_skip stop_skip)

lemma parseargs_words:
  "\<forall>w \<in> set ws. word_ok w \<Longrightarrow> stop k \<Longrightarrow> length args + length ws < 10 \<Longrightarrow>
     parseargs args rs (show_words ws @ k) = Ok (wrap (EXEC (args @ ws)) rs, k)"
proof (induction ws arbitrary: args)
  case Nil
  then show ?case
    by (cases "k = []")
      (simp_all add: parseargs.simps peek_stop skip_def stop_skip token_def after_def gettoken_def)
next
  case (Cons w ws)
  let ?r = "show_words ws @ k"
  have w: "word_ok w" and ws: "\<forall>w \<in> set ws. word_ok w" using Cons.prems by auto
  have r: "\<not> peek [60, 62] ?r" "dropWhile white ?r = ?r" using show_words_no_redir [OF ws Cons.prems(2)] by auto
  have g: "gettoken (show_words (w # ws) @ k) = (97, w, ?r)" using gettoken_word [OF w, of ?r] r by simp
  have "\<not> peek [124, 41, 38, 59] (show_words (w # ws) @ k)"
    using peek_word [OF w, of "[124, 41, 38, 59]"] by simp
  then have "parseargs args rs (show_words (w # ws) @ k) = parseargs (args @ [w]) rs ?r"
    using Cons.prems(3) by (subst parseargs.simps)
      (simp add: token_def after_def token_text_def g parseredirs_none r del: show_words.simps)
  also have "\<dots> = Ok (wrap (EXEC ((args @ [w]) @ ws)) rs, k)"
    using Cons.IH [of "args @ [w]"] Cons.prems ws by simp
  finally show ?case by simp
qed

lemma parseexec_words:
  "simple_ok ws \<Longrightarrow> stop k \<Longrightarrow> parseexec (Suc n) (show_words ws @ k) = Ok (EXEC ws, k)"
  using show_words_no_redir [of ws k] parseargs_words [of ws k "[]" "[]"]
  by (simp add: simple_ok_def parseredirs_none)

lemma show_pipe_start:
  assumes "job_ok (wss, b)" "stop k"
  shows "dropWhile white (show_pipe wss @ k) = show_pipe wss @ k"
proof (cases wss rule: show_pipe.cases)
  case 1
  with assms show ?thesis by (simp add: job_ok_def)
next
  case (2 ws)
  with assms show_words_no_redir [of ws k] show ?thesis by (auto simp: job_ok_def simple_ok_def)
next
  case (3 ws v va)
  with assms show_words_no_redir [of ws "124 # show_pipe (v # va) @ k"] show ?thesis
    by (auto simp: job_ok_def simple_ok_def stop_def)
qed

lemma parsepipe_show:
  "job_ok (wss, b) \<Longrightarrow> stop k \<Longrightarrow> \<not> peek [124] k \<Longrightarrow> length wss < n \<Longrightarrow>
     parsepipe n (show_pipe wss @ k) = Ok (pipe_cmd wss, k)"
proof (induction wss arbitrary: n rule: show_pipe.induct)
  case 1
  then show ?case by (simp add: job_ok_def)
next
  case (2 ws)
  then obtain m where "n = Suc (Suc m)" by (cases n; cases "n - 1") auto
  with 2 show ?case by (simp add: parseexec_words job_ok_def skip_def stop_skip del: parseexec.simps)
next
  case (3 ws v va)
  then obtain m where n: "n = Suc (Suc m)" by (cases n; cases "n - 1") auto
  let ?k = "124 # show_pipe (v # va) @ k"
  have ok: "simple_ok ws" "job_ok (v # va, b)" using "3.prems"(1) by (auto simp: job_ok_def)
  have "parseexec (Suc m) (show_words ws @ ?k) = Ok (EXEC ws, ?k)"
    using ok by (intro parseexec_words) (auto simp: stop_def)
  moreover have "after ?k = show_pipe (v # va) @ k"
    using show_pipe_start [OF ok(2) "3.prems"(2)] by (simp add: after_sep)
  moreover have "peek [124] ?k" by (simp add: peek_def)
  moreover have "parsepipe (Suc m) (show_pipe (v # va) @ k) = Ok (pipe_cmd (v # va), k)"
    using "3.IH" [of "Suc m"] "3.prems" ok n by simp
  ultimately show ?case by (simp add: n del: parseexec.simps)
qed

lemma show_pipe_length: "job_ok (wss, b) \<Longrightarrow> length wss \<le> length (show_pipe wss)"
proof (induction wss rule: show_pipe.induct)
  case (2 ws)
  then show ?case by (cases ws) (auto simp: job_ok_def)
next
  case (3 ws v va)
  then show ?case by (auto simp: job_ok_def)
qed simp

lemma backs_show:
  assumes "stop k" "\<not> peek [38] k"
  shows "backs c ((if b then [38] else []) @ k) = ((if b then BACK c else c), k)"
proof -
  have "backs c' k = (c', k)" for c' using assms by (simp add: backs.simps skip_def stop_skip)
  moreover have "b \<Longrightarrow> backs c (38 # k) = backs (BACK c) k"
    using assms by (subst backs.simps) (simp add: peek_def after_sep stop_skip)
  ultimately show ?thesis by simp
qed

lemma parseline_show:
  "js \<noteq> [] \<Longrightarrow> \<forall>j \<in> set js. job_ok j \<Longrightarrow> length (show_jobs js) + 2 \<le> n \<Longrightarrow>
     parseline n (show_jobs js) = Ok (jobs_cmd js, [])"
proof (induction js arbitrary: n rule: show_jobs.induct)
  case (2 j)
  obtain wss b where j: "j = (wss, b)" by force
  obtain m where n: "n = Suc m" using "2.prems"(3) by (cases n) auto
  let ?k = "(if b then [38] else []) :: u8 list"
  have k: "stop ?k" "\<not> peek [124] ?k" by (auto simp: stop_def peek_def)
  have "parsepipe m (show_pipe wss @ ?k) = Ok (pipe_cmd wss, ?k)"
    using "2.prems" j n k show_pipe_length [of wss b] by (intro parsepipe_show) (auto simp: show_job_def)
  moreover have "backs c ?k = ((if b then BACK c else c), [])" for c
    using backs_show [of "[]" c b] by (simp add: stop_def peek_def)
  ultimately show ?case by (simp add: n j show_job_def job_cmd_def peek_def skip_def)
next
  case (3 j j' js)
  obtain wss b where j: "j = (wss, b)" by force
  obtain m where n: "n = Suc m" using "3.prems"(3) by (cases n) auto
  let ?r = "show_jobs (j' # js)"
  let ?k = "(if b then [38] else []) @ 59 # ?r"
  have k: "stop ?k" "\<not> peek [124] ?k" by (auto simp: stop_def peek_def)
  have "parsepipe m (show_pipe wss @ ?k) = Ok (pipe_cmd wss, ?k)"
    using "3.prems" j n k show_pipe_length [of wss b] by (intro parsepipe_show) (auto simp: show_job_def)
  moreover have "backs c ?k = ((if b then BACK c else c), 59 # ?r)" for c
    using backs_show [of "59 # ?r" c b] by (simp add: stop_def peek_def)
  moreover have "after (59 # ?r) = ?r"
  proof -
    obtain wss' b' where j': "j' = (wss', b')" by force
    have "job_ok (wss', b')" using "3.prems"(2) j' by simp
    then have "dropWhile white ?r = ?r"
      using show_pipe_start [of wss' b' "if b' then [38] else []"]
        show_pipe_start [of wss' b' "(if b' then [38] else []) @ 59 # show_jobs js"]
      by (cases js) (auto simp: j' show_job_def stop_def)
    then show ?thesis by (simp add: after_sep)
  qed
  moreover have "parseline m ?r = Ok (jobs_cmd (j' # js), [])"
    using "3.IH" [of m] "3.prems" n by simp
  moreover have "peek [59] (59 # ?r)" by (simp add: peek_def)
  ultimately show ?case by (simp add: n j show_job_def job_cmd_def)
qed simp

text \<open>C18 [shell_parse_print]: a line of jobs separated by \<open>;\<close>, each a pipeline of simple commands
  of one to nine words and perhaps in the background, is parsed to the command it spells out.\<close>

theorem shell_parse_print:
  assumes "js \<noteq> []" "\<forall>j \<in> set js. job_ok j"
  shows "parsecmd (show_jobs js) = Ok (Inl (jobs_cmd js))"
  using parseline_show [OF assms, of "3 * length (show_jobs js) + 3"]
  by (simp add: parsecmd_def skip_def)

theorem shell_parse_print_witness:
  "parsecmd (show_jobs [([[[108, 115]], [[119, 99]]], True), ([[[97]]], False)]) =
     Ok (Inl (LIST (BACK (PIPE (EXEC [[108, 115]]) (EXEC [[119, 99]]))) (EXEC [[97]])))"
  using shell_parse_print [of "[([[[108, 115]], [[119, 99]]], True), ([[[97]]], False)]"]
  by (simp add: job_ok_def simple_ok_def word_ok_def word_char_def white_def whitespace_def
    symbol_def symbols_def job_cmd_def)

end
