(* ===== verification/Grep.thy ===== *)
theory Grep
  imports Cstring
begin

text \<open>
  Text filters among the user programs: \<open>grep.c\<close> with its regular expression matcher, and
  \<open>wc.c\<close>. Strings are lists of bytes without the terminating NUL. What successive calls of
  \<open>read\<close> return is a list of chunks; an empty chunk is end of file.
\<close>

section \<open>The matcher\<close>

definition CARET :: u8 where [simp]: "CARET = 94"
definition DOLLAR :: u8 where [simp]: "DOLLAR = 36"
definition STAR :: u8 where [simp]: "STAR = 42"
definition DOT :: u8 where [simp]: "DOT = 46"
definition NL :: u8 where [simp]: "NL = 10"

text \<open>\<open>matchhere\<close> and \<open>matchstar\<close>; the pattern shrinks at every call of \<open>matchhere\<close> from
  \<open>matchstar\<close>, and the tx in the loop.\<close>

function matchhere :: "u8 list \<Rightarrow> u8 list \<Rightarrow> bool" and matchstar :: "u8 \<Rightarrow> u8 list \<Rightarrow> u8 list \<Rightarrow> bool" where
  "matchhere re tx =
     (case re of
        [] \<Rightarrow> True
      | r # re' \<Rightarrow>
          if c0 re' = STAR then matchstar r (tl re') tx
          else if r = DOLLAR \<and> re' = [] then tx = []
          else case tx of
            [] \<Rightarrow> False
          | t # tx' \<Rightarrow> (r = DOT \<or> r = t) \<and> matchhere re' tx')"
| "matchstar c re tx =
     (matchhere re tx \<or>
       (case tx of [] \<Rightarrow> False | t # tx' \<Rightarrow> (t = c \<or> c = DOT) \<and> matchstar c re tx'))"
  by pat_completeness auto
termination
proof (relation "measure (\<lambda>x. case x of Inl (re, tx) \<Rightarrow> 2 * length re + length tx
    | Inr (c, re, tx) \<Rightarrow> 2 * length re + length tx + 1)", goal_cases)
  case (2 re tx r re')
  then show ?case by (cases re') auto
qed auto

declare matchhere.simps [simp del] matchstar.simps [simp del]

fun match_loop :: "u8 list \<Rightarrow> u8 list \<Rightarrow> bool" where
  "match_loop re [] = matchhere re []"
| "match_loop re (t # ts) = (matchhere re (t # ts) \<or> match_loop re ts)"

definition match :: "u8 list \<Rightarrow> u8 list \<Rightarrow> bool" where
  "match re tx = (if c0 re = CARET then matchhere (tl re) tx else match_loop re tx)"

section \<open>What a pattern means\<close>

text \<open>A pattern is a sequence of items; \<open>Star c\<close> is any number of characters \<open>c\<close> matches, and
  \<open>Eol\<close> the end of the tx.\<close>

datatype item = One u8 | Star u8 | Eol

fun items :: "u8 list \<Rightarrow> item list" where
  "items [] = []"
| "items [r] = (if r = DOLLAR then [Eol] else [One r])"
| "items (r # x # re) = (if x = STAR then Star r # items re else One r # items (x # re))"

definition fits :: "u8 \<Rightarrow> u8 \<Rightarrow> bool" where
  "fits c t \<longleftrightarrow> c = DOT \<or> c = t"

text \<open>The texts that begin with an instance of the pattern.\<close>

inductive prefix_match :: "item list \<Rightarrow> u8 list \<Rightarrow> bool" where
  pm_nil: "prefix_match [] tx"
| pm_one: "fits c t \<Longrightarrow> prefix_match is tx \<Longrightarrow> prefix_match (One c # is) (t # tx)"
| pm_star: "list_all (fits c) pre \<Longrightarrow> prefix_match is tx \<Longrightarrow> prefix_match (Star c # is) (pre @ tx)"
| pm_eol: "prefix_match is [] \<Longrightarrow> prefix_match (Eol # is) []"

inductive_simps prefix_match_simps:
  "prefix_match [] tx" "prefix_match (One c # is) tx" "prefix_match (Eol # is) tx"

inductive_cases prefix_match_starE: "prefix_match (Star c # is) tx"

lemma prefix_match_star:
  "prefix_match (Star c # is) tx \<longleftrightarrow>
     prefix_match is tx \<or> (\<exists>t tx'. tx = t # tx' \<and> fits c t \<and> prefix_match (Star c # is) tx')"
proof
  assume "prefix_match (Star c # is) tx"
  then obtain pre tx' where *: "tx = pre @ tx'" "list_all (fits c) pre" "prefix_match is tx'"
    by (rule prefix_match_starE) auto
  show "prefix_match is tx \<or>
    (\<exists>t tx'. tx = t # tx' \<and> fits c t \<and> prefix_match (Star c # is) tx')"
    using * by (cases pre) (auto intro: pm_star)
next
  assume "prefix_match is tx \<or>
    (\<exists>t tx'. tx = t # tx' \<and> fits c t \<and> prefix_match (Star c # is) tx')"
  then show "prefix_match (Star c # is) tx"
  proof
    assume "prefix_match is tx"
    then show ?thesis using pm_star [of c "[]"] by simp
  next
    assume "\<exists>t tx'. tx = t # tx' \<and> fits c t \<and> prefix_match (Star c # is) tx'"
    then obtain t tx' where *: "tx = t # tx'" "fits c t" "prefix_match (Star c # is) tx'" by blast
    from *(3) obtain pre r where "tx' = pre @ r" "list_all (fits c) pre" "prefix_match is r"
      by (rule prefix_match_starE) auto
    with * show ?thesis using pm_star [of c "t # pre" "is" r] by simp
  qed
qed

lemma match_correct:
  shows matchhere_correct: "0 \<notin> set re \<Longrightarrow> matchhere re tx \<longleftrightarrow> prefix_match (items re) tx"
    and matchstar_correct: "0 \<notin> set re \<Longrightarrow> matchstar c re tx \<longleftrightarrow> prefix_match (Star c # items re) tx"
proof (induction re tx and c re tx rule: matchhere_matchstar.induct)
  case (1 re tx)
  show ?case
  proof (cases re rule: items.cases)
    case 1
    then show ?thesis by (simp add: matchhere.simps prefix_match_simps)
  next
    case (2 r)
    show ?thesis
      unfolding 2 by (subst matchhere.simps)
        (auto simp: prefix_match_simps fits_def matchhere.simps [of "[]"] split: list.split)
  next
    case (3 r x re')
    show ?thesis
    proof (cases "x = STAR")
      case True
      with "1.IH"(1) [of r "x # re'"] "1.prems" 3 show ?thesis
        unfolding 3 by (subst matchhere.simps) simp
    next
      case False
      with "1.IH"(2) [of r "x # re'"] "1.prems" 3 show ?thesis
        unfolding 3 by (subst matchhere.simps) (auto simp: prefix_match_simps fits_def split: list.split)
    qed
  qed
next
  case (2 c re tx)
  then show ?case
    by (subst prefix_match_star, subst matchstar.simps) (auto simp: fits_def split: list.split)
qed

lemma match_loop_iff: "match_loop re tx \<longleftrightarrow> (\<exists>a b. tx = a @ b \<and> matchhere re b)"
proof (induction tx)
  case (Cons t ts)
  have "(\<exists>a b. t # ts = a @ b \<and> matchhere re b) \<longleftrightarrow> matchhere re (t # ts) \<or> (\<exists>a b. ts = a @ b \<and> matchhere re b)"
    by (metis append_Cons append_Nil append_eq_Cons_conv)
  with Cons show ?case by simp
qed simp

text \<open>C20 [grep_match_spec]: \<open>match\<close> ends and says exactly whether the tx has a suffix (the
  tx itself, if the pattern starts with a caret) that begins with an instance of the pattern,
  where \<open>c*\<close> stands for any number of characters that \<open>c\<close> matches, a dot matches every
  character and a final dollar only the end of the tx.\<close>

theorem grep_match_spec:
  assumes "0 \<notin> set re"
  shows "match re tx \<longleftrightarrow>
    (if c0 re = CARET then prefix_match (items (tl re)) tx
     else (\<exists>a b. tx = a @ b \<and> prefix_match (items re) b))"
proof -
  have "0 \<notin> set (tl re)" using assms by (cases re) auto
  with assms show ?thesis by (auto simp: match_def match_loop_iff matchhere_correct)
qed

theorem grep_match_spec_witness:
  "\<exists>a b. [120, 98, 98, 99 :: u8] = a @ b \<and> prefix_match (items [98, 42, 99, 36]) b"
proof -
  have "match [98, 42, 99, 36] [120, 98, 98, 99]"
    by (simp add: match_def matchhere.simps matchstar.simps)
  then show ?thesis using grep_match_spec [of "[98, 42, 99, 36]" "[120, 98, 98, 99]"] by simp
qed

section \<open>The loop of grep\<close>

text \<open>The lines of the buffer that are complete, each with its newline, and the rest.\<close>

fun split_lines :: "u8 list \<Rightarrow> u8 list \<Rightarrow> u8 list list \<times> u8 list" where
  "split_lines acc [] = ([], rev acc)"
| "split_lines acc (c # cs) =
     (if c = NL then let (ls, r) = split_lines [] cs in (rev acc # ls, r)
      else split_lines (c # acc) cs)"

text \<open>\<open>buf\<close> is what is left in the buffer; the result is what is written to standard output.
  Each chunk is at most as long as the space \<open>read\<close> was given. \<open>strchr\<close> stops at a NUL.\<close>

fun grep_loop :: "u8 list \<Rightarrow> u8 list \<Rightarrow> u8 list list \<Rightarrow> u8 list" where
  "grep_loop pat buf [] = []"
| "grep_loop pat buf (chunk # chunks) =
     (if chunk = [] then []
      else
        let ls = fst (split_lines [] (cstring (buf @ chunk)));
            out = concat (map (\<lambda>l. if match pat l then l @ [NL] else []) ls);
            n = length (concat (map (\<lambda>l. l @ [NL]) ls)) in
        out @ grep_loop pat (if ls = [] then [] else drop n (buf @ chunk)) chunks)"

definition grep :: "u8 list \<Rightarrow> u8 list list \<Rightarrow> u8 list" where
  "grep pat chunks = grep_loop pat [] chunks"

text \<open>The lines that match, each with its newline.\<close>

definition matching :: "u8 list \<Rightarrow> u8 list list \<Rightarrow> u8 list" where
  "matching pat ls = concat (map (\<lambda>l. if match pat l then l @ [NL] else []) ls)"

lemma split_lines_concat:
  "split_lines acc cs = (ls, r) \<Longrightarrow> concat (map (\<lambda>l. l @ [NL]) ls) @ r = rev acc @ cs \<and>
     (ls = [] \<longleftrightarrow> NL \<notin> set cs)"
proof (induction acc cs arbitrary: ls r rule: split_lines.induct)
  case (2 acc c cs)
  show ?case
  proof (cases "c = NL")
    case True
    obtain ls' r' where s: "split_lines [] cs = (ls', r')" by force
    with True "2.prems" have "ls = rev acc # ls'" "r = r'" by auto
    moreover have "concat (map (\<lambda>l. l @ [NL]) ls') @ r' = cs" using "2.IH"(1) [OF True s] by simp
    ultimately show ?thesis using True by auto
  next
    case False
    with "2.prems" "2.IH"(2) [OF False, of ls r] show ?thesis by auto
  qed
qed auto

lemma split_lines_append:
  "split_lines acc (xs @ ys) =
     (let (ls, r) = split_lines acc xs; (ls', r') = split_lines (rev r) ys in (ls @ ls', r'))"
  by (induction acc xs rule: split_lines.induct) (auto simp: split_def Let_def)

lemma split_lines_rest: "NL \<notin> set acc \<Longrightarrow> NL \<notin> set (snd (split_lines acc cs))"
  by (induction acc cs rule: split_lines.induct) (auto simp: split_def Let_def)

lemma split_lines_none: "NL \<notin> set cs \<Longrightarrow> split_lines acc cs = ([], rev acc @ cs)"
  by (induction acc cs rule: split_lines.induct) auto

lemma grep_loop_matching:
  assumes "\<forall>ch \<in> set chunks. NL \<in> set ch \<and> 0 \<notin> set ch"
  shows "NL \<notin> set buf \<Longrightarrow> 0 \<notin> set buf \<Longrightarrow>
    grep_loop pat buf chunks = matching pat (fst (split_lines (rev buf) (concat chunks)))"
  using assms
proof (induction chunks arbitrary: buf)
  case (Cons ch chunks)
  obtain ls r where s: "split_lines [] (buf @ ch) = (ls, r)" by force
  then have e: "concat (map (\<lambda>l. l @ [NL]) ls) @ r = buf @ ch" and "ls \<noteq> []"
    using split_lines_concat [OF s] Cons.prems by auto
  have nl: "NL \<notin> set r" using split_lines_rest [of "[]" "buf @ ch"] s by simp
  have "set r \<subseteq> set (buf @ ch)" unfolding e [symmetric] by auto
  with Cons.prems have z: "0 \<notin> set r" by auto
  have c: "cstring (buf @ ch) = buf @ ch" using Cons.prems cstring_append [of "buf @ ch" "[]"] by simp
  have d: "drop (length (concat (map (\<lambda>l. l @ [NL]) ls))) (buf @ ch) = r" unfolding e [symmetric] by simp
  have "split_lines [] buf = ([], buf)" using split_lines_none [of buf "[]"] Cons.prems by simp
  then have rb: "split_lines (rev buf) ch = (ls, r)"
    using s split_lines_append [of "[]" buf ch] by (simp add: split_def Let_def prod_eq_iff)
  have "grep_loop pat buf (ch # chunks) = matching pat ls @ grep_loop pat r chunks"
    using Cons.prems \<open>ls \<noteq> []\<close> d by (auto simp: c s matching_def Let_def)
  also have "grep_loop pat r chunks = matching pat (fst (split_lines (rev r) (concat chunks)))"
    using Cons.IH [OF nl z] Cons.prems by simp
  also have "matching pat ls @ \<dots> = matching pat (fst (split_lines (rev buf) (concat (ch # chunks))))"
    by (simp add: split_lines_append rb matching_def split_def Let_def)
  finally show ?case .
qed (simp_all add: matching_def split_lines.simps)

text \<open>C21 [grep_prints_matching]: when every \<open>read\<close> delivers at least one newline (and the input
  has no NUL), \<open>grep\<close> prints exactly the complete lines of the input that match, in order,
  however the lines are cut by the reads.\<close>

theorem grep_prints_matching:
  assumes "\<forall>ch \<in> set chunks. NL \<in> set ch \<and> 0 \<notin> set ch"
  shows "grep pat chunks = matching pat (fst (split_lines [] (concat chunks)))"
  using grep_loop_matching [OF assms, of "[]"] by (simp add: grep_def)

theorem grep_prints_matching_witness:
  "grep [98] [[97, 10, 120], [98, 10]] = [120, 98, 10]"
  using grep_prints_matching [of "[[97, 10, 120], [98, 10]]" "[98]"]
  by (simp add: matching_def match_def matchhere.simps)

text \<open>C22 [grep_loses_split_line]: a \<open>read\<close> that delivers no newline, as a pipe or the console may, is
  dropped: the line it begins is not matched as a whole and can be lost.\<close>

theorem grep_loses_split_line:
  "NL \<notin> set xs \<Longrightarrow> xs \<noteq> [] \<Longrightarrow> grep pat (xs # chunks) = grep pat chunks"
proof -
  assume xs: "NL \<notin> set xs" "xs \<noteq> []"
  then have "NL \<notin> set (cstring xs)" by (auto simp: cstring_def dest: set_takeWhileD)
  then have "fst (split_lines [] (cstring xs)) = []" by (simp add: split_lines_none)
  with xs show ?thesis by (simp add: grep_def Let_def)
qed

theorem grep_loses_split_line_witness:
  "grep [97] [[97], [98, 10]] = [] \<and> grep [97] [[97, 98, 10]] = [97, 98, 10]"
  using grep_loses_split_line [of "[97]" "[97]" "[[98, 10]]"]
  by (simp add: grep_def match_def matchhere.simps Let_def)

section \<open>wc\<close>

definition is_space :: "u8 \<Rightarrow> bool" where
  "is_space c \<longleftrightarrow> strchr [32, 13, 9, 10, 11] c \<noteq> None"

fun wc_loop :: "u8 list \<Rightarrow> nat \<times> nat \<times> nat \<times> bool \<Rightarrow> nat \<times> nat \<times> nat \<times> bool" where
  "wc_loop [] (l, w, c, inword) = (l, w, c, inword)"
| "wc_loop (b # bs) (l, w, c, inword) =
     wc_loop bs
       (if b = NL then l + 1 else l,
        if \<not> is_space b \<and> \<not> inword then w + 1 else w,
        c + 1,
        \<not> is_space b)"

fun wc_chunks :: "u8 list list \<Rightarrow> nat \<times> nat \<times> nat \<times> bool \<Rightarrow> nat \<times> nat \<times> nat \<times> bool" where
  "wc_chunks [] st = st"
| "wc_chunks (ch # chs) st = (if ch = [] then st else wc_chunks chs (wc_loop ch st))"

definition wc :: "u8 list list \<Rightarrow> nat \<times> nat \<times> nat" where
  "wc chunks = (case wc_chunks chunks (0, 0, 0, False) of (l, w, c, _) \<Rightarrow> (l, w, c))"

lemma wc_loop_append: "wc_loop (xs @ ys) st = wc_loop ys (wc_loop xs st)"
  by (induction xs st rule: wc_loop.induct) auto

lemma wc_chunks_concat: "[] \<notin> set chs \<Longrightarrow> wc_chunks chs st = wc_loop (concat chs) st"
  by (induction chs arbitrary: st) (auto simp: wc_loop_append)

text \<open>Words: maximal runs of characters that are no space.\<close>

function words :: "u8 list \<Rightarrow> u8 list list" where
  "words bs =
     (case dropWhile is_space bs of
        [] \<Rightarrow> []
      | b # r \<Rightarrow> takeWhile (\<lambda>c. \<not> is_space c) (b # r) # words (dropWhile (\<lambda>c. \<not> is_space c) (b # r)))"
  by pat_completeness auto
termination
proof (relation "measure length", goal_cases)
  case (2 bs b r)
  then have "\<not> is_space b" by (metis dropWhile_eq_Cons_conv)
  moreover have "length (b # r) \<le> length bs" using 2 by (metis length_dropWhile_le)
  ultimately show ?case using length_dropWhile_le [of "\<lambda>c. \<not> is_space c" r] by simp
qed simp

declare words.simps [simp del]

lemma words_space: "is_space b \<Longrightarrow> words (b # bs) = words bs"
  by (simp add: words.simps [of "b # bs"] words.simps [of bs])

lemma words_nonempty: "\<not> is_space b \<Longrightarrow> words (b # bs) \<noteq> []"
  by (subst words.simps) simp

lemma words_char: "\<not> is_space b \<Longrightarrow> length (words (b # bs)) =
    (if bs \<noteq> [] \<and> \<not> is_space (hd bs) then length (words bs) else Suc (length (words bs)))"
proof (cases bs)
  case Nil
  assume "\<not> is_space b"
  with Nil show ?thesis by (simp add: words.simps [of "[b]"] words.simps [of "[]"])
next
  case (Cons d ds)
  assume "\<not> is_space b"
  then have "words (b # d # ds) = takeWhile (\<lambda>c. \<not> is_space c) (b # d # ds) #
      words (dropWhile (\<lambda>c. \<not> is_space c) (d # ds))"
    by (subst words.simps) simp
  moreover have "\<not> is_space d \<Longrightarrow> words (d # ds) = takeWhile (\<lambda>c. \<not> is_space c) (d # ds) #
      words (dropWhile (\<lambda>c. \<not> is_space c) ds)"
    by (subst words.simps) simp
  ultimately show ?thesis using Cons by simp
qed

lemma wc_loop_eq:
  "wc_loop bs (l, w, c, inword) =
     (l + count_list bs NL,
      w + length (words bs) - (if inword \<and> bs \<noteq> [] \<and> \<not> is_space (hd bs) then 1 else 0),
      c + length bs,
      if bs = [] then inword else \<not> is_space (last bs))"
proof (induction bs arbitrary: l w c inword)
  case Nil
  then show ?case by (simp add: words.simps [of "[]"])
next
  case (Cons b bs)
  have pos: "bs \<noteq> [] \<Longrightarrow> \<not> is_space (hd bs) \<Longrightarrow> 0 < length (words bs)"
    by (cases bs) (auto simp: words_nonempty)
  show ?case
    using pos by (cases "is_space b") (auto simp: Cons.IH words_space words_char)
qed



end
