(* ===== verification/Uprog.thy ===== *)
theory Uprog
  imports Shell Grep Bytes
begin

text \<open>
  User programs: formatted output (\<open>printf.c\<close>), the execution of parsed commands and the main loop
  of the shell (\<open>sh.c\<close>), \<open>init.c\<close>, and the small utilities. A program is a tree of system calls
  with a branch for every reply; a loop that may go on forever runs for a given number of rounds
  and ends in \<open>More\<close>.
\<close>

section \<open>printf\<close>

text \<open>An argument is a word, or a pointer to a string that may be null.\<close>

datatype uarg = UInt u32 | UStr "u8 list option"

definition udigit :: "nat \<Rightarrow> u8" where
  "udigit d = (if d < 10 then of_nat (48 + d) else of_nat (55 + d))"

text \<open>The digits of \<open>x\<close>, most significant first.\<close>

function udigits :: "nat \<Rightarrow> nat \<Rightarrow> u8 list" where
  "udigits base x =
     (if x div base = 0 \<or> base < 2 then [udigit (x mod base)]
      else udigits base (x div base) @ [udigit (x mod base)])"
  by pat_completeness auto
termination
proof (relation "measure snd", goal_cases)
  case (2 base x)
  then have "0 < x" "1 < base" by (cases x; auto)+
  then show ?case by simp
qed simp

declare udigits.simps [simp del]

definition uprintint :: "u32 \<Rightarrow> nat \<Rightarrow> bool \<Rightarrow> u8 list" where
  "uprintint xx base sg =
     (if sg \<and> sint xx < 0 then 45 # udigits base (unat (- xx)) else udigits base (unat xx))"

text \<open>The flag is \<open>state == '%'\<close>; \<open>Undef\<close> is a missing or mistyped argument.\<close>

fun uprintf_loop :: "bool \<Rightarrow> u8 list \<Rightarrow> uarg list \<Rightarrow> (unit, u8 list) res" where
  "uprintf_loop st [] args = Ok []"
| "uprintf_loop False (c # fmt) args =
     (if c = 37 then uprintf_loop True fmt args
      else rbind (uprintf_loop False fmt args) (\<lambda>out. Ok (c # out)))"
| "uprintf_loop True (c # fmt) args =
     (if c = 100 then
        (case args of UInt x # args \<Rightarrow> rbind (uprintf_loop False fmt args) (\<lambda>out. Ok (uprintint x 10 True @ out))
         | _ \<Rightarrow> Undef ''printf argument'')
      else if c = 120 \<or> c = 112 then
        (case args of UInt x # args \<Rightarrow> rbind (uprintf_loop False fmt args) (\<lambda>out. Ok (uprintint x 16 False @ out))
         | _ \<Rightarrow> Undef ''printf argument'')
      else if c = 115 then
        (case args of UStr t # args \<Rightarrow>
           rbind (uprintf_loop False fmt args) (\<lambda>out.
           Ok ((case t of None \<Rightarrow> [40, 110, 117, 108, 108, 41] | Some t \<Rightarrow> cstring t) @ out))
         | _ \<Rightarrow> Undef ''printf argument'')
      else if c = 99 then
        (case args of UInt x # args \<Rightarrow> rbind (uprintf_loop False fmt args) (\<lambda>out. Ok (ucast x # out))
         | _ \<Rightarrow> Undef ''printf argument'')
      else if c = 37 then rbind (uprintf_loop False fmt args) (\<lambda>out. Ok (c # out))
      else rbind (uprintf_loop False fmt args) (\<lambda>out. Ok (37 # c # out)))"

definition uprintf :: "u8 list \<Rightarrow> uarg list \<Rightarrow> (unit, u8 list) res" where
  "uprintf fmt args = uprintf_loop False (cstring fmt) args"

definition lit :: "string \<Rightarrow> u8 list" where
  "lit s = map of_char s"

section \<open>System calls\<close>

datatype sys =
  S_exec "u8 list" "u8 list list" | S_open "u8 list" u32 | S_close int | S_read int nat
| S_write int "u8 list" | S_dup int | S_pipe | S_fork | S_wait | S_chdir "u8 list" | S_kill int
| S_link "u8 list" "u8 list" | S_unlink "u8 list" | S_mkdir "u8 list" | S_mknod "u8 list" int int
| S_fstat int

text \<open>The result of a call, the descriptors \<open>pipe\<close> stores, the bytes \<open>read\<close> stores, and type, inode
  number and size from \<open>stat\<close>.\<close>

record reply =
  rv :: int
  rfds :: "int \<times> int"
  rdata :: "u8 list"
  rstat :: "u32 \<times> u32 \<times> u32"

datatype prog = Exit | More | Call sys "reply \<Rightarrow> prog"

fun put :: "int \<Rightarrow> u8 list \<Rightarrow> prog \<Rightarrow> prog" where
  "put fd [] k = k"
| "put fd (b # bs) k = Call (S_write fd [b]) (\<lambda>_. put fd bs k)"

definition say :: "int \<Rightarrow> u8 list \<Rightarrow> uarg list \<Rightarrow> prog \<Rightarrow> prog" where
  "say fd fmt args k = (case uprintf fmt args of Ok out \<Rightarrow> put fd out k | _ \<Rightarrow> Exit)"

section \<open>Running commands\<close>

definition panic :: "u8 list \<Rightarrow> prog" where
  "panic s = say 2 (lit ''%s'' @ [10]) [UStr (Some s)] Exit"

definition fork1 :: "(int \<Rightarrow> prog) \<Rightarrow> prog" where
  "fork1 k = Call S_fork (\<lambda>r. if rv r = - 1 then panic (lit ''fork'') else k (rv r))"

primrec runcmd :: "cmd \<Rightarrow> prog" where
  "runcmd (EXEC argv) =
     (case argv of
        [] \<Rightarrow> Exit
      | a # _ \<Rightarrow> Call (S_exec a argv) (\<lambda>_. say 2 (lit ''exec %s failed'' @ [10]) [UStr (Some a)] Exit))"
| "runcmd (REDIR c f mode fd) =
     Call (S_close fd) (\<lambda>_.
     Call (S_open f mode) (\<lambda>r.
     if rv r < 0 then say 2 (lit ''open %s failed'' @ [10]) [UStr (Some f)] Exit else runcmd c))"
| "runcmd (LIST l r) =
     fork1 (\<lambda>pid. if pid = 0 then runcmd l else Call S_wait (\<lambda>_. runcmd r))"
| "runcmd (PIPE l r) =
     Call S_pipe (\<lambda>p.
     if rv p < 0 then panic (lit ''pipe'')
     else case rfds p of (p0, p1) \<Rightarrow>
       fork1 (\<lambda>pid.
       if pid = 0 then
         Call (S_close 1) (\<lambda>_. Call (S_dup p1) (\<lambda>_. Call (S_close p0) (\<lambda>_. Call (S_close p1) (\<lambda>_. runcmd l))))
       else fork1 (\<lambda>pid.
         if pid = 0 then
           Call (S_close 0) (\<lambda>_. Call (S_dup p0) (\<lambda>_. Call (S_close p0) (\<lambda>_. Call (S_close p1) (\<lambda>_. runcmd r))))
         else
           Call (S_close p0) (\<lambda>_. Call (S_close p1) (\<lambda>_. Call S_wait (\<lambda>_. Call S_wait (\<lambda>_. Exit)))))))"
| "runcmd (BACK c) = fork1 (\<lambda>pid. if pid = 0 then runcmd c else Exit)"

text \<open>\<open>runcmd(parsecmd(buf))\<close>, with the messages of the parser.\<close>

definition run_line :: "u8 list \<Rightarrow> prog" where
  "run_line buf =
     (case parsecmd (cstring buf) of
        Ok (Inl c) \<Rightarrow> runcmd c
      | Ok (Inr rest) \<Rightarrow> say 2 (lit ''leftovers: %s'' @ [10]) [UStr (Some rest)] (panic (lit ''syntax''))
      | Panic m \<Rightarrow> panic (lit m)
      | _ \<Rightarrow> More)"

text \<open>\<open>gets\<close> of \<open>ulib.c\<close> with its reads: \<open>n\<close> is the room left before the final NUL.\<close>

fun ugets :: "nat \<Rightarrow> u8 list \<Rightarrow> (u8 list \<Rightarrow> prog) \<Rightarrow> prog" where
  "ugets 0 buf k = k buf"
| "ugets (Suc n) buf k =
     Call (S_read 0 1) (\<lambda>r.
     if rv r < 1 then k buf
     else
       let c = hd (rdata r) in
       if c = 10 \<or> c = 13 then k (buf @ [c]) else ugets n (buf @ [c]) k)"

definition getcmd :: "nat \<Rightarrow> (u8 list option \<Rightarrow> prog) \<Rightarrow> prog" where
  "getcmd nbuf k =
     say 2 (lit ''$ '') [] (
     ugets (nbuf - 1) [] (\<lambda>buf. if c0 buf = 0 then k None else k (Some buf)))"

text \<open>The loop over the input; \<open>n\<close> bounds the number of lines.\<close>

fun sh_loop :: "nat \<Rightarrow> prog" where
  "sh_loop 0 = More"
| "sh_loop (Suc n) =
     getcmd 100 (\<lambda>line.
     case line of
       None \<Rightarrow> Exit
     | Some buf \<Rightarrow>
         if take 3 buf = lit ''cd '' then
           let path = drop 3 (butlast (cstring buf)) in
           Call (S_chdir path) (\<lambda>r.
           if rv r < 0 then say 2 (lit ''cannot cd %s'' @ [10]) [UStr (Some path)] (sh_loop n)
           else sh_loop n)
         else fork1 (\<lambda>pid. if pid = 0 then run_line buf else Call S_wait (\<lambda>_. sh_loop n)))"

fun open_console :: "nat \<Rightarrow> prog \<Rightarrow> prog" where
  "open_console 0 k = More"
| "open_console (Suc n) k =
     Call (S_open (lit ''console'') 2) (\<lambda>r.
     if rv r < 0 then k
     else if rv r \<ge> 3 then Call (S_close (rv r)) (\<lambda>_. k)
     else open_console n k)"

definition sh_main :: "bool \<Rightarrow> nat \<Rightarrow> prog" where
  "sh_main paging n =
     (let k = open_console n (sh_loop n) in
      if paging then say 1 ([10] @ lit ''hi'' @ [10]) [] k else k)"

section \<open>init\<close>

fun reap_zombies :: "nat \<Rightarrow> int \<Rightarrow> prog \<Rightarrow> prog" where
  "reap_zombies 0 pid k = More"
| "reap_zombies (Suc n) pid k =
     Call S_wait (\<lambda>r.
     if rv r \<ge> 0 \<and> rv r \<noteq> pid then say 1 (lit ''zombie!'' @ [10]) [] (reap_zombies n pid k) else k)"

fun init_loop :: "nat \<Rightarrow> prog" where
  "init_loop 0 = More"
| "init_loop (Suc n) =
     say 1 (lit ''init: starting sh'' @ [10]) [] (
     Call S_fork (\<lambda>r.
     if rv r < 0 then say 1 (lit ''init: fork failed'' @ [10]) [] Exit
     else if rv r = 0 then
       Call (S_exec (lit ''sh'') [lit ''sh'']) (\<lambda>_. say 1 (lit ''init: exec sh failed'' @ [10]) [] Exit)
     else reap_zombies n (rv r) (init_loop n)))"

definition init_main :: "nat \<Rightarrow> prog" where
  "init_main n =
     (let k = Call (S_dup 0) (\<lambda>_. Call (S_dup 0) (\<lambda>_. init_loop n)) in
      Call (S_open (lit ''console'') 2) (\<lambda>r.
      if rv r < 0 then
        Call (S_mknod (lit ''console'') 1 1) (\<lambda>_. Call (S_open (lit ''console'') 2) (\<lambda>_. k))
      else k))"

section \<open>Utilities\<close>

fun cat :: "nat \<Rightarrow> int \<Rightarrow> prog \<Rightarrow> prog" where
  "cat 0 fd k = More"
| "cat (Suc n) fd k =
     Call (S_read fd 512) (\<lambda>r.
     if rv r > 0 then
       Call (S_write 1 (take (nat (rv r)) (rdata r))) (\<lambda>w.
       if rv w \<noteq> rv r then say 1 (lit ''cat: write error'' @ [10]) [] Exit else cat n fd k)
     else if rv r < 0 then say 1 (lit ''cat: read error'' @ [10]) [] Exit
     else k)"

text \<open>The loop over file arguments that \<open>cat\<close>, \<open>wc\<close> and \<open>grep\<close> share; \<open>name\<close> is the program's name.\<close>

fun each_file :: "u8 list \<Rightarrow> (int \<Rightarrow> u8 list \<Rightarrow> prog \<Rightarrow> prog) \<Rightarrow> u8 list list \<Rightarrow> prog" where
  "each_file name f [] = Exit"
| "each_file name f (a # as) =
     Call (S_open a 0) (\<lambda>r.
     if rv r < 0 then say 1 (name @ lit '': cannot open %s'' @ [10]) [UStr (Some a)] Exit
     else f (rv r) a (Call (S_close (rv r)) (\<lambda>_. each_file name f as)))"

definition cat_main :: "nat \<Rightarrow> u8 list list \<Rightarrow> prog" where
  "cat_main n args = (if args = [] then cat n 0 Exit else each_file (lit ''cat'') (\<lambda>fd _. cat n fd) args)"

text \<open>\<open>wc\<close> with its reads; the counters are those of \<open>wc_loop\<close>.\<close>

fun wc_prog :: "nat \<Rightarrow> int \<Rightarrow> u8 list \<Rightarrow> nat \<times> nat \<times> nat \<times> bool \<Rightarrow> prog \<Rightarrow> prog" where
  "wc_prog 0 fd name st k = More"
| "wc_prog (Suc n) fd name st k =
     Call (S_read fd 512) (\<lambda>r.
     if rv r > 0 then wc_prog n fd name (wc_loop (take (nat (rv r)) (rdata r)) st) k
     else if rv r < 0 then say 1 (lit ''wc: read error'' @ [10]) [] Exit
     else case st of (l, w, c, _) \<Rightarrow>
       say 1 (lit ''%d %d %d %s'' @ [10])
         [UInt (of_nat l), UInt (of_nat w), UInt (of_nat c), UStr (Some name)] k)"

definition wc_main :: "nat \<Rightarrow> u8 list list \<Rightarrow> prog" where
  "wc_main n args =
     (if args = [] then wc_prog n 0 [] (0, 0, 0, False) Exit
      else each_file (lit ''wc'') (\<lambda>fd a. wc_prog n fd a (0, 0, 0, False)) args)"

fun write_lines :: "u8 list \<Rightarrow> u8 list list \<Rightarrow> prog \<Rightarrow> prog" where
  "write_lines pat [] k = k"
| "write_lines pat (l # ls) k =
     (if match pat l then Call (S_write 1 (l @ [NL])) (\<lambda>_. write_lines pat ls k)
      else write_lines pat ls k)"

text \<open>\<open>grep\<close> with its reads and writes; \<open>buf\<close> holds the first \<open>m\<close> bytes of the buffer.\<close>

fun grep_prog :: "nat \<Rightarrow> u8 list \<Rightarrow> int \<Rightarrow> u8 list \<Rightarrow> prog \<Rightarrow> prog" where
  "grep_prog 0 pat fd buf k = More"
| "grep_prog (Suc n) pat fd buf k =
     Call (S_read fd (1024 - length buf - 1)) (\<lambda>r.
     if rv r > 0 then
       let all = buf @ take (nat (rv r)) (rdata r);
           ls = fst (split_lines [] (cstring all)) in
       write_lines pat ls (
       grep_prog n pat fd (if ls = [] then [] else drop (length (concat (map (\<lambda>l. l @ [NL]) ls))) all) k)
     else k)"

definition grep_main :: "nat \<Rightarrow> u8 list list \<Rightarrow> prog" where
  "grep_main n args =
     (case args of
        [] \<Rightarrow> say 2 (lit ''usage: grep pattern [file ...]'' @ [10]) [] Exit
      | [pat] \<Rightarrow> grep_prog n pat 0 [] Exit
      | pat # files \<Rightarrow> each_file (lit ''grep'') (\<lambda>fd _. grep_prog n pat fd []) files)"

definition echo_sep :: "u8 list list \<Rightarrow> u8 list" where
  "echo_sep rest = (if rest \<noteq> [] then [32] else [10])"

fun echo_main :: "u8 list list \<Rightarrow> prog" where
  "echo_main [] = Exit"
| "echo_main (a # as) = say 1 (lit ''%s%s'') [UStr (Some a), UStr (Some (echo_sep as))] (echo_main as)"

fun kill_each :: "u8 list list \<Rightarrow> prog" where
  "kill_each [] = Exit"
| "kill_each (a # as) = Call (S_kill (atoi a)) (\<lambda>_. kill_each as)"

definition kill_main :: "u8 list list \<Rightarrow> prog" where
  "kill_main args =
     (if args = [] then say 2 (lit ''usage: kill pid...'' @ [10]) [] Exit else kill_each args)"

definition ln_main :: "u8 list list \<Rightarrow> prog" where
  "ln_main args =
     (case args of
        [old, new] \<Rightarrow>
          Call (S_link old new) (\<lambda>r.
          if rv r < 0 then say 2 (lit ''link %s %s: failed'' @ [10]) [UStr (Some old), UStr (Some new)] Exit
          else Exit)
      | _ \<Rightarrow> say 2 (lit ''Usage: ln old new'' @ [10]) [] Exit)"

fun rm_each :: "u8 list list \<Rightarrow> prog" where
  "rm_each [] = Exit"
| "rm_each (a # as) =
     Call (S_unlink a) (\<lambda>r.
     if rv r < 0 then say 2 (lit ''rm: %s failed to delete'' @ [10]) [UStr (Some a)] Exit
     else rm_each as)"

definition rm_main :: "u8 list list \<Rightarrow> prog" where
  "rm_main args =
     (if args = [] then say 2 (lit ''Usage: rm files...'' @ [10]) [] Exit else rm_each args)"

fun mkdir_each :: "u8 list list \<Rightarrow> prog" where
  "mkdir_each [] = Exit"
| "mkdir_each (a # as) =
     Call (S_mkdir a) (\<lambda>r.
     if rv r < 0 then say 2 (lit ''mkdir: %s failed to create'' @ [10]) [UStr (Some a)] Exit
     else mkdir_each as)"

definition mkdir_main :: "u8 list list \<Rightarrow> prog" where
  "mkdir_main args =
     (if args = [] then say 2 (lit ''Usage: mkdir files...'' @ [10]) [] Exit else mkdir_each args)"

section \<open>ls\<close>

text \<open>The part of the path after the last slash, padded with blanks to \<open>DIRSIZ\<close>.\<close>

definition fmtname :: "u8 list \<Rightarrow> u8 list" where
  "fmtname path =
     (let p = rev (takeWhile (\<lambda>c. c \<noteq> 47) (rev path)) in
      if length p \<ge> 14 then p else p @ replicate (14 - length p) 32)"

definition ls_line :: "u8 list \<Rightarrow> reply \<Rightarrow> prog \<Rightarrow> prog" where
  "ls_line path r k =
     (case rstat r of (type, ino, sz) \<Rightarrow>
       say 1 (lit ''%s %d %d %d'' @ [10]) [UStr (Some (fmtname path)), UInt type, UInt ino, UInt sz] k)"

text \<open>\<open>stat\<close> of \<open>ulib.c\<close>: open, \<open>fstat\<close>, close.\<close>

definition ustat :: "u8 list \<Rightarrow> (reply \<Rightarrow> prog) \<Rightarrow> prog" where
  "ustat path k =
     Call (S_open path 0) (\<lambda>r.
     if rv r < 0 then k (r\<lparr>rv := - 1\<rparr>)
     else Call (S_fstat (rv r)) (\<lambda>st. Call (S_close (rv r)) (\<lambda>_. k st)))"

fun ls_dir :: "nat \<Rightarrow> int \<Rightarrow> u8 list \<Rightarrow> prog \<Rightarrow> prog" where
  "ls_dir 0 fd path k = More"
| "ls_dir (Suc n) fd path k =
     Call (S_read fd 16) (\<lambda>r.
     if rv r \<noteq> 16 then k
     else if rd16 (rdata r) 0 = 0 then ls_dir n fd path k
     else
       let buf = path @ 47 # cstring (take 14 (drop 2 (rdata r))) in
       ustat buf (\<lambda>st.
       if rv st < 0 then say 1 (lit ''ls: cannot stat %s'' @ [10]) [UStr (Some buf)] (ls_dir n fd path k)
       else ls_line buf st (ls_dir n fd path k)))"

definition ls :: "nat \<Rightarrow> u8 list \<Rightarrow> prog \<Rightarrow> prog" where
  "ls n path k =
     Call (S_open path 0) (\<lambda>r.
     if rv r < 0 then say 2 (lit ''ls: cannot open %s'' @ [10]) [UStr (Some path)] k
     else
       let fd = rv r; fin = Call (S_close fd) (\<lambda>_. k) in
       Call (S_fstat fd) (\<lambda>st.
       if rv st < 0 then say 2 (lit ''ls: cannot stat %s'' @ [10]) [UStr (Some path)] fin
       else case rstat st of (type, _, _) \<Rightarrow>
         if type = 2 then ls_line path st fin
         else if type = 1 then
           if length path + 1 + 14 + 1 > 512 then say 1 (lit ''ls: path too long'' @ [10]) [] fin
           else ls_dir n fd path fin
         else fin))"

fun ls_each :: "nat \<Rightarrow> u8 list list \<Rightarrow> prog" where
  "ls_each n [] = Exit"
| "ls_each n (a # as) = ls n a (ls_each n as)"

definition ls_main :: "nat \<Rightarrow> u8 list list \<Rightarrow> prog" where
  "ls_main n args = (if args = [] then ls n [46] Exit else ls_each n args)"

section \<open>Printing and reading numbers\<close>

lemma sint_nonneg: "0 \<le> sint x \<Longrightarrow> int (unat x) = sint (x :: u32)"
proof -
  assume "0 \<le> sint x"
  then have "\<not> bit (uint x) 31" by (simp add: sint_uint)
  then have "signed_take_bit 31 (uint x) = take_bit 31 (uint x)" by (simp add: signed_take_bit_eq_if_positive)
  moreover have "take_bit (Suc 31) (uint x) = take_bit 31 (uint x)"
    using \<open>\<not> bit (uint x) 31\<close> by (simp only: take_bit_Suc_from_most) simp
  moreover have "take_bit (Suc 31) (uint x) = uint x" using unsigned_less [of x, where 'a = int] by (simp add: take_bit_int_eq_self)
  ultimately show ?thesis by (simp add: sint_uint)
qed

lemma atoi_loop_digit: "d < 10 \<Longrightarrow> atoi_loop n (udigit d # cs) = atoi_loop (n * 10 + int d) cs"
proof -
  assume d: "d < 10"
  have u: "uint (udigit d) = 48 + int d"
    using d by (simp add: udigit_def unsigned_of_nat take_bit_eq_mod del: of_nat_add)
  then have "48 \<le> udigit d" "udigit d \<le> 57" using d by (simp_all add: word_le_def)
  with u show ?thesis by (simp add: algebra_simps)
qed

lemma atoi_loop_udigits:
  "atoi_loop n (udigits 10 x @ cs) = atoi_loop (n * 10 ^ length (udigits 10 x) + int x) cs"
proof (induction x arbitrary: n cs rule: less_induct)
  case (less x)
  show ?case
  proof (cases "x div 10 = 0")
    case True
    then have "udigits 10 x = [udigit x]" by (subst udigits.simps) auto
    moreover have "x < 10" using True by simp
    ultimately show ?thesis using atoi_loop_digit [of x n cs] by (simp del: atoi_loop.simps)
  next
    case False
    then have d: "udigits 10 x = udigits 10 (x div 10) @ [udigit (x mod 10)]"
      by (subst udigits.simps) simp
    have "atoi_loop n (udigits 10 x @ cs) =
        atoi_loop (n * 10 ^ length (udigits 10 (x div 10)) + int (x div 10)) (udigit (x mod 10) # cs)"
      using less.IH [of "x div 10" n "udigit (x mod 10) # cs"] False by (simp add: d)
    also have "\<dots> = atoi_loop ((n * 10 ^ length (udigits 10 (x div 10)) + int (x div 10)) * 10 + int (x mod 10)) cs"
      by (rule atoi_loop_digit) simp
    also have "int (x div 10) * 10 + int (x mod 10) = int x" by (metis div_mult_mod_eq of_nat_add of_nat_mult of_nat_numeral)
    then have "(n * 10 ^ length (udigits 10 (x div 10)) + int (x div 10)) * 10 + int (x mod 10) =
        n * 10 ^ length (udigits 10 x) + int x"
      by (simp add: d algebra_simps)
    finally show ?thesis .
  qed
qed



section \<open>Pipelines\<close>

text \<open>What a command does to descriptors, seen from outside: the calls of \<open>exec\<close> that a program and
  the processes it forks reach, each with the table of open descriptors at that point. As in the
  kernel, \<open>open\<close>, \<open>dup\<close> and \<open>pipe\<close> take the lowest free descriptor of 16, and a child starts with
  a copy of its parent's table. \<open>fork\<close> succeeds. Pipes are numbered by how many were made before by
  the process and its ancestors.\<close>

datatype chan = Opened "u8 list" | RdEnd nat | WrEnd nat

type_synonym ftab = "int \<Rightarrow> chan option"

definition lowest :: "ftab \<Rightarrow> int option" where
  "lowest t = find (\<lambda>fd. t fd = None) [0..15]"

definition ret :: "int \<Rightarrow> reply" where
  "ret v = \<lparr>rv = v, rfds = (0, 0), rdata = [], rstat = (0, 0, 0)\<rparr>"

primrec execs :: "prog \<Rightarrow> nat \<Rightarrow> ftab \<Rightarrow> (u8 list list \<times> ftab) list" where
  "execs Exit n t = []"
| "execs More n t = []"
| "execs (Call c k) n t =
     (case c of
        S_exec path argv \<Rightarrow> [(argv, t)]
      | S_close fd \<Rightarrow> execs (k (ret (if t fd = None then - 1 else 0))) n (t(fd := None))
      | S_dup fd \<Rightarrow>
          (case (t fd, lowest t) of
             (Some f, Some nfd) \<Rightarrow> execs (k (ret nfd)) n (t(nfd \<mapsto> f))
           | _ \<Rightarrow> execs (k (ret (- 1))) n t)
      | S_open path mode \<Rightarrow>
          (case lowest t of
             Some nfd \<Rightarrow> execs (k (ret nfd)) n (t(nfd \<mapsto> Opened path))
           | None \<Rightarrow> execs (k (ret (- 1))) n t)
      | S_pipe \<Rightarrow>
          (case lowest t of
             Some p0 \<Rightarrow>
               (case lowest (t(p0 \<mapsto> RdEnd n)) of
                  Some p1 \<Rightarrow> execs (k ((ret 0)\<lparr>rfds := (p0, p1)\<rparr>)) (Suc n) (t(p0 \<mapsto> RdEnd n, p1 \<mapsto> WrEnd n))
                | None \<Rightarrow> execs (k (ret (- 1))) n t)
           | None \<Rightarrow> execs (k (ret (- 1))) n t)
      | S_fork \<Rightarrow> execs (k (ret 0)) n t @ execs (k (ret 1)) n t
      | _ \<Rightarrow> execs (k (ret 0)) n t)"

lemma rv_ret [simp]: "rv (ret v) = v" "rfds ((ret v)\<lparr>rfds := p\<rparr>) = p" "rv ((ret v)\<lparr>rfds := p\<rparr>) = v"
  by (simp_all add: ret_def)

lemma lowest_SomeD:
  assumes "lowest t = Some fd"
  shows "t fd = None" "0 \<le> fd" "fd \<le> 15" "\<And>fd'. 0 \<le> fd' \<Longrightarrow> fd' < fd \<Longrightarrow> t fd' \<noteq> None"
proof -
  obtain i where i: "i < length [0..15 :: int]" "t ([0..15] ! i) = None" "fd = [0..15] ! i"
    "\<forall>j < i. t ([0..15] ! j) \<noteq> None"
    using assms unfolding lowest_def find_Some_iff by auto
  have e: "\<And>j. j < 16 \<Longrightarrow> [0..15 :: int] ! j = int j" by (simp add: nth_upto)
  have i16: "i < 16" using i(1) by simp
  then have fd: "fd = int i" using i(3) e by simp
  show "t fd = None" "0 \<le> fd" "fd \<le> 15" using i fd i16 by auto
  fix fd' assume "0 \<le> fd'" "fd' < fd"
  then have "nat fd' < i" using fd by auto
  then have "t ([0..15] ! nat fd') \<noteq> None" using i(4) by blast
  then show "t fd' \<noteq> None" using e [of "nat fd'"] \<open>nat fd' < i\<close> i16 \<open>0 \<le> fd'\<close> by simp
qed

lemma lowest_zero: "t 0 = None \<Longrightarrow> lowest t = Some 0"
  by (simp add: lowest_def upto_rec1)

lemma lowest_one: "t 0 \<noteq> None \<Longrightarrow> t 1 = None \<Longrightarrow> lowest t = Some 1"
  by (simp add: lowest_def upto_rec1)

lemma lowest_cong: "(\<And>fd. t fd = None \<longleftrightarrow> u fd = None) \<Longrightarrow> lowest t = lowest u"
  by (simp add: lowest_def)

text \<open>Standard input and output are open and there is room for the two ends of a pipe.\<close>

definition pipe_room :: "ftab \<Rightarrow> bool" where
  "pipe_room t \<longleftrightarrow> t 0 \<noteq> None \<and> t 1 \<noteq> None \<and>
     (\<exists>p0. lowest t = Some p0 \<and> lowest (t(p0 \<mapsto> RdEnd 0)) \<noteq> None)"

lemma pipe_roomE:
  assumes "pipe_room t"
  obtains p0 p1 where "lowest t = Some p0" "\<And>c. lowest (t(p0 \<mapsto> c)) = Some p1"
    "1 < p0" "p0 < p1" "t p0 = None" "t p1 = None"
proof -
  obtain p0 p1 where p: "lowest t = Some p0" "lowest (t(p0 \<mapsto> RdEnd 0)) = Some p1"
    using assms by (auto simp: pipe_room_def)
  note a = lowest_SomeD [OF p(1)] and b = lowest_SomeD [OF p(2)]
  have "p0 \<noteq> 0" "p0 \<noteq> 1" using a(1) assms by (auto simp: pipe_room_def)
  moreover have "p1 \<noteq> p0" "t p1 = None" using b(1) by (auto split: if_splits)
  moreover have "\<not> p1 < p0" using a(4) [of p1] b(2) \<open>t p1 = None\<close> by auto
  moreover have "lowest (t(p0 \<mapsto> c)) = Some p1" for c
    using p(2) lowest_cong [of "t(p0 \<mapsto> c)" "t(p0 \<mapsto> RdEnd 0)"] by simp
  ultimately show thesis using that p(1) a(1,2) by force
qed

lemma pipe_room_upd:
  assumes "pipe_room t" "fd = 0 \<or> fd = 1"
  shows "pipe_room (t(fd \<mapsto> c))"
proof -
  have "lowest (t(fd \<mapsto> c)) = lowest t" "lowest (t(fd \<mapsto> c, p0 \<mapsto> d)) = lowest (t(p0 \<mapsto> d))" for p0 d
    using assms by (auto intro!: lowest_cong simp: pipe_room_def split: if_splits)
  then show ?thesis using assms by (auto simp: pipe_room_def)
qed

text \<open>The tables of the stages: the output of each stage is the pipe the next one reads from.\<close>

fun stages :: "u8 list list list \<Rightarrow> nat \<Rightarrow> ftab \<Rightarrow> (u8 list list \<times> ftab) list" where
  "stages [] n t = []"
| "stages [ws] n t = [(ws, t)]"
| "stages (ws # wss) n t = (ws, t(1 \<mapsto> WrEnd n)) # stages wss (Suc n) (t(0 \<mapsto> RdEnd n))"

lemma execs_exec: "ws \<noteq> [] \<Longrightarrow> execs (runcmd (EXEC ws)) n t = [(ws, t)]"
  by (cases ws) simp_all

lemma execs_pipe:
  assumes "pipe_room t"
  shows "execs (runcmd (PIPE l r)) n t =
    execs (runcmd l) (Suc n) (t(1 \<mapsto> WrEnd n)) @ execs (runcmd r) (Suc n) (t(0 \<mapsto> RdEnd n))"
proof -
  obtain p0 p1 where p: "lowest t = Some p0" "\<And>c. lowest (t(p0 \<mapsto> c)) = Some p1"
    "1 < p0" "p0 < p1" "t p0 = None" "t p1 = None"
    using pipe_roomE [OF assms] by metis
  let ?t = "t(p0 \<mapsto> RdEnd n, p1 \<mapsto> WrEnd n)"
  have o: "t 0 \<noteq> None" using assms by (simp add: pipe_room_def)
  have l1: "lowest (?t(1 := None)) = Some 1" using o p by (intro lowest_one) auto
  have l0: "lowest (?t(0 := None)) = Some 0" by (intro lowest_zero) simp
  have t1: "(?t(1 := None, 1 \<mapsto> WrEnd n))(p0 := None, p1 := None) = t(1 \<mapsto> WrEnd n)"
    using p by (auto simp: fun_eq_iff)
  have t0: "(?t(0 := None, 0 \<mapsto> RdEnd n))(p0 := None, p1 := None) = t(0 \<mapsto> RdEnd n)"
    using p by (auto simp: fun_eq_iff)
  show ?thesis
    using p(1-4) l1 l0 t1 t0 by (simp add: fork1_def)
qed

lemma execs_pipeline:
  "wss \<noteq> [] \<Longrightarrow> \<forall>ws \<in> set wss. ws \<noteq> [] \<Longrightarrow> pipe_room t \<Longrightarrow>
     execs (runcmd (pipe_cmd wss)) n t = stages wss n t"
proof (induction wss arbitrary: n t rule: pipe_cmd.induct)
  case (3 ws v va)
  then show ?case
    by (simp add: execs_pipe execs_exec pipe_room_upd del: runcmd.simps)
qed (simp_all add: execs_exec del: runcmd.simps)

lemma stages_nth:
  "i < length wss \<Longrightarrow> stages wss n t ! i =
     (wss ! i, t(0 := if i = 0 then t 0 else Some (RdEnd (n + i - 1)),
                 1 := if Suc i = length wss then t 1 else Some (WrEnd (n + i))))"
proof (induction wss n t arbitrary: i rule: stages.induct)
  case (3 ws v va n t)
  show ?case
  proof (cases i)
    case 0
    then show ?thesis by (simp add: fun_eq_iff)
  next
    case (Suc j)
    let ?u = "t(0 \<mapsto> RdEnd n)"
    have "?u(0 := if j = 0 then ?u 0 else Some (RdEnd (Suc n + j - 1)),
             1 := if Suc j = length (v # va) then ?u 1 else Some (WrEnd (Suc n + j))) =
        t(0 := Some (RdEnd (n + j)), 1 := if Suc i = length (ws # v # va) then t 1 else Some (WrEnd (n + i)))"
      using Suc by (simp add: fun_eq_iff)
    then show ?thesis using "3.IH" [of j] "3.prems" Suc by (simp del: fun_upd_apply fun_upd_upd)
  qed
qed simp_all

lemma stages_length: "length (stages wss n t) = length wss"
  by (induction wss n t rule: stages.induct) (simp_all del: fun_upd_apply)

lemma cstring_id: "0 \<notin> set xs \<Longrightarrow> cstring xs = xs"
  by (auto simp: cstring_def takeWhile_eq_all_conv)

lemma show_pipe_nonzero: "\<forall>ws \<in> set wss. simple_ok ws \<Longrightarrow> 0 \<notin> set (show_pipe wss)"
proof (induction wss rule: show_pipe.induct)
  case (3 ws v va)
  have "0 \<notin> set (show_words ws)" if "simple_ok ws" for ws
    using that by (induction ws) (auto simp: simple_ok_def word_ok_def)
  then show ?case using 3 by auto
next
  case (2 ws)
  then show ?case by (induction ws) (auto simp: simple_ok_def word_ok_def)
qed simp

text \<open>C17 [shell_pipeline_wiring]: a line with a pipeline of simple commands, run by the shell's child
  with standard input and output open and two descriptors free, runs every stage exactly once, in
  order of the line. The output of each stage is the write end of the pipe whose read end is the
  input of the next; the first stage keeps the input and the last the output; and every other
  descriptor is as before, so that no stage holds a stray end of a pipe.\<close>

theorem shell_pipeline_wiring:
  assumes "wss \<noteq> []" "\<forall>ws \<in> set wss. ws \<noteq> [] \<and> simple_ok ws" "pipe_room t"
  shows "execs (run_line (show_pipe wss)) n t =
    map (\<lambda>i. (wss ! i, t(0 := if i = 0 then t 0 else Some (RdEnd (n + i - 1)),
                          1 := if Suc i = length wss then t 1 else Some (WrEnd (n + i)))))
      [0..<length wss]"
proof -
  have "parsecmd (show_pipe wss) = Ok (Inl (pipe_cmd wss))"
    using parseline_show [of "[(wss, False)]" "3 * length (show_pipe wss) + 3"] assms
    by (simp add: job_ok_def show_job_def job_cmd_def parsecmd_def skip_def)
  then have "run_line (show_pipe wss) = runcmd (pipe_cmd wss)"
    using assms(2) show_pipe_nonzero [of wss] by (simp add: run_line_def cstring_id)
  then have "execs (run_line (show_pipe wss)) n t = stages wss n t"
    using assms by (simp add: execs_pipeline)
  also have "\<dots> = map (\<lambda>i. stages wss n t ! i) [0..<length wss]"
    by (metis map_nth stages_length)
  finally show ?thesis by (simp add: stages_nth)
qed

text \<open>A terminal on the three standard descriptors.\<close>

definition tty :: ftab where
  "tty fd = (if 0 \<le> fd \<and> fd \<le> 2 then Some (Opened [116]) else None)"

lemma tty_room: "pipe_room tty"
proof -
  have "lowest tty = Some 3" "lowest (tty(3 \<mapsto> RdEnd 0)) = Some 4"
    by (simp_all add: lowest_def upto_rec1 tty_def)
  then show ?thesis by (simp add: pipe_room_def tty_def)
qed

theorem shell_pipeline_wiring_witness:
  "execs (run_line (show_pipe [[[108, 115]], [[119, 99]]])) 0 tty =
     [([[108, 115]], tty(1 \<mapsto> WrEnd 0)), ([[119, 99]], tty(0 \<mapsto> RdEnd 0))]"
  using shell_pipeline_wiring [of "[[[108, 115]], [[119, 99]]]" tty 0, OF _ _ tty_room]
  by (simp add: simple_ok_def word_ok_def word_char_def white_def whitespace_def symbol_def symbols_def
    fun_upd_idem upt_rec)

end
