(* ===== verification/Umalloc.thy ===== *)
theory Umalloc
  imports Cmem
begin

text \<open>
  The memory allocator of user programs (\<open>umalloc.c\<close>). A \<open>Header\<close> is two words of the user's memory, the pointer
  to the next free block and the size in units of a header; \<open>base\<close> is the address of the static
  header, \<open>grow\<close> says whether the kernel grants an extension of the heap at its current end. The loops over
  the circular free list are \<open>None\<close> if they do not end.
\<close>

section \<open>Headers\<close>

definition HEADER_SIZE :: u32 where [simp, const_defs]: "HEADER_SIZE = 8"

definition h_ptr :: "memory \<Rightarrow> u32 \<Rightarrow> u32" where "h_ptr m p = load32 m p"
definition h_size :: "memory \<Rightarrow> u32 \<Rightarrow> u32" where "h_size m p = load32 m (p + 4)"
definition set_h_ptr :: "u32 \<Rightarrow> u32 \<Rightarrow> memory \<Rightarrow> memory" where "set_h_ptr p v m = store32 m p v"
definition set_h_size :: "u32 \<Rightarrow> u32 \<Rightarrow> memory \<Rightarrow> memory" where "set_h_size p v m = store32 m (p + 4) v"

record heap =
  h_mem :: memory
  h_freep :: u32
  h_brk :: u32

section \<open>The allocator\<close>

partial_function (option) free_scan :: "memory \<Rightarrow> u32 \<Rightarrow> u32 \<Rightarrow> u32 option" where
  "free_scan m bp p =
     (if bp > p \<and> bp < h_ptr m p then Some p
      else if p \<ge> h_ptr m p \<and> (bp > p \<or> bp < h_ptr m p) then Some p
      else free_scan m bp (h_ptr m p))"

declare free_scan.simps [code]

definition ufree :: "u32 \<Rightarrow> heap \<Rightarrow> heap option" where
  "ufree ap h =
     (let bp = ap - HEADER_SIZE; m = h_mem h in
      Option.bind (free_scan m bp (h_freep h)) (\<lambda>p.
      let m = (if bp + HEADER_SIZE * h_size m bp = h_ptr m p then
                 let m = set_h_size bp (h_size m bp + h_size m (h_ptr m p)) m in
                 set_h_ptr bp (h_ptr m (h_ptr m p)) m
               else set_h_ptr bp (h_ptr m p) m);
          m = (if p + HEADER_SIZE * h_size m p = bp then
                 let m = set_h_size p (h_size m p + h_size m bp) m in
                 set_h_ptr p (h_ptr m bp) m
               else set_h_ptr p bp m) in
      Some (h\<lparr>h_mem := m, h_freep := p\<rparr>)))"

text \<open>\<open>sbrk\<close>: the old end of the heap, or -1.\<close>

definition usbrk :: "(u32 \<Rightarrow> u32 \<Rightarrow> bool) \<Rightarrow> u32 \<Rightarrow> heap \<Rightarrow> u32 \<times> heap" where
  "usbrk grow n h = (if grow (h_brk h) n then (h_brk h, h\<lparr>h_brk := h_brk h + n\<rparr>) else (- 1, h))"

definition morecore :: "(u32 \<Rightarrow> u32 \<Rightarrow> bool) \<Rightarrow> u32 \<Rightarrow> heap \<Rightarrow> (u32 \<times> heap) option" where
  "morecore grow nu h =
     (let nu = (if nu < 4096 then 4096 else nu); (p, h) = usbrk grow (nu * HEADER_SIZE) h in
      if p = - 1 then Some (0, h)
      else
        let h = h\<lparr>h_mem := set_h_size p nu (h_mem h)\<rparr> in
        Option.bind (ufree (p + HEADER_SIZE) h) (\<lambda>h. Some (h_freep h, h)))"

definition nunits :: "u32 \<Rightarrow> u32" where
  "nunits nbytes = (nbytes + HEADER_SIZE - 1) div HEADER_SIZE + 1"

partial_function (option) malloc_loop ::
  "(u32 \<Rightarrow> u32 \<Rightarrow> bool) \<Rightarrow> u32 \<Rightarrow> u32 \<Rightarrow> u32 \<Rightarrow> heap \<Rightarrow> (u32 \<times> heap) option" where
  "malloc_loop grow nu prevp p h =
     (let m = h_mem h in
      if h_size m p \<ge> nu then
        (if h_size m p = nu then
           Some (p + HEADER_SIZE, h\<lparr>h_mem := set_h_ptr prevp (h_ptr m p) m, h_freep := prevp\<rparr>)
         else
           let m = set_h_size p (h_size m p - nu) m; p = p + HEADER_SIZE * h_size m p; m = set_h_size p nu m in
           Some (p + HEADER_SIZE, h\<lparr>h_mem := m, h_freep := prevp\<rparr>))
      else if p = h_freep h then
        Option.bind (morecore grow nu h) (\<lambda>ph.
        if fst ph = 0 then Some (0, snd ph)
        else malloc_loop grow nu (fst ph) (h_ptr (h_mem (snd ph)) (fst ph)) (snd ph))
      else malloc_loop grow nu p (h_ptr m p) h)"

declare malloc_loop.simps [code]

definition malloc :: "(u32 \<Rightarrow> u32 \<Rightarrow> bool) \<Rightarrow> u32 \<Rightarrow> u32 \<Rightarrow> heap \<Rightarrow> (u32 \<times> heap) option" where
  "malloc grow base nbytes h =
     (let nu = nunits nbytes;
          h = (if h_freep h = 0
               then h\<lparr>h_mem := set_h_size base 0 (set_h_ptr base base (h_mem h)), h_freep := base\<rparr> else h);
          prevp = h_freep h in
      malloc_loop grow nu prevp (h_ptr (h_mem h) prevp) h)"

section \<open>Reading headers back\<close>

text \<open>A header that does not wrap around, and two that do not overlap.\<close>

definition h_ok :: "u32 \<Rightarrow> bool" where
  "h_ok p \<longleftrightarrow> unat p + 8 \<le> 2 ^ 32"

definition h_apart :: "u32 \<Rightarrow> u32 \<Rightarrow> bool" where
  "h_apart p q \<longleftrightarrow> h_ok p \<and> h_ok q \<and> (unat p + 8 \<le> unat q \<or> unat q + 8 \<le> unat p)"

lemma load32_store32_sep:
  assumes "unat a + 4 \<le> unat b \<or> unat b + 4 \<le> unat a" "unat a + 4 \<le> 2 ^ 32" "unat b + 4 \<le> 2 ^ 32"
  shows "load32 (store32 m a v) b = load32 m b"
proof (rule load32_store32_disjoint, rule outside_range [OF _ assms(2)])
  fix k :: nat assume k: "k < 4"
  then have "unat (b + of_nat k) = unat b + k" using assms(3) by (simp add: unat_word_ariths unat_of_nat)
  then show "unat (b + of_nat k) < unat a \<or> unat a + 4 \<le> unat (b + of_nat k)" using assms(1) k by linarith
qed

lemma unat_h: "h_ok p \<Longrightarrow> unat (p + 4) = unat p + 4"
  by (simp add: h_ok_def unat_word_ariths)

lemmas h_defs = h_ptr_def h_size_def set_h_ptr_def set_h_size_def

lemma h_same [simp]:
  "h_ptr (set_h_ptr p v m) p = v" "h_size (set_h_size p v m) p = v"
  "h_ok p \<Longrightarrow> h_ptr (set_h_size p v m) p = h_ptr m p" "h_ok p \<Longrightarrow> h_size (set_h_ptr p v m) p = h_size m p"
proof -
  show "h_ptr (set_h_ptr p v m) p = v" "h_size (set_h_size p v m) p = v" by (simp_all add: h_defs)
  assume p: "h_ok p"
  then have f: "unat p + 8 \<le> 2 ^ 32" "unat (p + 4) = unat p + 4" by (simp_all add: h_ok_def unat_h)
  show "h_ptr (set_h_size p v m) p = h_ptr m p" "h_size (set_h_ptr p v m) p = h_size m p"
    unfolding h_defs by (rule load32_store32_sep; use f in linarith)+
qed

lemma h_other [simp]:
  assumes "h_apart p q"
  shows "h_ptr (set_h_ptr q v m) p = h_ptr m p" "h_size (set_h_size q v m) p = h_size m p"
    "h_ptr (set_h_size q v m) p = h_ptr m p" "h_size (set_h_ptr q v m) p = h_size m p"
proof -
  have f: "unat p + 8 \<le> 2 ^ 32" "unat q + 8 \<le> 2 ^ 32" "unat p + 8 \<le> unat q \<or> unat q + 8 \<le> unat p"
    using assms unfolding h_apart_def h_ok_def by blast+
  have u: "unat (p + 4) = unat p + 4" "unat (q + 4) = unat q + 4" using assms by (simp_all add: h_apart_def unat_h)
  show "h_ptr (set_h_ptr q v m) p = h_ptr m p" "h_size (set_h_size q v m) p = h_size m p"
    "h_ptr (set_h_size q v m) p = h_ptr m p" "h_size (set_h_ptr q v m) p = h_size m p"
    unfolding h_defs by (rule load32_store32_sep; use f u in linarith)+
qed

section \<open>The first block\<close>

lemma unat_nunits: "unat (nunits nbytes) = unat (nbytes + 7) div 8 + 1"
proof -
  have "unat (nbytes + 7) div 8 < 2 ^ 29"
    using unsigned_less [of "nbytes + 7", where 'a = nat] by (simp add: div_less_iff_less_mult)
  then have "unat ((nbytes + 7) div 8) + 1 < 2 ^ 32" by (simp add: unat_div)
  then have "unat ((nbytes + 7) div 8 + 1) = unat ((nbytes + 7) div 8) + 1" by (simp add: unat_word_ariths(1))
  moreover have "unat ((nbytes + 7) div 8) = unat (nbytes + 7) div 8" by (simp add: unat_div)
  moreover have "nbytes + 8 - 1 = nbytes + 7" by simp
  ultimately show ?thesis by (simp only: nunits_def HEADER_SIZE_def)
qed

text \<open>The size asked for fits below the header, unless the rounding wraps around.\<close>

lemma nunits_enough:
  assumes "unat nbytes + 8 \<le> 2 ^ 32"
  shows "unat nbytes \<le> 8 * (unat (nunits nbytes) - 1)"
proof -
  have "unat (nbytes + 7) = unat nbytes + 7" using assms by (simp add: unat_word_ariths(1))
  then show ?thesis unfolding unat_nunits by simp
qed

lemma nunits_wraps:
  assumes "2 ^ 32 < unat nbytes + 8"
  shows "nunits nbytes = 1"
proof -
  have b: "unat nbytes < 2 ^ 32" using unsigned_less [of nbytes, where 'a = nat] by simp
  have "unat (nbytes + 7) = (unat nbytes + 7) mod 2 ^ 32" by (simp add: unat_word_ariths(1))
  also have "\<dots> = unat nbytes + 7 - 2 ^ 32" using assms b by (simp add: le_mod_geq)
  finally have "unat (nbytes + 7) < 8" using b by linarith
  then have "unat (nunits nbytes) = 1" unfolding unat_nunits by simp
  then show ?thesis by (metis unat_1 word_unat_eq_iff)
qed

text \<open>A process that has not called \<open>malloc\<close> yet, with its static header below the heap.\<close>

definition fresh_heap :: "u32 \<Rightarrow> heap \<Rightarrow> bool" where
  "fresh_heap base h \<longleftrightarrow> h_freep h = 0 \<and> base \<noteq> 0 \<and> unat base + 8 \<le> unat (h_brk h) \<and> unat (h_brk h) + 40000 \<le> 2 ^ 32"

lemma fresh_apart: "fresh_heap base h \<Longrightarrow> h_apart base (h_brk h) \<and> h_apart (h_brk h) base \<and> h_ok base \<and> h_ok (h_brk h)"
  by (auto simp: fresh_heap_def h_apart_def h_ok_def)

lemma fresh_less: "fresh_heap base h \<Longrightarrow> base < h_brk h \<and> h_brk h \<noteq> base \<and> h_brk h \<noteq> - 1 \<and> h_brk h + 32768 \<noteq> base"
proof -
  assume f: "fresh_heap base h"
  have "unat (h_brk h + 32768) = unat (h_brk h) + 32768" using f by (simp add: fresh_heap_def unat_word_ariths)
  moreover have "h_brk h \<noteq> - 1" using f by (auto simp: fresh_heap_def unsigned_minus_1_eq_mask mask_eq_exp_minus_1)
  moreover have "base < h_brk h" using f by (simp add: fresh_heap_def word_less_nat_alt)
  ultimately show ?thesis using f by (auto simp: fresh_heap_def)
qed

lemma morecore_fresh:
  assumes "fresh_heap base h" "nu < 4096" "grow (h_brk h) 32768" "h_ptr m base = base" "h_size m base = 0"
  shows "morecore grow nu (h\<lparr>h_mem := m, h_freep := base\<rparr>) =
    Some (base, h\<lparr>h_mem := set_h_ptr base (h_brk h) (set_h_ptr (h_brk h) base (set_h_size (h_brk h) 4096 m)), h_freep := base,
      h_brk := h_brk h + 32768\<rparr>)"
proof -
  let ?b = "h_brk h" and ?m = "set_h_size (h_brk h) 4096 m"
  note [simp] = fresh_apart [OF assms(1), THEN conjunct1] fresh_apart [OF assms(1), THEN conjunct2, THEN conjunct1]
    assms(4,5)
  have l: "base < ?b" "?b \<noteq> base" "base \<noteq> ?b" "?b \<noteq> - 1" "?b + 32768 \<noteq> base" using fresh_less [OF assms(1)] by auto
  have "free_scan ?m ?b base = Some base" using l by (subst free_scan.simps) simp
  then have "ufree (?b + 8) (h\<lparr>h_freep := base, h_brk := ?b + 32768, h_mem := ?m\<rparr>) =
    Some (h\<lparr>h_mem := set_h_ptr base ?b (set_h_ptr ?b base ?m), h_freep := base, h_brk := ?b + 32768\<rparr>)"
    using l by (simp add: ufree_def Let_def)
  then show ?thesis using assms(2,3) l by (simp add: morecore_def usbrk_def Let_def)
qed

lemma unat_carve:
  assumes "fresh_heap base h" "unat k \<le> 4096"
  shows "unat (h_brk h + 8 * k) = unat (h_brk h) + 8 * unat k" "unat (h_brk h + 8 * k + 8) = unat (h_brk h) + 8 * unat k + 8"
proof -
  have "unat (h_brk h) + 8 * unat k + 8 < 2 ^ 32" using assms by (simp add: fresh_heap_def)
  then show "unat (h_brk h + 8 * k) = unat (h_brk h) + 8 * unat k" "unat (h_brk h + 8 * k + 8) = unat (h_brk h) + 8 * unat k + 8"
    by (simp_all add: unat_word_ariths)
qed

lemma malloc_fresh:
  assumes f: "fresh_heap base h" and g: "grow (h_brk h) 32768" and nu: "nunits nbytes < 4096" "0 < nunits nbytes"
  shows "\<exists>h'. malloc grow base nbytes h = Some (h_brk h + 8 * (4096 - nunits nbytes) + 8, h') \<and>
    h_size (h_mem h') (h_brk h + 8 * (4096 - nunits nbytes)) = nunits nbytes \<and> h_freep h' = base \<and>
    h_ptr (h_mem h') base = h_brk h \<and> h_size (h_mem h') (h_brk h) = 4096 - nunits nbytes"
proof -
  let ?n = "nunits nbytes" and ?b = "h_brk h" and ?m1 = "set_h_size base 0 (set_h_ptr base base (h_mem h))"
  let ?p = "?b + 8 * (4096 - ?n)"
  let ?m4 = "set_h_ptr base ?b (set_h_ptr ?b base (set_h_size ?b 4096 ?m1))"
  let ?h4 = "h\<lparr>h_mem := ?m4, h_freep := base, h_brk := ?b + 32768\<rparr>"
  let ?m6 = "set_h_size ?p ?n (set_h_size ?b (4096 - ?n) ?m4)"
  have ok [simp]: "h_apart base ?b" "h_apart ?b base" "h_ok base" "h_ok ?b" using fresh_apart [OF f] by simp_all
  have un: "unat (4096 - ?n) = 4096 - unat ?n" "unat ?n < 4096" "0 < unat ?n"
    using nu by (simp_all add: unat_sub word_less_nat_alt word_le_nat_alt unat_gt_0)
  have up: "unat ?p = unat ?b + 8 * (4096 - unat ?n)"
    using unat_carve(1) [OF f, of "4096 - ?n"] un by (simp only:)
  then have [simp]: "h_apart base ?p" "h_apart ?b ?p"
    using f un by (auto simp: fresh_heap_def h_apart_def h_ok_def)
  have n0: "?n \<noteq> 0" using nu(2) by auto
  have s: "h_ptr ?m1 base = base" "h_size ?m1 base = 0" "h_ptr ?m4 base = ?b" "h_size ?m4 ?b = 4096" by simp_all
  have "malloc_loop grow ?n base base (h\<lparr>h_mem := ?m1, h_freep := base\<rparr>) = malloc_loop grow ?n base ?b ?h4"
    using morecore_fresh [where h = h and m = ?m1 and base = base and grow = grow, OF f nu(1) g s(1,2)] f nu(2) n0 s(2,3)
    by (subst malloc_loop.simps) (simp add: Let_def fresh_heap_def not_le)
  also have "\<dots> = Some (?p + 8, ?h4\<lparr>h_mem := ?m6, h_freep := base\<rparr>)"
    using nu un s(4) by (subst malloc_loop.simps) (auto simp: Let_def simp del: right_diff_distrib_numeral)
  finally show ?thesis using f s(1) by (auto simp: malloc_def Let_def fresh_heap_def simp del: right_diff_distrib_numeral)
qed



end
