(* ===== verification/Mkfs.thy ===== *)
theory Mkfs
  imports Fs
begin

text \<open>
  The builder of file system images (\<open>mkfs.c\<close>), a program of the host. The image file is a map from sectors to
  512 bytes; it has \<open>FSSIZE\<close> sectors, and reading past them fails. A failed \<open>assert\<close> or \<open>read\<close> is \<open>Panic\<close>; the writes
  of the host succeed. The on-disk structures and the bitmap are those of the kernel.
\<close>

section \<open>Layout\<close>

definition NINODES :: nat where [simp, const_defs]: "NINODES = 200"
definition nbitmap :: nat where [simp, const_defs]: "nbitmap = FSSIZE div (BSIZE * 8) + 1"
definition ninodeblocks :: nat where [simp, const_defs]: "ninodeblocks = NINODES div IPB + 1"
definition nlog :: nat where [simp, const_defs]: "nlog = LOGSIZE"
definition nmeta :: nat where [simp, const_defs]: "nmeta = 2 + nlog + ninodeblocks + nbitmap"

text \<open>Conversion to Intel byte order on a little-endian host.\<close>

definition xshort :: "u16 \<Rightarrow> u16" where "xshort x = rd16 (le16 x) 0"
definition xint :: "u32 \<Rightarrow> u32" where "xint x = rd32 (le32 x) 0"

definition mkfs_sb :: superblock where
  "mkfs_sb = \<lparr>sb_size = xint (of_nat FSSIZE), sb_nblocks = xint (of_nat (FSSIZE - nmeta)), sb_ninodes = xint (of_nat NINODES),
     sb_nlog = xint (of_nat nlog), sb_logstart = xint 2, sb_inodestart = xint (of_nat (2 + nlog)),
     sb_bmapstart = xint (of_nat (2 + nlog + ninodeblocks))\<rparr>"

definition sb_bytes :: "superblock \<Rightarrow> u8 list" where
  "sb_bytes x = le32 (sb_size x) @ le32 (sb_nblocks x) @ le32 (sb_ninodes x) @ le32 (sb_nlog x) @ le32 (sb_logstart x) @
     le32 (sb_inodestart x) @ le32 (sb_bmapstart x)"

record image =
  im_sect :: "u32 \<Rightarrow> u8 list"
  im_freeinode :: u32
  im_freeblock :: u32

section \<open>Sectors and inodes\<close>

definition wsect :: "u32 \<Rightarrow> u8 list \<Rightarrow> image \<Rightarrow> image" where
  "wsect sec d im = im\<lparr>im_sect := (im_sect im)(sec := d)\<rparr>"

definition rsect :: "u32 \<Rightarrow> image \<Rightarrow> (unit, u8 list) res" where
  "rsect sec im = (if sec < of_nat FSSIZE then Ok (im_sect im sec) else Panic ''read'')"

definition winode :: "u32 \<Rightarrow> dinode \<Rightarrow> image \<Rightarrow> (unit, image) res" where
  "winode inum x im =
     (let bn = IBLOCK inum mkfs_sb in
      rbind (rsect bn im) (\<lambda>d. Ok (wsect bn (put_dinode d (dinode_off inum) x) im)))"

definition rinode :: "u32 \<Rightarrow> image \<Rightarrow> (unit, dinode) res" where
  "rinode inum im =
     (let bn = IBLOCK inum mkfs_sb in rbind (rsect bn im) (\<lambda>d. Ok (get_dinode d (dinode_off inum))))"

definition mkfs_ialloc :: "u16 \<Rightarrow> image \<Rightarrow> (unit, u32 \<times> image) res" where
  "mkfs_ialloc type im =
     (let inum = im_freeinode im; im = im\<lparr>im_freeinode := inum + 1\<rparr>;
          x = \<lparr>di_type = xshort type, di_major = 0, di_minor = 0, di_nlink = xshort 1, di_size = xint 0,
               di_addrs = replicate 13 0\<rparr> in
      rbind (winode inum x im) (\<lambda>im. Ok (inum, im)))"

definition mkfs_bitmap :: "nat \<Rightarrow> u8 list" where
  "mkfs_bitmap used = fold (\<lambda>i d. d[i div 8 := d ! (i div 8) OR push_bit (i mod 8) 1]) [0..<used] (replicate BSIZE 0)"

definition mkfs_balloc :: "nat \<Rightarrow> image \<Rightarrow> (unit, image) res" where
  "mkfs_balloc used im =
     (if \<not> used < BSIZE * 8 then Panic ''assert''
      else Ok (wsect (sb_bmapstart mkfs_sb) (mkfs_bitmap used) im))"

section \<open>Appending to a file\<close>

text \<open>The block for the data at block index \<open>fbn\<close> of the file, allocated if need be.\<close>

definition take_block :: "image \<Rightarrow> u32 \<times> image" where
  "take_block im = (im_freeblock im, im\<lparr>im_freeblock := im_freeblock im + 1\<rparr>)"

definition iappend_addr :: "nat \<Rightarrow> dinode \<Rightarrow> image \<Rightarrow> (unit, u32 \<times> dinode \<times> image) res" where
  "iappend_addr fbn x im =
     (if fbn < NDIRECT then
        let (x, im) = (if xint (di_addrs x ! fbn) = 0
              then let (b, im) = take_block im in (x\<lparr>di_addrs := (di_addrs x)[fbn := xint b]\<rparr>, im) else (x, im)) in
        Ok (xint (di_addrs x ! fbn), x, im)
      else
        let (x, im) = (if xint (di_addrs x ! NDIRECT) = 0
              then let (b, im) = take_block im in (x\<lparr>di_addrs := (di_addrs x)[NDIRECT := xint b]\<rparr>, im) else (x, im));
            k = 4 * (fbn - NDIRECT) in
        rbind (rsect (xint (di_addrs x ! NDIRECT)) im) (\<lambda>ind.
        let (ind, im) = (if rd32 ind k = 0
              then let (b, im) = take_block im; ind = wr32 ind k (xint b) in
                   (ind, wsect (xint (di_addrs x ! NDIRECT)) ind im)
              else (ind, im)) in
        Ok (xint (rd32 ind k), x, im)))"

function iappend_loop :: "dinode \<Rightarrow> u32 \<Rightarrow> u8 list \<Rightarrow> image \<Rightarrow> (unit, u32 \<times> dinode \<times> image) res" where
  "iappend_loop x off p im =
     (if p = [] then Ok (off, x, im)
      else
        let fbn = unat off div BSIZE in
        if \<not> fbn < MAXFILE then Panic ''assert''
        else
          rbind (iappend_addr fbn x im) (\<lambda>(b, x, im).
          let n1 = min (length p) ((fbn + 1) * BSIZE - unat off) in
          rbind (rsect b im) (\<lambda>d.
          let im = wsect b (blit d (unat off - fbn * BSIZE) (take n1 p)) im in
          iappend_loop x (off + of_nat n1) (drop n1 p) im)))"
  by pat_completeness auto
termination
proof (relation "measure (\<lambda>(_, _, p, _). length p)", goal_cases)
  case 1
  then show ?case by simp
next
  case (2 x off p im)
  have "unat off < (unat off div BSIZE + 1) * BSIZE" by simp
  with 2 show ?case by (auto simp: min_def simp del: mult_Suc_right)
qed

declare iappend_loop.simps [simp del]

definition iappend :: "u32 \<Rightarrow> u8 list \<Rightarrow> image \<Rightarrow> (unit, image) res" where
  "iappend inum p im =
     rbind (rinode inum im) (\<lambda>x.
     rbind (iappend_loop x (xint (di_size x)) p im) (\<lambda>(off, x, im).
     winode inum (x\<lparr>di_size := xint off\<rparr>) im))"

section \<open>The image\<close>

definition mkfs_dirent :: "u32 \<Rightarrow> u8 list \<Rightarrow> u8 list" where
  "mkfs_dirent inum name = le16 (xshort (ucast inum)) @ strncpy DIRSIZ name"

fun append_all :: "u32 \<Rightarrow> u8 list list \<Rightarrow> image \<Rightarrow> (unit, image) res" where
  "append_all inum [] im = Ok im"
| "append_all inum (c # cs) im = rbind (iappend inum c im) (append_all inum cs)"

text \<open>A file of the host: its name, and its contents as the reads of at most a block deliver them.\<close>

fun add_files :: "u32 \<Rightarrow> (u8 list \<times> u8 list list) list \<Rightarrow> image \<Rightarrow> (unit, image) res" where
  "add_files rootino [] im = Ok im"
| "add_files rootino ((name, cs) # fs) im =
     (if SLASH \<in> set name then Panic ''assert''
      else
        let name = (if name \<noteq> [] \<and> hd name = 0x5F then tl name else name) in
        rbind (mkfs_ialloc 2 im) (\<lambda>(inum, im).
        rbind (iappend rootino (mkfs_dirent inum name) im) (\<lambda>im.
        rbind (append_all inum cs im) (add_files rootino fs))))"

definition mkfs :: "(u8 list \<times> u8 list list) list \<Rightarrow> (unit, image) res" where
  "mkfs files =
     (let im = \<lparr>im_sect = (\<lambda>_. replicate BSIZE 0), im_freeinode = 1, im_freeblock = of_nat nmeta\<rparr>;
          im = wsect 1 (blit (replicate BSIZE 0) 0 (sb_bytes mkfs_sb)) im in
      rbind (mkfs_ialloc 1 im) (\<lambda>(rootino, im).
      if rootino \<noteq> ROOTINO then Panic ''assert''
      else
        rbind (iappend rootino (mkfs_dirent rootino [0x2E]) im) (\<lambda>im.
        rbind (iappend rootino (mkfs_dirent rootino [0x2E, 0x2E]) im) (\<lambda>im.
        rbind (add_files rootino files im) (\<lambda>im.
        rbind (rinode rootino im) (\<lambda>x.
        let off = xint (di_size x); off = (off div 512 + 1) * 512 in
        rbind (winode rootino (x\<lparr>di_size := xint off\<rparr>) im) (\<lambda>im.
        mkfs_balloc (unat (im_freeblock im)) im)))))))"

section \<open>What the kernel reads\<close>

lemma xint_id [simp]: "xint x = x"
  using rd32_wr32 [of 0 "replicate 4 0" x] by (simp add: xint_def wr32_def blit_def)

lemma xshort_id [simp]: "xshort x = x"
  using rd16_wr16 [of 0 "replicate 2 0" x] by (simp add: xshort_def wr16_def blit_def)

lemma bitmap_get_set:
  assumes "i div 8 < length d" "j div 8 < length d"
  shows "bitmap_get (bitmap_set d j) i \<longleftrightarrow> i = j \<or> bitmap_get d i"
proof (cases "i div 8 = j div 8")
  case True
  then have "i = j \<longleftrightarrow> i mod 8 = j mod 8" by (metis div_mult_mod_eq)
  with True assms show ?thesis by (auto simp: bitmap_get_def bitmap_set_def bit_simps)
next
  case False
  then show ?thesis using assms by (auto simp: bitmap_get_def bitmap_set_def)
qed

lemma mkfs_bitmap_eq: "mkfs_bitmap n = fold (\<lambda>i d. bitmap_set d i) [0..<n] (replicate BSIZE 0)"
  by (simp add: mkfs_bitmap_def bitmap_set_def)

lemma mkfs_bitmap_bits:
  assumes "used \<le> 4096" "i < 4096"
  shows "length (mkfs_bitmap used) = 512 \<and> (bitmap_get (mkfs_bitmap used) i \<longleftrightarrow> i < used)"
  using assms(1)
proof (induction used)
  case 0
  have "i div 8 < 512" using assms(2) by (simp add: div_less_iff_less_mult)
  then show ?case by (simp add: mkfs_bitmap_def bitmap_get_def)
next
  case (Suc n)
  have e: "mkfs_bitmap (Suc n) = bitmap_set (mkfs_bitmap n) n" by (simp add: mkfs_bitmap_eq)
  have "i div 8 < 512" "n div 8 < 512" using assms(2) Suc.prems by (simp_all add: div_less_iff_less_mult)
  moreover have "length (bitmap_set d n) = length d" for d by (simp add: bitmap_set_def)
  ultimately show ?case using Suc unfolding e by (auto simp: bitmap_get_set)
qed

lemma rd32_at: "length xs = n \<Longrightarrow> rd32 (xs @ le32 w @ ys) n = w"
  using rd32_wr32 [of n "xs @ replicate 4 0 @ ys" w] by (simp add: wr32_def blit_def)

text \<open>\<open>sb_of\<close> is how the kernel reads the super block.\<close>

lemma sb_of_bytes: "sb_of (blit (replicate BSIZE 0) 0 (sb_bytes x)) = x"
proof -
  define r where "r = replicate 484 (0 :: u8)"
  have e: "blit (replicate BSIZE 0) 0 (sb_bytes x) = sb_bytes x @ r" by (simp add: blit_def sb_bytes_def r_def)
  show ?thesis
    unfolding e unfolding sb_of_def sb_bytes_def append_assoc
    using rd32_at [of "[]" 0 "sb_size x"] rd32_at [of "le32 (sb_size x)" 4 "sb_nblocks x"]
      rd32_at [of "le32 (sb_size x) @ le32 (sb_nblocks x)" 8 "sb_ninodes x"]
      rd32_at [of "le32 (sb_size x) @ le32 (sb_nblocks x) @ le32 (sb_ninodes x)" 12 "sb_nlog x"]
      rd32_at [of "le32 (sb_size x) @ le32 (sb_nblocks x) @ le32 (sb_ninodes x) @ le32 (sb_nlog x)" 16 "sb_logstart x"]
      rd32_at [of "le32 (sb_size x) @ le32 (sb_nblocks x) @ le32 (sb_ninodes x) @ le32 (sb_nlog x) @ le32 (sb_logstart x)" 20 "sb_inodestart x"]
      rd32_at [of "le32 (sb_size x) @ le32 (sb_nblocks x) @ le32 (sb_ninodes x) @ le32 (sb_nlog x) @ le32 (sb_logstart x) @ le32 (sb_inodestart x)" 24 "sb_bmapstart x"]
    by (simp add: append_assoc)
qed

text \<open>C35 [mkfs_bitmap_marks]: the bitmap that \<open>mkfs\<close> writes after having allocated the first \<open>used\<close> blocks is the one the kernel
  reads: in the block where the kernel looks for the bit of block \<open>b\<close>, that bit is set exactly for the
  blocks below \<open>used\<close>.\<close>

theorem mkfs_bitmap_marks:
  assumes "used < 4096" "unat b < FSSIZE"
  shows "\<exists>im'. mkfs_balloc used im = Ok im' \<and>
    (bitmap_get (im_sect im' (BBLOCK b mkfs_sb)) (unat b mod BPB) \<longleftrightarrow> unat b < used) \<and>
    (sec \<noteq> BBLOCK b mkfs_sb \<longrightarrow> im_sect im' sec = im_sect im sec)"
proof -
  have "unat b < 4096" using assms(2) by simp
  then have "b div 4096 = 0" by (simp add: word_unat_eq_iff unat_div)
  then have "BBLOCK b mkfs_sb = sb_bmapstart mkfs_sb" by (simp add: BBLOCK_def)
  then show ?thesis using assms mkfs_bitmap_bits [of used "unat b"] by (simp add: mkfs_balloc_def wsect_def)
qed

theorem mkfs_bitmap_marks_witness:
  "\<exists>im'. mkfs_balloc 60 \<lparr>im_sect = \<lambda>_. replicate 512 0, im_freeinode = 2, im_freeblock = 60\<rparr> = Ok im' \<and>
     bitmap_get (im_sect im' (BBLOCK 59 mkfs_sb)) 59 \<and> \<not> bitmap_get (im_sect im' (BBLOCK 60 mkfs_sb)) 60"
  using mkfs_bitmap_marks [of 60 59 "\<lparr>im_sect = \<lambda>_. replicate 512 0, im_freeinode = 2, im_freeblock = 60\<rparr>" 0]
    mkfs_bitmap_marks [of 60 60 "\<lparr>im_sect = \<lambda>_. replicate 512 0, im_freeinode = 2, im_freeblock = 60\<rparr>" 0]
  by auto

end
