(* ===== verification/Mp.thy ===== *)
theory Mp
  imports Cmem
begin

text \<open>
  Detection of the processors (\<open>mp.c\<close>, \<open>mp.h\<close>): the search for the floating pointer structure in
  low memory, the checks of the configuration table, and the walk over its entries, which
  fills \<open>cpus\<close>, \<open>ncpu\<close>, \<open>ioapicid\<close> and \<open>lapic\<close>. The structures are read from memory at the offsets of
  their fields. A loop over pointers is a \<open>partial_function\<close>, with \<open>None\<close> for a loop that does not end.
\<close>

section \<open>The structures of \<open>mp.h\<close>\<close>

definition load16 :: "memory \<Rightarrow> u32 \<Rightarrow> u16" where
  "load16 m a = ucast (m a) OR push_bit 8 (ucast (m (a + 1)))"

definition MP_SIZE :: u32 where [simp, const_defs]: "MP_SIZE = 16"
definition MPCONF_SIZE :: u32 where [simp, const_defs]: "MPCONF_SIZE = 44"
definition MPPROC_SIZE :: u32 where [simp, const_defs]: "MPPROC_SIZE = 20"
definition MPIOAPIC_SIZE :: u32 where [simp, const_defs]: "MPIOAPIC_SIZE = 8"

definition mp_physaddr :: "memory \<Rightarrow> u32 \<Rightarrow> u32" where "mp_physaddr m p = load32 m (p + 4)"
definition mp_imcrp :: "memory \<Rightarrow> u32 \<Rightarrow> u8" where "mp_imcrp m p = m (p + 12)"

definition mpconf_length :: "memory \<Rightarrow> u32 \<Rightarrow> u16" where "mpconf_length m p = load16 m (p + 4)"
definition mpconf_version :: "memory \<Rightarrow> u32 \<Rightarrow> u8" where "mpconf_version m p = m (p + 6)"
definition mpconf_lapicaddr :: "memory \<Rightarrow> u32 \<Rightarrow> u32" where "mpconf_lapicaddr m p = load32 m (p + 36)"

definition mpproc_apicid :: "memory \<Rightarrow> u32 \<Rightarrow> u8" where "mpproc_apicid m p = m (p + 1)"
definition mpioapic_apicno :: "memory \<Rightarrow> u32 \<Rightarrow> u8" where "mpioapic_apicno m p = m (p + 1)"

definition MPPROC :: u8 where [simp, const_defs]: "MPPROC = 0"
definition MPBUS :: u8 where [simp, const_defs]: "MPBUS = 1"
definition MPIOAPIC :: u8 where [simp, const_defs]: "MPIOAPIC = 2"
definition MPIOINTR :: u8 where [simp, const_defs]: "MPIOINTR = 3"
definition MPLINTR :: u8 where [simp, const_defs]: "MPLINTR = 4"

text \<open>The variables \<open>mpinit\<close> sets: \<open>lapic\<close>, \<open>ncpu\<close>, the \<open>apicid\<close> fields of \<open>cpus\<close>, and \<open>ioapicid\<close>.\<close>

record mpinfo =
  mp_lapic :: u32
  mp_ncpu :: nat
  mp_apicids :: "u8 list"
  mp_ioapicid :: u8

definition mpinfo0 :: mpinfo where
  "mpinfo0 = \<lparr>mp_lapic = 0, mp_ncpu = 0, mp_apicids = replicate NCPU 0, mp_ioapicid = 0\<rparr>"

section \<open>The search\<close>

text \<open>\<open>sum\<close>: the accumulator is an \<open>int\<close>, the result its low byte.\<close>

fun sum_loop :: "memory \<Rightarrow> u32 \<Rightarrow> nat \<Rightarrow> int \<Rightarrow> int" where
  "sum_loop m a 0 acc = acc"
| "sum_loop m a (Suc n) acc = sum_loop m (a + 1) n (acc + uint (m a))"

definition mp_checksum :: "memory \<Rightarrow> u32 \<Rightarrow> nat \<Rightarrow> u8" where
  "mp_checksum m a len = word_of_int (sum_loop m a len 0)"

definition bytes_at :: "memory \<Rightarrow> u32 \<Rightarrow> nat \<Rightarrow> u8 list" where
  "bytes_at m a n = map (\<lambda>i. m (a + of_nat i)) [0..<n]"

text \<open>The test of \<open>mpsearch1\<close> at \<open>p\<close>: the signature \<open>_MP_\<close> and a sum of zero.\<close>

definition mp_valid :: "memory \<Rightarrow> u32 \<Rightarrow> bool" where
  "mp_valid m p \<longleftrightarrow> bytes_at m p 4 = [0x5F, 0x4D, 0x50, 0x5F] \<and> mp_checksum m p (unat MP_SIZE) = 0"

partial_function (option) mp_scan :: "memory \<Rightarrow> u32 \<Rightarrow> u32 \<Rightarrow> u32 option" where
  "mp_scan m p e =
     (if p < e then if mp_valid m p then Some p else mp_scan m (p + MP_SIZE) e
      else Some 0)"

declare mp_scan.simps [code]

definition mpsearch1 :: "memory \<Rightarrow> u32 \<Rightarrow> u32 \<Rightarrow> u32 option" where
  "mpsearch1 m a len = (let addr = P2V a; e = addr + len in mp_scan m addr e)"

definition mpsearch :: "memory \<Rightarrow> u32 option" where
  "mpsearch m =
     (let bda = P2V 0x400;
          p = push_bit 4 (push_bit 8 (ucast (m (bda + 0x0F))) OR ucast (m (bda + 0x0E))) :: u32 in
      Option.bind
        (if p \<noteq> 0 then mpsearch1 m p 1024
         else
           let p = (push_bit 8 (ucast (m (bda + 0x14))) OR ucast (m (bda + 0x13))) * 1024 :: u32 in
           mpsearch1 m (p - 1024) 1024)
        (\<lambda>mp. if mp \<noteq> 0 then Some mp else mpsearch1 m 0xF0000 0x10000))"

text \<open>The pair of the configuration table and the floating pointer, or \<open>Some None\<close> for the null pointer.\<close>

definition mpconfig :: "memory \<Rightarrow> (u32 \<times> u32) option option" where
  "mpconfig m =
     Option.bind (mpsearch m) (\<lambda>mp.
     if mp = 0 \<or> mp_physaddr m mp = 0 then Some None
     else
       let conf = P2V (mp_physaddr m mp) in
       if bytes_at m conf 4 \<noteq> [0x50, 0x43, 0x4D, 0x50] then Some None
       else if mpconf_version m conf \<noteq> 1 \<and> mpconf_version m conf \<noteq> 4 then Some None
       else if mp_checksum m conf (unat (mpconf_length m conf)) \<noteq> 0 then Some None
       else Some (Some (conf, mp)))"

section \<open>The entries\<close>

text \<open>In the source the \<open>default\<close> case of the \<open>switch\<close> ends with a \<open>break\<close>, which leaves the \<open>switch\<close> and not the loop.\<close>

partial_function (option) mp_entries ::
  "memory \<Rightarrow> u32 \<Rightarrow> u32 \<Rightarrow> bool \<Rightarrow> mpinfo \<Rightarrow> (bool \<times> mpinfo) option" where
  "mp_entries m p e ismp st =
     (if p < e then
        if m p = MPPROC then
          mp_entries m (p + MPPROC_SIZE) e ismp
            (if mp_ncpu st < NCPU
             then st\<lparr>mp_apicids := (mp_apicids st)[mp_ncpu st := mpproc_apicid m p], mp_ncpu := mp_ncpu st + 1\<rparr>
             else st)
        else if m p = MPIOAPIC then
          mp_entries m (p + MPIOAPIC_SIZE) e ismp (st\<lparr>mp_ioapicid := mpioapic_apicno m p\<rparr>)
        else if m p = MPBUS \<or> m p = MPIOINTR \<or> m p = MPLINTR then mp_entries m (p + 8) e ismp st
        else mp_entries m p e False st
      else Some (ismp, st))"

declare mp_entries.simps [code]

text \<open>\<open>imcr\<close> is what \<open>inb(0x23)\<close> reads; the result has the bytes written to ports.\<close>

definition mpinit :: "memory \<Rightarrow> u8 \<Rightarrow> mpinfo \<Rightarrow> (unit, mpinfo \<times> (u16 \<times> u8) list) res" where
  "mpinit m imcr st =
     (case mpconfig m of
        None \<Rightarrow> Hang
      | Some None \<Rightarrow> Panic ''Expect to run on an SMP''
      | Some (Some (conf, mp)) \<Rightarrow>
          let st = st\<lparr>mp_lapic := mpconf_lapicaddr m conf\<rparr> in
          (case mp_entries m (conf + MPCONF_SIZE) (conf + ucast (mpconf_length m conf)) True st of
             None \<Rightarrow> Hang
           | Some (ismp, st) \<Rightarrow>
               if \<not> ismp then Panic ''Didn't find a suitable machine''
               else Ok (st, if mp_imcrp m mp \<noteq> 0 then [(0x22, 0x70), (0x23, imcr OR 1)] else [])))"

section \<open>The search finds the first structure\<close>

lemma mp_scan_spec:
  assumes "unat e + 16 \<le> 2 ^ 32"
  shows "\<exists>r. mp_scan m p e = Some r \<and>
     (r = 0 \<and> (\<forall>j. unat p + 16 * j < unat e \<longrightarrow> \<not> mp_valid m (p + of_nat (16 * j))) \<or>
      (\<exists>k. r = p + of_nat (16 * k) \<and> unat p + 16 * k < unat e \<and> mp_valid m r \<and>
         (\<forall>j < k. \<not> mp_valid m (p + of_nat (16 * j)))))"
proof (induction "unat e - unat p" arbitrary: p rule: less_induct)
  case less
  show ?case
  proof (cases "p < e")
    case False
    then show ?thesis by (subst mp_scan.simps) (simp add: word_less_nat_alt)
  next
    case lt: True
    show ?thesis
    proof (cases "mp_valid m p")
      case True
      with lt show ?thesis
        by (subst mp_scan.simps) (auto simp: word_less_nat_alt intro!: exI [of _ 0])
    next
      case False
      have u: "unat (p + 16) = unat p + 16"
        using lt assms by (simp add: word_less_nat_alt unat_word_ariths)
      have off: "p + 16 + of_nat (16 * j) = p + of_nat (16 * Suc j)" for j
        by (simp add: algebra_simps)
      have "unat e - unat (p + 16) < unat e - unat p" using lt u by (simp add: word_less_nat_alt)
      from less [OF this] lt u obtain r where r: "mp_scan m (p + 16) e = Some r" and
        "r = 0 \<and> (\<forall>j. unat p + 16 * Suc j < unat e \<longrightarrow> \<not> mp_valid m (p + of_nat (16 * Suc j))) \<or>
         (\<exists>k. r = p + of_nat (16 * Suc k) \<and> unat p + 16 * Suc k < unat e \<and> mp_valid m r \<and>
            (\<forall>j < k. \<not> mp_valid m (p + of_nat (16 * Suc j))))"
        unfolding off u add.assoc by (simp add: word_less_nat_alt add.assoc) blast
      moreover have "mp_scan m p e = mp_scan m (p + 16) e"
        using lt False by (subst mp_scan.simps) simp
      ultimately have r: "mp_scan m p e = Some r" and
        D: "r = 0 \<and> (\<forall>j. unat p + 16 * Suc j < unat e \<longrightarrow> \<not> mp_valid m (p + of_nat (16 * Suc j))) \<or>
         (\<exists>k. r = p + of_nat (16 * Suc k) \<and> unat p + 16 * Suc k < unat e \<and> mp_valid m r \<and>
            (\<forall>j < k. \<not> mp_valid m (p + of_nat (16 * Suc j))))" by (simp_all only:)
      from D show ?thesis
      proof (elim disjE exE conjE)
        assume "r = 0" and *: "\<forall>j. unat p + 16 * Suc j < unat e \<longrightarrow> \<not> mp_valid m (p + of_nat (16 * Suc j))"
        have "\<not> mp_valid m (p + of_nat (16 * j))" if "unat p + 16 * j < unat e" for j
          using * that False by (cases j) (simp, blast)
        with r \<open>r = 0\<close> show ?thesis by blast
      next
        fix k assume k: "r = p + of_nat (16 * Suc k)" "unat p + 16 * Suc k < unat e" "mp_valid m r"
          and *: "\<forall>j < k. \<not> mp_valid m (p + of_nat (16 * Suc j))"
        have "\<not> mp_valid m (p + of_nat (16 * j))" if "j < Suc k" for j
        proof (cases j)
          case (Suc i)
          with that * show ?thesis by blast
        qed (use False in simp)
        with r k show ?thesis by blast
      qed
    qed
  qed
qed

section \<open>The walk over the table\<close>

text \<open>\<open>mp_walk m e p ps q\<close>: from \<open>p\<close> the entries at \<open>ps\<close> have known types and lie before \<open>e\<close>, and \<open>q\<close> is the address
  after the last of them.\<close>

definition entry_size :: "u8 \<Rightarrow> u32" where
  "entry_size t = (if t = MPPROC then MPPROC_SIZE else 8)"

inductive mp_walk :: "memory \<Rightarrow> u32 \<Rightarrow> u32 \<Rightarrow> u32 list \<Rightarrow> u32 \<Rightarrow> bool" for m e where
  mp_walk_end: "mp_walk m e p [] p"
| mp_walk_entry: "p < e \<Longrightarrow> m p \<le> MPLINTR \<Longrightarrow> mp_walk m e (p + entry_size (m p)) ps q \<Longrightarrow> mp_walk m e p (p # ps) q"

text \<open>The processors of a table, in order, and its last I/O interrupt controller.\<close>

definition mp_procs :: "memory \<Rightarrow> u32 list \<Rightarrow> u8 list" where
  "mp_procs m ps = map (mpproc_apicid m) (filter (\<lambda>p. m p = MPPROC) ps)"

definition mp_ioapics :: "memory \<Rightarrow> u32 list \<Rightarrow> u8 list" where
  "mp_ioapics m ps = map (mpioapic_apicno m) (filter (\<lambda>p. m p = MPIOAPIC) ps)"

fun add_cpus :: "u8 list \<Rightarrow> mpinfo \<Rightarrow> mpinfo" where
  "add_cpus [] st = st"
| "add_cpus (i # is) st =
     add_cpus is (if mp_ncpu st < NCPU then st\<lparr>mp_apicids := (mp_apicids st)[mp_ncpu st := i], mp_ncpu := mp_ncpu st + 1\<rparr> else st)"

lemma mpinfo_commute:
  "st\<lparr>mp_ioapicid := x, mp_apicids := y, mp_ncpu := n\<rparr> = st\<lparr>mp_apicids := y, mp_ncpu := n, mp_ioapicid := x\<rparr>" for st :: mpinfo
  by simp

lemma add_cpus_frame: "add_cpus is (st\<lparr>mp_ioapicid := x\<rparr>) = (add_cpus is st)\<lparr>mp_ioapicid := x\<rparr>"
proof (induction "is" arbitrary: st)
  case (Cons i "is")
  then show ?case by (simp add: mpinfo_commute)
qed simp

lemma known_type: "(t :: u8) \<le> 4 \<longleftrightarrow> t = 0 \<or> t = 1 \<or> t = 2 \<or> t = 3 \<or> t = 4"
proof
  assume "t \<le> 4"
  then have "unat t \<le> 4" by (simp add: word_le_nat_alt)
  then have "unat t = 0 \<or> unat t = 1 \<or> unat t = 2 \<or> unat t = 3 \<or> unat t = 4" by linarith
  then show "t = 0 \<or> t = 1 \<or> t = 2 \<or> t = 3 \<or> t = 4"
    by (auto simp: word_unat_eq_iff)
qed auto

lemma mp_entries_walk:
  assumes "mp_walk m e p ps q" "\<not> q < e"
  shows "mp_entries m p e b st =
    Some (b, (add_cpus (mp_procs m ps) st)\<lparr>mp_ioapicid := last (mp_ioapicid st # mp_ioapics m ps)\<rparr>)"
  using assms
proof (induction p ps q arbitrary: st rule: mp_walk.induct)
  case (mp_walk_end p)
  then show ?case by (subst mp_entries.simps) (simp add: mp_procs_def mp_ioapics_def)
next
  case (mp_walk_entry p ps q)
  then show ?case
    by (subst mp_entries.simps)
      (auto simp: known_type mp_procs_def mp_ioapics_def entry_size_def add_cpus_frame)
qed

lemma add_cpus_spec:
  assumes "mp_ncpu st \<le> NCPU" "length (mp_apicids st) = NCPU"
  shows "mp_ncpu (add_cpus is st) = min NCPU (mp_ncpu st + length is) \<and> mp_lapic (add_cpus is st) = mp_lapic st \<and>
    take (mp_ncpu (add_cpus is st)) (mp_apicids (add_cpus is st)) = take NCPU (take (mp_ncpu st) (mp_apicids st) @ is)"
  using assms
proof (induction "is" arbitrary: st)
  case (Cons i "is")
  show ?case
  proof (cases "mp_ncpu st < NCPU")
    case True
    with Cons.prems Cons.IH [of "st\<lparr>mp_apicids := (mp_apicids st)[mp_ncpu st := i], mp_ncpu := mp_ncpu st + 1\<rparr>"]
    show ?thesis by (auto simp: take_Suc_conv_app_nth)
  next
    case False
    with Cons.prems Cons.IH [of st] show ?thesis by auto
  qed
qed simp

text \<open>An entry of an unknown type: the loop does not end.\<close>

lemma mp_entries_self:
  assumes "mp_entries m p e b st = Some r"
  shows "\<not> (p < e \<and> m p > MPLINTR) \<and> fst r = b"
proof (rule mp_entries.raw_induct [where P = "\<lambda>m p e b st r. \<not> (p < e \<and> m p > MPLINTR) \<and> fst r = b", OF _ assms])
  fix f :: "memory \<Rightarrow> u32 \<Rightarrow> u32 \<Rightarrow> bool \<Rightarrow> mpinfo \<Rightarrow> (bool \<times> mpinfo) option" and m p e b st r
  assume IH: "\<And>m p e b st r. f m p e b st = Some r \<Longrightarrow> \<not> (p < e \<and> m p > MPLINTR) \<and> fst r = b"
    and body: "(if p < e then
        if m p = MPPROC then
          f m (p + MPPROC_SIZE) e b
            (if mp_ncpu st < NCPU
             then st\<lparr>mp_apicids := (mp_apicids st)[mp_ncpu st := mpproc_apicid m p], mp_ncpu := mp_ncpu st + 1\<rparr>
             else st)
        else if m p = MPIOAPIC then
          f m (p + MPIOAPIC_SIZE) e b (st\<lparr>mp_ioapicid := mpioapic_apicno m p\<rparr>)
        else if m p = MPBUS \<or> m p = MPIOINTR \<or> m p = MPLINTR then f m (p + 8) e b st
        else f m p e False st
      else Some (b, st)) = Some r"
  show "\<not> (p < e \<and> m p > MPLINTR) \<and> fst r = b"
  proof (cases "p < e \<and> m p > MPLINTR")
    case True
    then have "f m p e False st = Some r" using body by (auto simp: not_le [symmetric] known_type)
    from IH [OF this] True show ?thesis by blast
  next
    case False
    then have "p < e \<Longrightarrow> m p \<le> MPLINTR" by simp
    then show ?thesis using body IH False by (auto simp: known_type split: if_splits)
  qed
qed

lemma mp_entries_unknown:
  assumes "mp_walk m e p ps q" "q < e" "m q > MPLINTR"
  shows "mp_entries m p e b st = None"
  using assms
proof (induction p ps q arbitrary: st rule: mp_walk.induct)
  case (mp_walk_end p)
  then show ?case using mp_entries_self [of m p e b st] by (cases "mp_entries m p e b st") auto
next
  case (mp_walk_entry p ps q)
  then show ?case
    by (subst mp_entries.simps) (auto simp: known_type entry_size_def)
qed

text \<open>C32 [mpinit_processors]: for a configuration table whose entries have known types, \<open>mpinit\<close> returns; it has found the
  processors of the table in order, at most eight, and the address of the local interrupt controller.
  For a table with an entry of an unknown type \<open>mpinit\<close> never returns: the \<open>break\<close> of the \<open>default\<close> case leaves
  only the \<open>switch\<close>, and the pointer stays at the entry. The panic that follows the loop is therefore never
  reached.\<close>

theorem mpinit_processors:
  assumes "mpconfig m = Some (Some (conf, mp))"
    and "mp_walk m (conf + ucast (mpconf_length m conf)) (conf + MPCONF_SIZE) ps q"
  shows "(\<not> q < conf + ucast (mpconf_length m conf) \<longrightarrow>
      (\<exists>st out. mpinit m imcr mpinfo0 = Ok (st, out) \<and> mp_lapic st = mpconf_lapicaddr m conf \<and>
         mp_ncpu st = min NCPU (length (mp_procs m ps)) \<and> take (mp_ncpu st) (mp_apicids st) = take NCPU (mp_procs m ps))) \<and>
    (q < conf + ucast (mpconf_length m conf) \<and> m q > MPLINTR \<longrightarrow> mpinit m imcr mpinfo0 = Hang)"
proof (intro conjI impI)
  let ?st = "mpinfo0\<lparr>mp_lapic := mpconf_lapicaddr m conf\<rparr>"
  assume "\<not> q < conf + ucast (mpconf_length m conf)"
  from mp_entries_walk [OF assms(2) this, of True ?st] add_cpus_spec [of ?st "mp_procs m ps"] assms(1)
  show "\<exists>st out. mpinit m imcr mpinfo0 = Ok (st, out) \<and> mp_lapic st = mpconf_lapicaddr m conf \<and>
         mp_ncpu st = min NCPU (length (mp_procs m ps)) \<and> take (mp_ncpu st) (mp_apicids st) = take NCPU (mp_procs m ps)"
    by (auto simp: mpinit_def mpinfo0_def Let_def)
next
  assume "q < conf + ucast (mpconf_length m conf) \<and> m q > MPLINTR"
  with mp_entries_unknown [OF assms(2)] assms(1) show "mpinit m imcr mpinfo0 = Hang"
    by (simp add: mpinit_def Let_def)
qed

text \<open>A machine with one processor: the floating pointer is at the start of the extended BIOS data area, its table
  right after it, with one processor and an entry of type \<open>t\<close>.\<close>

definition mp_table :: "u8 \<Rightarrow> u8 list" where
  "mp_table t =
     [0x5F, 0x4D, 0x50, 0x5F, 0x10, 0xF0, 0x09, 0, 1, 4, 0x97, 0, 0, 0, 0, 0] @
     [0x50, 0x43, 0x4D, 0x50, 72, 0, 4, 157 - t] @ replicate 20 0 @ replicate 4 0 @ [0, 0, 2, 0, 0, 0, 0xE0, 0xFE, 0, 0, 0, 0] @
     (0 # 5 # replicate 18 0) @ (t # 2 # replicate 6 0)"

definition mp_memory :: "u8 \<Rightarrow> memory" where
  "mp_memory t a =
     (if a = 0x8000040F then 0x9F else
      if a - 0x8009F000 < 88 then mp_table t ! unat (a - 0x8009F000) else 0)"

lemma mp_sample_bytes:
  "mp_memory 2 0x8009F03C = 0" "mp_memory 2 0x8009F03D = 5" "mp_memory 2 0x8009F050 = 2"
  "mp_memory 9 0x8009F03C = 0" "mp_memory 9 0x8009F050 = 9"
  by code_simp+

lemma mp_sample_walk:
  "mp_walk (mp_memory 2) 0x8009F058 0x8009F03C [0x8009F03C, 0x8009F050] 0x8009F058"
  "mp_walk (mp_memory 9) 0x8009F058 0x8009F03C [0x8009F03C] 0x8009F050"
  by (rule mp_walk.intros; simp add: mp_sample_bytes entry_size_def)+

lemma mp_sample_valid: "mp_valid (mp_memory 2) 0x8009F000" "mp_valid (mp_memory 9) 0x8009F000"
  by code_simp+

lemma mp_sample_sum: "mp_checksum (mp_memory 2) 0x8009F010 72 = 0" "mp_checksum (mp_memory 9) 0x8009F010 72 = 0"
  by code_simp+

lemma mp_sample_ebda:
  "mp_memory 2 0x8000040F = 0x9F" "mp_memory 2 0x8000040E = 0" "mp_memory 9 0x8000040F = 0x9F" "mp_memory 9 0x8000040E = 0"
  by code_simp+

lemma mp_sample_fields:
  "mpconf_version (mp_memory 2) 0x8009F010 = 4" "mpconf_version (mp_memory 9) 0x8009F010 = 4"
  "bytes_at (mp_memory 2) 0x8009F010 4 = [0x50, 0x43, 0x4D, 0x50]" "bytes_at (mp_memory 9) 0x8009F010 4 = [0x50, 0x43, 0x4D, 0x50]"
  by code_simp+

lemma mp_sample_raw:
  "mp_memory t 0x8009F004 = 0x10 \<and> mp_memory t 0x8009F005 = 0xF0 \<and> mp_memory t 0x8009F006 = 0x09 \<and> mp_memory t 0x8009F007 = 0 \<and>
   mp_memory t 0x8009F014 = 72 \<and> mp_memory t 0x8009F015 = 0"
  by (simp add: mp_memory_def mp_table_def)

lemma mp_sample_words:
  "mp_physaddr (mp_memory t) 0x8009F000 = 0x9F010" "mpconf_length (mp_memory t) 0x8009F010 = 72"
  using mp_sample_raw [of t] by (simp_all add: mp_physaddr_def mpconf_length_def load32_def load16_def)

lemma mp_sample_config:
  "mpconfig (mp_memory 2) = Some (Some (0x8009F010, 0x8009F000))" "mpconfig (mp_memory 9) = Some (Some (0x8009F010, 0x8009F000))"
  by (simp_all add: mpconfig_def mpsearch_def mpsearch1_def Let_def P2V_def mp_sample_ebda mp_sample_fields mp_sample_words
      mp_sample_sum mp_scan.simps mp_sample_valid)

theorem mpinit_processors_witness:
  "(\<exists>st out. mpinit (mp_memory 2) 0 mpinfo0 = Ok (st, out) \<and> mp_ncpu st = 1 \<and> take 1 (mp_apicids st) = [5]) \<and>
   mpinit (mp_memory 9) 0 mpinfo0 = Hang"
  using mpinit_processors [OF mp_sample_config(1), of "[0x8009F03C, 0x8009F050]" "0x8009F058" 0]
    mpinit_processors [OF mp_sample_config(2), of "[0x8009F03C]" "0x8009F050" 0] mp_sample_walk
  by (auto simp: mp_sample_words mp_sample_bytes mp_procs_def mpproc_apicid_def)

end
