(* ===== verification/Segments.thy ===== *)
theory Segments
  imports Pgtable
begin

text \<open>
  Segments and gates (\<open>mmu.h\<close>, \<open>seginit\<close> and the task state of \<open>switchuvm\<close> in \<open>vm.c\<close>, \<open>tvinit\<close> and \<open>idtinit\<close> in
  \<open>trap.c\<close>, the descriptor table instructions of \<open>x86.h\<close>). A bit field is a word of its width, and
  storing a wider value into it truncates.
\<close>

section \<open>Segment descriptors\<close>

record segdesc =
  lim_15_0 :: "16 word"
  base_15_0 :: "16 word"
  base_23_16 :: "8 word"
  sd_type :: "4 word"
  sd_s :: "1 word"
  sd_dpl :: "2 word"
  sd_p :: "1 word"
  lim_19_16 :: "4 word"
  sd_avl :: "1 word"
  sd_rsv1 :: "1 word"
  sd_db :: "1 word"
  sd_g :: "1 word"
  base_31_24 :: "8 word"

definition SEG :: "4 word \<Rightarrow> u32 \<Rightarrow> u32 \<Rightarrow> 2 word \<Rightarrow> segdesc" where
  "SEG type base lim dpl =
     \<lparr>lim_15_0 = ucast (drop_bit 12 lim AND 0xffff), base_15_0 = ucast (base AND 0xffff),
      base_23_16 = ucast (drop_bit 16 base AND 0xff), sd_type = type, sd_s = 1, sd_dpl = dpl, sd_p = 1,
      lim_19_16 = ucast (drop_bit 28 lim), sd_avl = 0, sd_rsv1 = 0, sd_db = 1, sd_g = 1,
      base_31_24 = ucast (drop_bit 24 base)\<rparr>"

definition SEG16 :: "4 word \<Rightarrow> u32 \<Rightarrow> u32 \<Rightarrow> 2 word \<Rightarrow> segdesc" where
  "SEG16 type base lim dpl =
     \<lparr>lim_15_0 = ucast (lim AND 0xffff), base_15_0 = ucast (base AND 0xffff),
      base_23_16 = ucast (drop_bit 16 base AND 0xff), sd_type = type, sd_s = 1, sd_dpl = dpl, sd_p = 1,
      lim_19_16 = ucast (drop_bit 16 lim), sd_avl = 0, sd_rsv1 = 0, sd_db = 1, sd_g = 0,
      base_31_24 = ucast (drop_bit 24 base)\<rparr>"

definition STA_X :: "4 word" where [simp, const_defs]: "STA_X = 0x8"
definition STA_W :: "4 word" where [simp, const_defs]: "STA_W = 0x2"
definition STA_R :: "4 word" where [simp, const_defs]: "STA_R = 0x2"
definition STS_T32A :: "4 word" where [simp, const_defs]: "STS_T32A = 0x9"
definition STS_IG32 :: "4 word" where [simp, const_defs]: "STS_IG32 = 0xE"
definition STS_TG32 :: "4 word" where [simp, const_defs]: "STS_TG32 = 0xF"

definition SEG_KCODE :: nat where [simp, const_defs]: "SEG_KCODE = 1"
definition SEG_KDATA :: nat where [simp, const_defs]: "SEG_KDATA = 2"
definition SEG_TSS :: nat where [simp, const_defs]: "SEG_TSS = 5"
definition NSEGS :: nat where [simp, const_defs]: "NSEGS = 6"

text \<open>How the processor reads a descriptor: the base, and the last valid offset.\<close>

definition seg_base :: "segdesc \<Rightarrow> u32" where
  "seg_base d = ucast (base_15_0 d) OR push_bit 16 (ucast (base_23_16 d)) OR push_bit 24 (ucast (base_31_24 d))"

definition seg_limit :: "segdesc \<Rightarrow> u32" where
  "seg_limit d =
     (let l = ucast (lim_15_0 d) OR push_bit 16 (ucast (lim_19_16 d)) in
      if sd_g d = 1 then push_bit 12 l OR 0xFFF else l)"

section \<open>The task state and the registers of a processor\<close>

text \<open>The padding of \<open>struct taskstate\<close> is left out; the structure has 104 bytes.\<close>

record taskstate =
  ts_link :: u32
  ts_esp0 :: u32
  ts_ss0 :: u16
  ts_esp1 :: u32
  ts_ss1 :: u16
  ts_esp2 :: u32
  ts_ss2 :: u16
  ts_cr3 :: u32
  ts_eip :: u32
  ts_eflags :: u32
  ts_eax :: u32
  ts_ecx :: u32
  ts_edx :: u32
  ts_ebx :: u32
  ts_esp :: u32
  ts_ebp :: u32
  ts_esi :: u32
  ts_edi :: u32
  ts_es :: u16
  ts_cs :: u16
  ts_ss :: u16
  ts_ds :: u16
  ts_fs :: u16
  ts_gs :: u16
  ts_ldt :: u16
  ts_t :: u16
  ts_iomb :: u16

text \<open>The part of \<open>struct cpu\<close> the descriptors concern, with the registers the instructions load.\<close>

record cpuseg =
  gdt :: "segdesc list"
  ts :: taskstate
  gdtr :: "u16 \<times> u32"
  idtr :: "u16 \<times> u32"
  tr :: u16

text \<open>\<open>lgdt\<close> and \<open>lidt\<close> build the three half words the instruction reads.\<close>

definition table_reg :: "u32 \<Rightarrow> u32 \<Rightarrow> u16 list" where
  "table_reg p n = [ucast (n - 1), ucast p, ucast (drop_bit 16 p)]"

definition load_table :: "u16 list \<Rightarrow> u16 \<times> u32" where
  "load_table pd = (pd ! 0, ucast (pd ! 1) OR push_bit 16 (ucast (pd ! 2)))"

definition lgdt :: "u32 \<Rightarrow> u32 \<Rightarrow> cpuseg \<Rightarrow> cpuseg" where
  "lgdt p n c = c\<lparr>gdtr := load_table (table_reg p n)\<rparr>"

definition lidt :: "u32 \<Rightarrow> u32 \<Rightarrow> cpuseg \<Rightarrow> cpuseg" where
  "lidt p n c = c\<lparr>idtr := load_table (table_reg p n)\<rparr>"

definition ltr :: "u16 \<Rightarrow> cpuseg \<Rightarrow> cpuseg" where
  "ltr v c = c\<lparr>tr := v\<rparr>"

text \<open>\<open>seginit\<close>; \<open>a\<close> is the address of the table of this processor.\<close>

definition seginit :: "u32 \<Rightarrow> cpuseg \<Rightarrow> cpuseg" where
  "seginit a c =
     (let c = c\<lparr>gdt := (gdt c)[1 := SEG (STA_X OR STA_R) 0 0xffffffff 0]\<rparr>;
          c = c\<lparr>gdt := (gdt c)[2 := SEG STA_W 0 0xffffffff 0]\<rparr>;
          c = c\<lparr>gdt := (gdt c)[3 := SEG (STA_X OR STA_R) 0 0xffffffff 3]\<rparr>;
          c = c\<lparr>gdt := (gdt c)[4 := SEG STA_W 0 0xffffffff 3]\<rparr> in
      lgdt a (8 * of_nat NSEGS) c)"

text \<open>\<open>switchuvm\<close> with its effect on the processor; \<open>a\<close> is the address of its task state. The enclosing \<open>pushcli\<close> and
  \<open>popcli\<close> leave the nesting as it was (theory \<open>Spinlock\<close>) and are not repeated.\<close>

definition switchuvm_cpu :: "u32 \<Rightarrow> nat option \<Rightarrow> cpuseg \<Rightarrow> kernel \<Rightarrow> (kernel, cpuseg \<times> kernel) res" where
  "switchuvm_cpu a p c s =
     (case p of
        None \<Rightarrow> Panic ''switchuvm: no process''
      | Some p \<Rightarrow>
          if p_kstack (procs s ! p) = 0 then Panic ''switchuvm: no kstack''
          else if p_pgdir (procs s ! p) = 0 then Panic ''switchuvm: no pgdir''
          else
            let c = c\<lparr>gdt := (gdt c)[SEG_TSS := (SEG16 STS_T32A a (104 - 1) 0)\<lparr>sd_s := 0\<rparr>]\<rparr>;
                c = c\<lparr>ts := (ts c)\<lparr>ts_ss0 := of_nat (8 * SEG_KDATA), ts_esp0 := p_kstack (procs s ! p) + KSTACKSIZE,
                       ts_iomb := 0xFFFF\<rparr>\<rparr>;
                c = ltr (of_nat (8 * SEG_TSS)) c in
            Ok (c, s\<lparr>cr3 := V2P (p_pgdir (procs s ! p))\<rparr>))"

section \<open>Gates\<close>

record gatedesc =
  off_15_0 :: "16 word"
  gd_cs :: "16 word"
  gd_args :: "5 word"
  gd_rsv1 :: "3 word"
  gd_type :: "4 word"
  gd_s :: "1 word"
  gd_dpl :: "2 word"
  gd_p :: "1 word"
  off_31_16 :: "16 word"

definition SETGATE :: "bool \<Rightarrow> u16 \<Rightarrow> u32 \<Rightarrow> 2 word \<Rightarrow> gatedesc" where
  "SETGATE istrap cseg off d =
     \<lparr>off_15_0 = ucast (off AND 0xffff), gd_cs = cseg, gd_args = 0, gd_rsv1 = 0,
      gd_type = (if istrap then STS_TG32 else STS_IG32), gd_s = 0, gd_dpl = d, gd_p = 1,
      off_31_16 = ucast (drop_bit 16 off)\<rparr>"

definition gate_offset :: "gatedesc \<Rightarrow> u32" where
  "gate_offset g = ucast (off_15_0 g) OR push_bit 16 (ucast (off_31_16 g))"

text \<open>\<open>vectors\<close> is the table of entry points that \<open>vectors.pl\<close> generates.\<close>

definition tvinit_idt :: "u32 list \<Rightarrow> gatedesc list \<Rightarrow> gatedesc list" where
  "tvinit_idt vectors idt =
     (let idt = fold (\<lambda>i t. t[i := SETGATE False (of_nat (8 * SEG_KCODE)) (vectors ! i) 0]) [0..<256] idt in
      idt[64 := SETGATE True (of_nat (8 * SEG_KCODE)) (vectors ! 64) 3])"

definition idtinit :: "u32 \<Rightarrow> cpuseg \<Rightarrow> cpuseg" where
  "idtinit a c = lidt a (256 * 8) c"

section \<open>Round trips of the encodings\<close>

lemma mask16: "(0xffff :: u32) = mask 16" and mask8: "(0xff :: u32) = mask 8"
  by (simp_all add: mask_eq_exp_minus_1)

lemma join16: "ucast (ucast (w AND 0xffff) :: u16) OR push_bit 16 (ucast (ucast (drop_bit 16 w) :: u16)) = (w :: u32)"
  (is "?l = w")
proof (rule bit_word_eqI)
  fix n assume "n < LENGTH(32)"
  then consider "n < 16" | "16 \<le> n \<and> n < 32" by fastforce
  then show "bit ?l n = bit w n" by cases (auto simp: mask16 bit_simps)
qed

lemma gate_offset_SETGATE [simp]: "gate_offset (SETGATE b g off d) = off"
  by (simp add: gate_offset_def SETGATE_def join16)

lemma ucast_and_16: "(ucast (w AND 0xffff) :: u16) = ucast (w :: u32)"
  by (rule bit_word_eqI) (auto simp: mask16 bit_simps)

lemma load_table_reg: "load_table (table_reg p n) = (ucast (n - 1), p)"
  using join16 [of p] by (simp add: load_table_def table_reg_def ucast_and_16)

lemma seg_base_SEG [simp]: "seg_base (SEG t b l d) = b" "seg_base (SEG16 t b l d) = b"
  "seg_base (SEG16 t b l d\<lparr>sd_s := 0\<rparr>) = b"
proof -
  have "ucast (ucast (b AND 0xffff) :: u16) OR push_bit 16 (ucast (ucast (drop_bit 16 b AND 0xff) :: u8)) OR
    push_bit 24 (ucast (ucast (drop_bit 24 b) :: u8)) = b" (is "?l = b")
  proof (rule bit_word_eqI)
    fix n assume "n < LENGTH(32)"
    then consider "n < 16" | "16 \<le> n \<and> n < 24" | "24 \<le> n \<and> n < 32" by fastforce
    then show "bit ?l n = bit b n" by cases (auto simp: mask16 mask8 bit_simps)
  qed
  then show "seg_base (SEG t b l d) = b" "seg_base (SEG16 t b l d) = b"
    "seg_base (SEG16 t b l d\<lparr>sd_s := 0\<rparr>) = b"
    by (simp_all add: seg_base_def SEG_def SEG16_def)
qed

lemma seg_limit_SEG: "seg_limit (SEG t b l d) = l OR 0xFFF"
proof (rule bit_word_eqI)
  fix n assume "n < LENGTH(32)"
  then consider "n < 12" | "12 \<le> n \<and> n < 28" | "28 \<le> n \<and> n < 32" by fastforce
  then show "bit (seg_limit (SEG t b l d)) n = bit (l OR 0xFFF) n"
    by cases (auto simp: seg_limit_def SEG_def Let_def mask12 mask16 bit_simps)
qed

lemma switchuvm_cpu_kernel:
  "rbind (switchuvm_cpu a p c s) (\<lambda>(c, s). Ok s) = switchuvm p s"
  by (simp add: switchuvm_cpu_def switchuvm_def Let_def split: option.split)

section \<open>Entry from user mode\<close>

lemma fold_set:
  "n \<le> length t \<Longrightarrow> length (fold (\<lambda>i t. t[i := f i]) [0..<n] t) = length t \<and>
     (\<forall>i < n. fold (\<lambda>i t. t[i := f i]) [0..<n] t ! i = f i)"
  by (induction n) (auto simp: nth_list_update less_Suc_eq)

text \<open>C30 [tvinit_only_syscall_gate]: after \<open>tvinit\<close> each of the 256 gates leads to its own entry point in the kernel's
  code segment. The gate of the system call is the only one that user code may call with an \<open>int\<close> instruction,
  and the only one that leaves interrupts enabled.\<close>

theorem tvinit_only_syscall_gate:
  assumes "length idt = 256" "i < 256"
  shows "let g = tvinit_idt vectors idt ! i in
    gate_offset g = vectors ! i \<and> gd_p g = 1 \<and> gd_cs g = of_nat (8 * SEG_KCODE) \<and>
    (gd_dpl g = 3 \<longleftrightarrow> i = 64) \<and> (gd_type g = STS_TG32 \<longleftrightarrow> i = 64)"
proof -
  define g where "g = (\<lambda>i. SETGATE False (of_nat (8 * SEG_KCODE)) (vectors ! i) 0)"
  define t where "t = fold (\<lambda>i t. t[i := g i]) [0..<256] idt"
  have t: "length t = 256" "t ! i = g i"
    using assms fold_set [of 256 idt g] unfolding t_def by (simp_all del: upt_rec_numeral)
  have "tvinit_idt vectors idt = t[64 := SETGATE True (of_nat (8 * SEG_KCODE)) (vectors ! 64) 3]"
    by (simp only: tvinit_idt_def Let_def t_def g_def)
  then have "tvinit_idt vectors idt ! i = (if i = 64 then SETGATE True (of_nat (8 * SEG_KCODE)) (vectors ! i) 3 else g i)"
    using t assms(2) by (simp add: nth_list_update)
  then show ?thesis by (simp add: Let_def g_def) (simp add: SETGATE_def)
qed

theorem tvinit_only_syscall_gate_witness:
  "gd_dpl (tvinit_idt (replicate 256 0x80105000) (replicate 256 (SETGATE False 0 0 0)) ! 64) = 3 \<and>
   gd_dpl (tvinit_idt (replicate 256 0x80105000) (replicate 256 (SETGATE False 0 0 0)) ! 14) \<noteq> 3"
  using tvinit_only_syscall_gate [of "replicate 256 (SETGATE False 0 0 0)" 64 "replicate 256 0x80105000"]
    tvinit_only_syscall_gate [of "replicate 256 (SETGATE False 0 0 0)" 14 "replicate 256 0x80105000"]
  by (simp add: Let_def)

end
