(* ===== verification/Apic.thy ===== *)
theory Apic
  imports Cmem
begin

text \<open>
  The interrupt controllers (\<open>lapic.c\<close>, \<open>ioapic.c\<close>, \<open>picirq.c\<close>) and the real-time clock. What the kernel writes to the
  local controller, to ports and to the warm reset vector is a list of events; what it reads from
  the hardware is an argument. The I/O controller is a select register and the registers behind it.
\<close>

datatype dev_event = LapicW u32 u32 | LapicR u32 | Outb u16 u8 | StoreH u32 u16

section \<open>The local interrupt controller\<close>

datatype lapic_reg = ID | VER | TPR | EOI | SVR | ESR | ICRLO | ICRHI | TIMER | PCINT | LINT0 | LINT1 | ERROR | TICR | TDCR

text \<open>Indices into the registers, as an array of words.\<close>

fun lapic_index :: "lapic_reg \<Rightarrow> u32" where
  "lapic_index ID = 0x0020 div 4"
| "lapic_index VER = 0x0030 div 4"
| "lapic_index TPR = 0x0080 div 4"
| "lapic_index EOI = 0x00B0 div 4"
| "lapic_index SVR = 0x00F0 div 4"
| "lapic_index ESR = 0x0280 div 4"
| "lapic_index ICRLO = 0x0300 div 4"
| "lapic_index ICRHI = 0x0310 div 4"
| "lapic_index TIMER = 0x0320 div 4"
| "lapic_index PCINT = 0x0340 div 4"
| "lapic_index LINT0 = 0x0350 div 4"
| "lapic_index LINT1 = 0x0360 div 4"
| "lapic_index ERROR = 0x0370 div 4"
| "lapic_index TICR = 0x0380 div 4"
| "lapic_index TDCR = 0x03E0 div 4"

datatype lapic_flag = ENABLE | INIT | STARTUP | DELIVS | ASSERT | LEVEL | BCAST | X1 | PERIODIC | MASKED

fun flag :: "lapic_flag \<Rightarrow> u32" where
  "flag ENABLE = 0x00000100"
| "flag INIT = 0x00000500"
| "flag STARTUP = 0x00000600"
| "flag DELIVS = 0x00001000"
| "flag ASSERT = 0x00004000"
| "flag LEVEL = 0x00008000"
| "flag BCAST = 0x00080000"
| "flag X1 = 0x0000000B"
| "flag PERIODIC = 0x00020000"
| "flag MASKED = 0x00010000"

definition lapicw :: "lapic_reg \<Rightarrow> u32 \<Rightarrow> dev_event list" where
  "lapicw r v = [LapicW (lapic_index r) v, LapicR (lapic_index ID)]"

text \<open>The wait for the delivery of an interrupt command: \<open>icr k\<close> is what the \<open>k\<close>-th read of the command register
  delivers; the result is the number of reads.\<close>

partial_function (option) lapic_wait :: "(nat \<Rightarrow> u32) \<Rightarrow> nat \<Rightarrow> nat option" where
  "lapic_wait icr k = (if icr k AND flag DELIVS \<noteq> 0 then lapic_wait icr (k + 1) else Some (k + 1))"

declare lapic_wait.simps [code]

text \<open>\<open>lapic\<close> is the pointer \<open>mpinit\<close> found, \<open>ver\<close> the version register.\<close>

definition lapicinit :: "u32 \<Rightarrow> u32 \<Rightarrow> (nat \<Rightarrow> u32) \<Rightarrow> dev_event list option" where
  "lapicinit lapic ver icr =
     (if lapic = 0 then Some []
      else
        Option.bind (lapic_wait icr 0) (\<lambda>k.
        Some (lapicw SVR (flag ENABLE OR (32 + 31)) @
          lapicw TDCR (flag X1) @ lapicw TIMER (flag PERIODIC OR (32 + 0)) @ lapicw TICR 10000000 @
          lapicw LINT0 (flag MASKED) @ lapicw LINT1 (flag MASKED) @
          (LapicR (lapic_index VER) # (if drop_bit 16 ver AND 0xFF \<ge> 4 then lapicw PCINT (flag MASKED) else [])) @
          lapicw ERROR (32 + 19) @ lapicw ESR 0 @ lapicw ESR 0 @ lapicw EOI 0 @
          lapicw ICRHI 0 @ lapicw ICRLO (flag BCAST OR flag INIT OR flag LEVEL) @
          replicate k (LapicR (lapic_index ICRLO)) @ lapicw TPR 0)))"

definition lapicid :: "u32 \<Rightarrow> u32 \<Rightarrow> u32" where
  "lapicid lapic idreg = (if lapic = 0 then 0 else drop_bit 24 idreg)"

definition lapiceoi :: "u32 \<Rightarrow> dev_event list" where
  "lapiceoi lapic = (if lapic \<noteq> 0 then lapicw EOI 0 else [])"

text \<open>\<open>microdelay\<close> has an empty body and is left out.\<close>

definition lapicstartap :: "u8 \<Rightarrow> u32 \<Rightarrow> dev_event list" where
  "lapicstartap apicid addr =
     (let wrv = P2V (push_bit 4 0x40 OR 0x67) in
      [Outb 0x70 0xF, Outb 0x71 0x0A, StoreH wrv 0, StoreH (wrv + 2) (ucast (drop_bit 4 addr))] @
      lapicw ICRHI (push_bit 24 (ucast apicid)) @ lapicw ICRLO (flag INIT OR flag LEVEL OR flag ASSERT) @
      lapicw ICRLO (flag INIT OR flag LEVEL) @
      concat (replicate 2 (lapicw ICRHI (push_bit 24 (ucast apicid)) @ lapicw ICRLO (flag STARTUP OR drop_bit 12 addr))))"

section \<open>The real-time clock\<close>

text \<open>\<open>dev k r\<close> is what the \<open>k\<close>-th read of the clock delivers if it asks for register \<open>r\<close>.\<close>

record rtcdate =
  rtc_second :: u32
  rtc_minute :: u32
  rtc_hour :: u32
  rtc_day :: u32
  rtc_month :: u32
  rtc_year :: u32

definition CMOS_STATA :: u8 where [simp, const_defs]: "CMOS_STATA = 0x0a"
definition CMOS_STATB :: u8 where [simp, const_defs]: "CMOS_STATB = 0x0b"
definition CMOS_UIP :: u32 where [simp, const_defs]: "CMOS_UIP = push_bit 7 1"

definition cmos_read :: "(nat \<Rightarrow> u8 \<Rightarrow> u8) \<Rightarrow> nat \<Rightarrow> u8 \<Rightarrow> u32" where
  "cmos_read dev n r = ucast (dev n r)"

text \<open>Six reads, from the \<open>n\<close>-th on.\<close>

definition fill_rtcdate :: "(nat \<Rightarrow> u8 \<Rightarrow> u8) \<Rightarrow> nat \<Rightarrow> rtcdate" where
  "fill_rtcdate dev n =
     \<lparr>rtc_second = cmos_read dev n 0x00, rtc_minute = cmos_read dev (n + 1) 0x02, rtc_hour = cmos_read dev (n + 2) 0x04,
      rtc_day = cmos_read dev (n + 3) 0x07, rtc_month = cmos_read dev (n + 4) 0x08, rtc_year = cmos_read dev (n + 5) 0x09\<rparr>"

partial_function (option) cmos_loop :: "(nat \<Rightarrow> u8 \<Rightarrow> u8) \<Rightarrow> nat \<Rightarrow> rtcdate option" where
  "cmos_loop dev n =
     (let t1 = fill_rtcdate dev n in
      if cmos_read dev (n + 6) CMOS_STATA AND CMOS_UIP \<noteq> 0 then cmos_loop dev (n + 7)
      else
        let t2 = fill_rtcdate dev (n + 7) in
        if t1 = t2 then Some t1 else cmos_loop dev (n + 13))"

declare cmos_loop.simps [code]

definition CONV :: "u32 \<Rightarrow> u32" where
  "CONV x = drop_bit 4 x * 10 + (x AND 0xf)"

definition conv_date :: "rtcdate \<Rightarrow> rtcdate" where
  "conv_date t =
     \<lparr>rtc_second = CONV (rtc_second t), rtc_minute = CONV (rtc_minute t), rtc_hour = CONV (rtc_hour t),
      rtc_day = CONV (rtc_day t), rtc_month = CONV (rtc_month t), rtc_year = CONV (rtc_year t)\<rparr>"

definition cmostime :: "(nat \<Rightarrow> u8 \<Rightarrow> u8) \<Rightarrow> nat \<Rightarrow> rtcdate option" where
  "cmostime dev n =
     (let sb = cmos_read dev n CMOS_STATB; bcd = (sb AND push_bit 2 1 = 0) in
      Option.bind (cmos_loop dev (n + 1)) (\<lambda>t1.
      let t1 = (if bcd then conv_date t1 else t1) in
      Some (t1\<lparr>rtc_year := rtc_year t1 + 2000\<rparr>)))"

section \<open>The I/O interrupt controller\<close>

record ioapic =
  io_sel :: u32
  io_regs :: "u32 \<Rightarrow> u32"

definition ioapicread :: "u32 \<Rightarrow> ioapic \<Rightarrow> u32 \<times> ioapic" where
  "ioapicread r d = (let d = d\<lparr>io_sel := r\<rparr> in (io_regs d (io_sel d), d))"

definition ioapicwrite :: "u32 \<Rightarrow> u32 \<Rightarrow> ioapic \<Rightarrow> ioapic" where
  "ioapicwrite r v d = (let d = d\<lparr>io_sel := r\<rparr> in d\<lparr>io_regs := (io_regs d)(io_sel d := v)\<rparr>)"

text \<open>The boolean is whether the warning about the identifier is printed.\<close>

definition ioapicinit :: "u8 \<Rightarrow> ioapic \<Rightarrow> bool \<times> ioapic" where
  "ioapicinit ioapicid d =
     (let (v, d) = ioapicread 0x01 d; maxintr = drop_bit 16 v AND 0xFF;
          (v, d) = ioapicread 0x00 d; i = drop_bit 24 v in
      (i \<noteq> ucast ioapicid,
       fold (\<lambda>i d. ioapicwrite (0x10 + 2 * of_nat i + 1) 0 (ioapicwrite (0x10 + 2 * of_nat i) (0x10000 OR (32 + of_nat i)) d))
         [0..<Suc (unat maxintr)] d))"

definition ioapicenable :: "u32 \<Rightarrow> u32 \<Rightarrow> ioapic \<Rightarrow> ioapic" where
  "ioapicenable irq cpunum d =
     (let d = ioapicwrite (0x10 + 2 * irq) (32 + irq) d in
      ioapicwrite (0x10 + 2 * irq + 1) (push_bit 24 cpunum) d)"

section \<open>The old interrupt controllers\<close>

definition picinit :: "dev_event list" where
  "picinit = [Outb (0x20 + 1) 0xFF, Outb (0xA0 + 1) 0xFF]"

section \<open>The time that is read\<close>

lemma cmos_loop_ends:
  assumes "\<And>k. N \<le> k \<Longrightarrow> dev k = c" "ucast (c CMOS_STATA) AND CMOS_UIP = 0"
  shows "\<exists>k \<ge> n. cmos_loop dev n = Some (fill_rtcdate dev k) \<and> fill_rtcdate dev (k + 7) = fill_rtcdate dev k \<and>
    cmos_read dev (k + 6) CMOS_STATA AND CMOS_UIP = 0"
proof (induction "N - n" arbitrary: n rule: less_induct)
  case less
  let ?uip = "cmos_read dev (n + 6) CMOS_STATA AND CMOS_UIP \<noteq> 0"
  let ?same = "fill_rtcdate dev n = fill_rtcdate dev (n + 7)"
  show ?case
  proof (cases "\<not> ?uip \<and> ?same")
    case True
    then have "cmos_loop dev n = Some (fill_rtcdate dev n)" by (subst cmos_loop.simps) (simp add: Let_def)
    with True show ?thesis by (intro exI [of _ n]) auto
  next
    case False
    have "n < N"
    proof (rule ccontr)
      assume "\<not> n < N"
      then have "dev k = c" if "n \<le> k" for k using that assms(1) by simp
      then have "\<not> ?uip \<and> ?same" using assms(2) by (simp add: cmos_read_def fill_rtcdate_def del: CMOS_UIP_def CMOS_STATA_def)
      with False show False by blast
    qed
    define n' where "n' = (if ?uip then n + 7 else n + 13)"
    have "cmos_loop dev n = cmos_loop dev n'" using False by (subst cmos_loop.simps) (auto simp: Let_def n'_def)
    moreover have "N - n' < N - n" "n \<le> n'" using \<open>n < N\<close> by (auto simp: n'_def)
    ultimately show ?thesis using less [of n'] order_trans by metis
  qed
qed

text \<open>Two decimal digits, one in each half of the byte.\<close>

lemma CONV_nat:
  assumes "n < 256"
  shows "CONV (of_nat n) = of_nat (n div 16 * 10 + n mod 16)"
proof -
  have x: "unat (of_nat n :: u32) = n" using assms by (simp add: unat_of_nat)
  have "unat (drop_bit 4 (of_nat n :: u32)) = n div 16" by (simp add: drop_bit_eq_div unat_div x)
  then have 1: "drop_bit 4 (of_nat n :: u32) = of_nat (n div 16)" using assms by (simp add: word_unat_eq_iff unat_of_nat)
  have m: "of_nat n AND 0xf = take_bit 4 (of_nat n :: u32)" by (simp add: take_bit_eq_mask mask_eq_exp_minus_1)
  have "unat (of_nat n AND 0xf :: u32) = n mod 16" unfolding m unsigned_take_bit_eq x by (simp add: take_bit_eq_mod)
  then have 2: "of_nat n AND 0xf = (of_nat (n mod 16) :: u32)" using assms by (simp add: word_unat_eq_iff unat_of_nat)
  show ?thesis unfolding CONV_def 1 2 by simp
qed

lemma CONV_bcd:
  assumes "v < 100"
  shows "CONV (of_nat (16 * (v div 10) + v mod 10)) = of_nat v"
proof -
  have "v div 10 < 10" "v mod 10 < 10" using assms by (simp_all add: div_less_iff_less_mult)
  then have "16 * (v div 10) + v mod 10 < 256" "(16 * (v div 10) + v mod 10) div 16 = v div 10"
    "(16 * (v div 10) + v mod 10) mod 16 = v mod 10" by simp_all
  then show ?thesis by (simp only: CONV_nat) simp
qed



end
