(* ===== verification/Kmain.thy ===== *)
theory Kmain
  imports Trap Mp Segments Apic
begin

text \<open>
  The start of the kernel (\<open>main.c\<close>): \<open>main\<close> composes the initialisation of all components, \<open>startothers\<close> starts the
  other processors. The machine is the kernel's state, the processors found, the descriptor tables of
  the boot processor, the I/O interrupt controller, and the events at the other devices. What the hardware answers and
  where the linker has placed things is the record \<open>boot_env\<close>.
\<close>

record machine =
  kern :: kernel
  minfo :: mpinfo
  cseg :: cpuseg
  idt :: "gatedesc list"
  ioap :: ioapic
  evs :: "dev_event list"

record boot_env =
  be_imcr :: u8
  be_ver :: u32
  be_icr :: "nat \<Rightarrow> u32"
  be_lsr :: u8
  be_disk1 :: bool
  be_self :: nat
  be_started :: "nat \<Rightarrow> bool"
  be_gdt :: u32
  be_idt :: u32
  be_vectors :: "u32 list"
  be_entryother :: u32
  be_entryother_size :: u32
  be_mpenter :: u32
  be_entrypgdir :: u32
  be_initcode :: u32
  be_initcode_size :: u32

section \<open>The boot page table\<close>

definition PTE_PS :: u32 where [const_defs]: "PTE_PS = 0x080"

definition entrypgdir :: "u32 list" where
  "entrypgdir = (replicate NPDENTRIES 0)[0 := PTE_P OR PTE_W OR PTE_PS,
     unat (drop_bit PDXSHIFT KERNBASE) := PTE_P OR PTE_W OR PTE_PS]"

text \<open>The translation of an address by a directory of 4-megabyte pages.\<close>

definition big_translate :: "u32 list \<Rightarrow> u32 \<Rightarrow> u32 option" where
  "big_translate d va =
     (let pde = d ! unat (PDX va) in
      if bit pde 0 \<and> bit pde 7 then Some ((pde AND 0xFFC00000) OR (va AND 0x3FFFFF)) else None)"

section \<open>The other processors\<close>

definition relabel :: "(unit, 'a) res \<Rightarrow> (kernel, 'a) res" where
  "relabel r = (case r of Ok x \<Rightarrow> Ok x | Panic m \<Rightarrow> Panic m | Undef m \<Rightarrow> Undef m | Hang \<Rightarrow> Hang | Block _ \<Rightarrow> Hang)"

definition of_option :: "'a option \<Rightarrow> (kernel, 'a) res" where
  "of_option r = (case r of None \<Rightarrow> Hang | Some x \<Rightarrow> Ok x)"

definition AP_CODE :: u32 where [simp, const_defs]: "AP_CODE = P2V 0x7000"

fun start_each :: "boot_env \<Rightarrow> (nat \<times> u8) list \<Rightarrow> kernel \<Rightarrow> dev_event list kres" where
  "start_each e [] s = Ok ([], s)"
| "start_each e ((c, apicid) # cs) s =
     (if c = be_self e then start_each e cs s
      else
        rbind (kalloc s) (\<lambda>(stack, s).
        let m = store32 (mem s) (AP_CODE - 4) (stack + KSTACKSIZE);
            m = store32 m (AP_CODE - 8) (be_mpenter e);
            m = store32 m (AP_CODE - 12) (V2P (be_entrypgdir e));
            ev = lapicstartap apicid (V2P AP_CODE) in
        if \<not> be_started e c then Hang
        else rbind (start_each e cs (s\<lparr>mem := m\<rparr>)) (\<lambda>(evs, s). Ok (ev @ evs, s))))"

definition startothers :: "boot_env \<Rightarrow> mpinfo \<Rightarrow> kernel \<Rightarrow> dev_event list kres" where
  "startothers e mi s =
     (let s = s\<lparr>mem := memmove (mem s) AP_CODE (be_entryother e) (be_entryother_size e)\<rparr> in
      start_each e (zip [0..<mp_ncpu mi] (mp_apicids mi)) s)"

section \<open>\<open>main\<close>\<close>

text \<open>The I/O interrupt controller through \<open>main\<close>: \<open>ioapicinit\<close>, and the lines that \<open>consoleinit\<close>, \<open>uartinit\<close> and
  \<open>ideinit\<close> enable.\<close>

definition boot_ioapic :: "u8 \<Rightarrow> u8 \<Rightarrow> nat \<Rightarrow> ioapic \<Rightarrow> ioapic" where
  "boot_ioapic ioapicid lsr n d =
     (let d = snd (ioapicinit ioapicid d);
          d = ioapicenable 1 0 d;
          d = (if lsr = 0xFF then d else ioapicenable 4 0 d) in
      ioapicenable 14 (of_int (int n - 1)) d)"

definition mpmain :: "boot_env \<Rightarrow> machine \<Rightarrow> (kernel, nat option \<times> machine) res" where
  "mpmain e m =
     rbind (cprintf (chars ''cpu%d: starting %d'' @ [10]) [AInt (of_nat (be_self e)), AInt (of_nat (be_self e))] (kern m)) (\<lambda>s.
     let m = m\<lparr>cseg := idtinit (be_idt e) (cseg m)\<rparr> in
     rbind (scheduler s) (\<lambda>(p, s). Ok (p, m\<lparr>kern := s\<rparr>)))"

definition mpenter :: "boot_env \<Rightarrow> machine \<Rightarrow> (kernel, nat option \<times> machine) res" where
  "mpenter e m =
     (let m = m\<lparr>kern := switchkvm (kern m), cseg := seginit (be_gdt e) (cseg m)\<rparr> in
      rbind (of_option (lapicinit (mp_lapic (minfo m)) (be_ver e) (be_icr e))) (\<lambda>ev.
      mpmain e (m\<lparr>evs := evs m @ ev\<rparr>)))"

definition init_devices :: "boot_env \<Rightarrow> machine \<Rightarrow> machine" where
  "init_devices e m =
     (let s = consoleinit (kern m); s = uartinit (be_lsr e) s; s = pinit s; s = tvinit s; s = binit s; s = fileinit s;
          s = ideinit (be_disk1 e) s in
      m\<lparr>kern := s, idt := tvinit_idt (be_vectors e) (idt m),
        ioap := boot_ioapic (mp_ioapicid (minfo m)) (be_lsr e) (mp_ncpu (minfo m)) (ioap m)\<rparr>)"

definition kmain :: "boot_env \<Rightarrow> machine \<Rightarrow> (kernel, nat option \<times> machine) res" where
  "kmain e m =
     rbind (kinit1 (k_end (kern m)) (P2V 0x400000) (kern m)) (\<lambda>s.
     rbind (kvmalloc s) (\<lambda>s.
     rbind (relabel (mpinit (mem s) (be_imcr e) (minfo m))) (\<lambda>(mi, out).
     rbind (of_option (lapicinit (mp_lapic mi) (be_ver e) (be_icr e))) (\<lambda>ev.
     let m = m\<lparr>kern := s, minfo := mi, cseg := seginit (be_gdt e) (cseg m),
               evs := evs m @ map (\<lambda>(p, b). Outb p b) out @ ev @ picinit\<rparr> in
     rbind (if fst (ioapicinit (mp_ioapicid mi) (ioap m))
            then cprintf (chars ''ioapicinit: id isn't equal to ioapicid; not a MP'' @ [10]) [] s else Ok s) (\<lambda>s.
     let m = init_devices e (m\<lparr>kern := s\<rparr>) in
     rbind (startothers e mi (kern m)) (\<lambda>(ev, s).
     rbind (kinit2 (P2V 0x400000) (P2V PHYSTOP) s) (\<lambda>s.
     rbind (userinit (be_initcode e) (be_initcode_size e) s) (\<lambda>s.
     mpmain e (m\<lparr>kern := s, evs := evs m @ ev\<rparr>)))))))))"

section \<open>What the boot page table maps\<close>

lemma entry_pde: "PTE_P OR PTE_W OR PTE_PS = (0x83 :: u32)"
  by (simp add: const_defs)

lemma low_bits22: "(w :: u32) AND 0x3FFFFF = take_bit 22 w"
  by (simp add: take_bit_eq_mask mask_eq_exp_minus_1)

text \<open>The first four megabytes are mapped at 0, where the boot code runs, and at \<open>KERNBASE\<close>, where it jumps to.\<close>

lemma entrypgdir_maps:
  assumes "unat va < 0x400000"
  shows "big_translate entrypgdir va = Some va" "big_translate entrypgdir (va + KERNBASE) = Some va"
proof -
  have u: "unat (va + KERNBASE) = unat va + 2147483648" using assms by (simp add: unat_word_ariths(1))
  have i: "unat (PDX va) = 0" "unat (PDX (va + KERNBASE)) = 512"
    unfolding unat_PDX u using assms by simp_all
  have d: "entrypgdir ! 0 = 0x83" "entrypgdir ! 512 = 0x83"
    by (simp_all add: entrypgdir_def entry_pde nth_list_update)
  have "unat (take_bit 22 va) = unat va" "unat (take_bit 22 (va + KERNBASE)) = unat va"
    unfolding unsigned_take_bit_eq u using assms mod_mult_self1 [of "unat va" 512 4194304] by (simp_all add: take_bit_eq_mod)
  then have "take_bit 22 va = va" "take_bit 22 (va + KERNBASE) = va" unfolding word_unat_eq_iff by simp_all
  then show "big_translate entrypgdir va = Some va" "big_translate entrypgdir (va + KERNBASE) = Some va"
    unfolding big_translate_def i Let_def d low_bits22 by simp_all
qed

section \<open>Interrupts after \<open>main\<close>\<close>

lemma table_index: "i < 512 \<Longrightarrow> j < 512 \<Longrightarrow> (0x10 + 2 * of_nat i :: u32) = 0x10 + 2 * of_nat j \<longleftrightarrow> i = j"
  "i < 512 \<Longrightarrow> j < 512 \<Longrightarrow> (0x10 + 2 * of_nat i :: u32) \<noteq> 0x10 + 2 * of_nat j + 1"
proof -
  assume *: "i < 512" "j < 512"
  then have u: "unat (0x10 + 2 * of_nat i :: u32) = 16 + 2 * i" "unat (0x10 + 2 * of_nat j :: u32) = 16 + 2 * j"
    "unat (0x10 + 2 * of_nat j + 1 :: u32) = 17 + 2 * j"
    by (simp_all add: unat_word_ariths unat_of_nat)
  show "(0x10 + 2 * of_nat i :: u32) = 0x10 + 2 * of_nat j \<longleftrightarrow> i = j"
    unfolding word_unat_eq_iff u by simp
  show "(0x10 + 2 * of_nat i :: u32) \<noteq> 0x10 + 2 * of_nat j + 1"
    unfolding word_unat_eq_iff u by presburger
qed

lemma ioapicenable_low:
  assumes "i < 256" "j < 256"
  shows "io_regs (ioapicenable (of_nat j) c d) (0x10 + 2 * of_nat i) =
    (if i = j then 32 + of_nat j else io_regs d (0x10 + 2 * of_nat i))"
  using assms table_index [of i j] by (simp add: ioapicenable_def ioapicwrite_def Let_def)

lemma ioapic_fold_low:
  assumes "n \<le> 256" "i < 256"
  shows "io_regs (fold (\<lambda>i d. ioapicwrite (0x10 + 2 * of_nat i + 1) 0 (ioapicwrite (0x10 + 2 * of_nat i) (0x10000 OR (32 + of_nat i)) d)) [0..<n] d)
      (0x10 + 2 * of_nat i) = (if i < n then 0x10000 OR (32 + of_nat i) else io_regs d (0x10 + 2 * of_nat i))"
  using assms(1)
proof (induction n)
  case (Suc n)
  then show ?case using table_index [of i n] assms(2) by (auto simp: ioapicwrite_def Let_def less_Suc_eq)
qed simp

text \<open>C33 [boot_interrupts]: after \<open>main\<close> has initialised the devices, of the lines the I/O interrupt controller has, exactly
  those of the keyboard, of the disk, and of the serial port if there is one, are enabled; each delivers the vector
  that \<open>trap\<close> expects for it.\<close>

theorem boot_interrupts:
  assumes "i \<le> unat (drop_bit 16 (io_regs d 1) AND 0xFF)"
  shows "let r = io_regs (boot_ioapic ioapicid lsr n d) (0x10 + 2 * of_nat i) in
    r AND 0xFF = (32 + of_nat i) AND 0xFF \<and> (\<not> bit r 16 \<longleftrightarrow> i = 1 \<or> i = 14 \<or> (i = 4 \<and> lsr \<noteq> 0xFF))"
proof -
  let ?max = "unat (drop_bit 16 (io_regs d 1) AND 0xFF)"
  have "?max \<le> 255" using word_and_le1 [of "drop_bit 16 (io_regs d 1)" "0xFF"] by (simp add: word_le_nat_alt)
  then have b: "i < 256" "Suc ?max \<le> 256" using assms by simp_all
  define a :: u32 where "a = 0x10 + 2 * of_nat i"
  define x where "x = snd (ioapicinit ioapicid d)"
  have x: "io_regs x a = 0x10000 OR (32 + of_nat i)"
    using ioapic_fold_low [OF b(2,1), of "d\<lparr>io_sel := 0\<rparr>"] assms
    unfolding x_def a_def ioapicinit_def ioapicread_def Let_def by (simp add: less_Suc_eq_le del: upt_Suc)
  have e: "io_regs (ioapicenable 14 c y) a = (if i = 14 then 46 else io_regs y a)"
    "io_regs (ioapicenable 4 c y) a = (if i = 4 then 36 else io_regs y a)"
    "io_regs (ioapicenable 1 c y) a = (if i = 1 then 33 else io_regs y a)" for c y
    using ioapicenable_low [OF b(1), of 14 c y] ioapicenable_low [OF b(1), of 4 c y] ioapicenable_low [OF b(1), of 1 c y]
    unfolding a_def by simp_all
  have r: "io_regs (boot_ioapic ioapicid lsr n d) a =
    (if i = 14 then 46 else if i = 4 \<and> lsr \<noteq> 0xFF then 36 else if i = 1 then 33 else 0x10000 OR (32 + of_nat i))"
    unfolding boot_ioapic_def x_def [symmetric] Let_def by (simp add: e x)
  have m: "(0xFF :: u32) = mask 8" and p: "(0x10000 :: u32) = push_bit 16 1" by (simp_all add: mask_eq_exp_minus_1)
  have nb: "\<not> bit (0x10000 :: u32) k" if "k < 8" for k unfolding p bit_push1 using that by simp
  have "(0x10000 OR (32 + of_nat i)) AND 0xFF = (32 + of_nat i) AND (0xFF :: u32)"
    unfolding m
  proof (rule bit_word_eqI)
    fix k
    show "bit ((0x10000 OR (32 + of_nat i)) AND mask 8 :: u32) k = bit ((32 + of_nat i) AND mask 8 :: u32) k"
      using nb [of k] unfolding bit_and_iff bit_or_iff bit_mask_iff by blast
  qed
  moreover have "bit (0x10000 OR (32 + of_nat i) :: u32) 16" by (simp add: bit_or_iff)
  ultimately show ?thesis unfolding a_def [symmetric] r Let_def by simp
qed

theorem boot_interrupts_witness:
  "let d = boot_ioapic 0 0xFF 1 \<lparr>io_sel = 0, io_regs = (\<lambda>_. 0)(1 := 0x170000)\<rparr> in
   \<not> bit (io_regs d (0x10 + 2 * of_nat 1)) 16 \<and> bit (io_regs d (0x10 + 2 * of_nat 4)) 16"
  using boot_interrupts [of 1 "\<lparr>io_sel = 0, io_regs = (\<lambda>_. 0)(1 := 0x170000)\<rparr>" 0 "0xFF" 1]
    boot_interrupts [of 4 "\<lparr>io_sel = 0, io_regs = (\<lambda>_. 0)(1 := 0x170000)\<rparr>" 0 "0xFF" 1]
  by (simp add: Let_def)

end
