(* ===== verification/Swtch.thy ===== *)
theory Swtch
  imports Kstate
begin

text \<open>
  The assembly code that changes stacks: the context switch (\<open>swtch.S\<close>), the entry points that \<open>vectors.pl\<close>
  generates, and the entry and exit of traps (\<open>trapasm.S\<close>). An instruction is a function on the registers and
  the memory. What the processor itself pushes at a trap and pops in \<open>iret\<close> is \<open>hw_trap\<close> and \<open>iret\<close>, for a
  trap that crosses from user mode.
\<close>

section \<open>Registers and the stack\<close>

record regs =
  eax :: u32
  ebx :: u32
  ecx :: u32
  edx :: u32
  esi :: u32
  edi :: u32
  ebp :: u32
  esp :: u32
  eip :: u32
  eflags :: u32
  r_cs :: u16
  r_ds :: u16
  r_es :: u16
  r_fs :: u16
  r_gs :: u16
  r_ss :: u16

type_synonym asm_state = "regs \<times> memory"

definition pushl :: "u32 \<Rightarrow> asm_state \<Rightarrow> asm_state" where
  "pushl v = (\<lambda>(r, m). (r\<lparr>esp := esp r - 4\<rparr>, store32 m (esp r - 4) v))"

definition popl :: "(u32 \<Rightarrow> regs \<Rightarrow> regs) \<Rightarrow> asm_state \<Rightarrow> asm_state" where
  "popl f = (\<lambda>(r, m). (f (load32 m (esp r)) (r\<lparr>esp := esp r + 4\<rparr>), m))"

definition push_reg :: "(regs \<Rightarrow> u32) \<Rightarrow> asm_state \<Rightarrow> asm_state" where
  "push_reg f s = pushl (f (fst s)) s"

definition set_edi :: "u32 \<Rightarrow> regs \<Rightarrow> regs" where "set_edi v r = r\<lparr>edi := v\<rparr>"
definition set_esi :: "u32 \<Rightarrow> regs \<Rightarrow> regs" where "set_esi v r = r\<lparr>esi := v\<rparr>"
definition set_ebp :: "u32 \<Rightarrow> regs \<Rightarrow> regs" where "set_ebp v r = r\<lparr>ebp := v\<rparr>"
definition set_ebx :: "u32 \<Rightarrow> regs \<Rightarrow> regs" where "set_ebx v r = r\<lparr>ebx := v\<rparr>"
definition set_ecx :: "u32 \<Rightarrow> regs \<Rightarrow> regs" where "set_ecx v r = r\<lparr>ecx := v\<rparr>"
definition set_edx :: "u32 \<Rightarrow> regs \<Rightarrow> regs" where "set_edx v r = r\<lparr>edx := v\<rparr>"
definition set_eax :: "u32 \<Rightarrow> regs \<Rightarrow> regs" where "set_eax v r = r\<lparr>eax := v\<rparr>"
definition set_eip :: "u32 \<Rightarrow> regs \<Rightarrow> regs" where "set_eip v r = r\<lparr>eip := v\<rparr>"
definition set_gs :: "u32 \<Rightarrow> regs \<Rightarrow> regs" where "set_gs v r = r\<lparr>r_gs := ucast v\<rparr>"
definition set_fs :: "u32 \<Rightarrow> regs \<Rightarrow> regs" where "set_fs v r = r\<lparr>r_fs := ucast v\<rparr>"
definition set_es :: "u32 \<Rightarrow> regs \<Rightarrow> regs" where "set_es v r = r\<lparr>r_es := ucast v\<rparr>"
definition set_ds :: "u32 \<Rightarrow> regs \<Rightarrow> regs" where "set_ds v r = r\<lparr>r_ds := ucast v\<rparr>"
definition set_cs :: "u32 \<Rightarrow> regs \<Rightarrow> regs" where "set_cs v r = r\<lparr>r_cs := ucast v\<rparr>"

lemmas set_reg_defs = set_edi_def set_esi_def set_ebp_def set_ebx_def set_ecx_def set_edx_def set_eax_def
  set_eip_def set_gs_def set_fs_def set_es_def set_ds_def set_cs_def

section \<open>The context switch\<close>

definition swtch_save :: "asm_state \<Rightarrow> asm_state" where
  "swtch_save s =
     (let s = (\<lambda>(r, m). (r\<lparr>eax := load32 m (esp r + 4)\<rparr>, m)) s;
          s = (\<lambda>(r, m). (r\<lparr>edx := load32 m (esp r + 8)\<rparr>, m)) s;
          s = push_reg ebp s; s = push_reg ebx s; s = push_reg esi s; s = push_reg edi s in
      (\<lambda>(r, m). (r, store32 m (eax r) (esp r))) s)"

definition swtch_load :: "asm_state \<Rightarrow> asm_state" where
  "swtch_load s =
     (let s = (\<lambda>(r, m). (r\<lparr>esp := edx r\<rparr>, m)) s;
          s = popl set_edi s; s = popl set_esi s; s = popl set_ebx s; s = popl set_ebp s in
      popl set_eip s)"

definition swtch :: "asm_state \<Rightarrow> asm_state" where
  "swtch s = swtch_load (swtch_save s)"

text \<open>\<open>struct context\<close> in memory, in the order of \<open>proc.h\<close>.\<close>

definition context_at :: "memory \<Rightarrow> u32 \<Rightarrow> kcontext" where
  "context_at m a = \<lparr>ctx_edi = load32 m a, ctx_esi = load32 m (a + 4), ctx_ebx = load32 m (a + 8),
     ctx_ebp = load32 m (a + 12), ctx_eip = load32 m (a + 16)\<rparr>"

section \<open>Entry and exit of traps\<close>

text \<open>The processor takes the stack from the task state (\<open>kss\<close>, \<open>kesp\<close>) and pushes the user's state; \<open>err\<close> is the error
  code that some traps push.\<close>

definition has_err :: "nat \<Rightarrow> bool" where
  "has_err i \<longleftrightarrow> i = 8 \<or> (i \<ge> 10 \<and> i \<le> 14) \<or> i = 17"

definition hw_trap :: "nat \<Rightarrow> u32 \<Rightarrow> u16 \<Rightarrow> u32 \<Rightarrow> asm_state \<Rightarrow> asm_state" where
  "hw_trap i err kss kesp s =
     (let r = fst s; s = (r\<lparr>esp := kesp, r_ss := kss\<rparr>, snd s);
          s = pushl (ucast (r_ss r)) s; s = pushl (esp r) s; s = pushl (eflags r) s;
          s = pushl (ucast (r_cs r)) s; s = pushl (eip r) s in
      if has_err i then pushl err s else s)"

text \<open>The code \<open>vectors.pl\<close> writes for entry point \<open>i\<close>.\<close>

definition vector :: "nat \<Rightarrow> asm_state \<Rightarrow> asm_state" where
  "vector i s =
     (let s = (if \<not> (i = 8 \<or> (i \<ge> 10 \<and> i \<le> 14) \<or> i = 17) then pushl 0 s else s) in
      pushl (of_nat i) s)"

definition pushal :: "asm_state \<Rightarrow> asm_state" where
  "pushal s =
     (let e = esp (fst s); s = push_reg eax s; s = push_reg ecx s; s = push_reg edx s; s = push_reg ebx s;
          s = pushl e s; s = push_reg ebp s; s = push_reg esi s in
      push_reg edi s)"

definition popal :: "asm_state \<Rightarrow> asm_state" where
  "popal s =
     (let s = popl set_edi s; s = popl set_esi s; s = popl set_ebp s; s = popl (\<lambda>_ r. r) s;
          s = popl set_ebx s; s = popl set_edx s; s = popl set_ecx s in
      popl set_eax s)"

text \<open>\<open>alltraps\<close> up to the call of \<open>trap\<close>, whose argument is the stack pointer.\<close>

definition alltraps :: "asm_state \<Rightarrow> asm_state" where
  "alltraps s =
     (let s = push_reg (\<lambda>r. ucast (r_ds r)) s; s = push_reg (\<lambda>r. ucast (r_es r)) s;
          s = push_reg (\<lambda>r. ucast (r_fs r)) s; s = push_reg (\<lambda>r. ucast (r_gs r)) s;
          s = pushal s in
      (\<lambda>(r, m). (r\<lparr>eax := (eax r AND 0xffff0000) OR 16, r_ds := 16, r_es := 16\<rparr>, m)) s)"

text \<open>\<open>iret\<close> to user mode.\<close>

definition iret :: "asm_state \<Rightarrow> asm_state" where
  "iret s =
     (let s = popl set_eip s; s = popl set_cs s; s = popl (\<lambda>v r. r\<lparr>eflags := v\<rparr>) s in
      (\<lambda>(r, m). (r\<lparr>esp := load32 m (esp r), r_ss := ucast (load32 m (esp r + 4))\<rparr>, m)) s)"

definition trapret :: "asm_state \<Rightarrow> asm_state" where
  "trapret s =
     (let s = popal s; s = popl set_gs s; s = popl set_fs s; s = popl set_es s; s = popl set_ds s;
          s = (\<lambda>(r, m). (r\<lparr>esp := esp r + 8\<rparr>, m)) s in
      iret s)"

text \<open>\<open>struct trapframe\<close> in memory, in the order of \<open>x86.h\<close>.\<close>

definition trapframe_at :: "memory \<Rightarrow> u32 \<Rightarrow> trapframe" where
  "trapframe_at m a =
     \<lparr>tf_edi = load32 m a, tf_esi = load32 m (a + 4), tf_ebp = load32 m (a + 8), tf_oesp = load32 m (a + 12),
      tf_ebx = load32 m (a + 16), tf_edx = load32 m (a + 20), tf_ecx = load32 m (a + 24), tf_eax = load32 m (a + 28),
      tf_gs = ucast (load32 m (a + 32)), tf_fs = ucast (load32 m (a + 36)), tf_es = ucast (load32 m (a + 40)),
      tf_ds = ucast (load32 m (a + 44)), tf_trapno = load32 m (a + 48), tf_err = load32 m (a + 52),
      tf_eip = load32 m (a + 56), tf_cs = ucast (load32 m (a + 60)), tf_eflags = load32 m (a + 64),
      tf_esp = load32 m (a + 68), tf_ss = ucast (load32 m (a + 72))\<rparr>"

section \<open>Words on the stack\<close>

definition words_at :: "memory \<Rightarrow> u32 \<Rightarrow> u32 list \<Rightarrow> bool" where
  "words_at m a ws \<longleftrightarrow> (\<forall>i < length ws. load32 m (a + of_nat (4 * i)) = ws ! i)"

definition apart :: "u32 \<Rightarrow> nat \<Rightarrow> u32 \<Rightarrow> nat \<Rightarrow> bool" where
  "apart a n b k \<longleftrightarrow> (\<forall>i < n. \<not> in_range b k (a + of_nat i))"

lemma words_at_Nil [simp]: "words_at m a []"
  by (simp add: words_at_def)

lemma words_at_Cons: "words_at m a (w # ws) \<longleftrightarrow> load32 m a = w \<and> words_at m (a + 4) ws"
  by (auto simp: words_at_def less_Suc_eq_0_disj all_conj_distrib algebra_simps nth_Cons')

lemma words_at_store:
  assumes "words_at m a ws" "apart a (4 * length ws) b 4"
  shows "words_at (store32 m b v) a ws"
  unfolding words_at_def
proof (intro allI impI)
  fix i assume i: "i < length ws"
  have "load32 (store32 m b v) (a + of_nat (4 * i)) = load32 m (a + of_nat (4 * i))"
  proof (rule load32_store32_disjoint)
    fix k :: nat assume "k < 4"
    with i have "4 * i + k < 4 * length ws" by simp
    with assms(2) have "\<not> in_range b 4 (a + of_nat (4 * i + k))" unfolding apart_def by blast
    then show "\<not> in_range b 4 (a + of_nat (4 * i) + of_nat k)" by (simp add: add.assoc)
  qed
  with assms(1) i show "load32 (store32 m b v) (a + of_nat (4 * i)) = ws ! i" by (simp add: words_at_def)
qed

lemma unat_of_nat_small: "n < 2 ^ 32 \<Longrightarrow> unat (of_nat n :: u32) = n"
  by (simp add: unsigned_of_nat take_bit_eq_mod)

lemma push_words:
  assumes "words_at m a ws" "4 * length ws + 4 \<le> 2 ^ 32"
  shows "words_at (store32 m (a - 4) v) (a - 4) (v # ws)"
proof -
  have "apart a (4 * length ws) (a - 4) 4"
    unfolding apart_def in_range_def
  proof (intro allI impI)
    fix i assume "i < 4 * length ws"
    then have "unat (of_nat (i + 4) :: u32) = i + 4"
      using assms(2) by (intro unat_of_nat_small) linarith
    then show "\<not> unat (a + of_nat i - (a - 4)) < 4" by (simp add: algebra_simps)
  qed
  with assms(1) show ?thesis by (simp add: words_at_Cons words_at_store)
qed

definition top :: "asm_state \<Rightarrow> u32 list \<Rightarrow> bool" where
  "top s ws \<longleftrightarrow> words_at (snd s) (esp (fst s)) ws"

lemma top_push: "v = w \<Longrightarrow> length ws \<le> 100 \<Longrightarrow> top s ws \<Longrightarrow> top (pushl v s) (w # ws)"
  by (cases s) (simp add: top_def pushl_def push_words)

lemma top_push_reg: "f (fst s) = w \<Longrightarrow> length ws \<le> 100 \<Longrightarrow> top s ws \<Longrightarrow> top (push_reg f s) (w # ws)"
  unfolding push_reg_def by (rule top_push)

lemma pushl_regs [simp]:
  "fst (pushl v s) = (fst s)\<lparr>esp := esp (fst s) - 4\<rparr>" "fst (push_reg f s) = (fst s)\<lparr>esp := esp (fst s) - 4\<rparr>"
  by (simp_all add: pushl_def push_reg_def split: prod.split)

lemma popl_simps [simp]: "popl f (r, m) = (f (load32 m (esp r)) (r\<lparr>esp := esp r + 4\<rparr>), m)"
  by (simp add: popl_def)

section \<open>A switch there and back\<close>

text \<open>The registers and the stack at a call \<open>swtch(old, new)\<close>: the return address is on top of the stack, the
  arguments above it. The context at \<open>new\<close> is not where the registers will be pushed, and the
  variable \<open>*old\<close> lies outside both.\<close>

definition swtch_call :: "u32 \<Rightarrow> u32 \<Rightarrow> asm_state \<Rightarrow> bool" where
  "swtch_call old new s \<longleftrightarrow>
     (let sp = esp (fst s) in
      load32 (snd s) (sp + 4) = old \<and> load32 (snd s) (sp + 8) = new \<and>
      apart new 20 (sp - 16) 16 \<and> apart new 20 old 4 \<and> apart (sp - 16) 20 old 4)"

lemma words_at_context:
  "words_at m a [ctx_edi c, ctx_esi c, ctx_ebx c, ctx_ebp c, ctx_eip c] \<longleftrightarrow> context_at m a = c"
  by (cases c) (auto simp: words_at_Cons context_at_def ac_simps)

lemma in_range_sub:
  assumes "in_range (a + of_nat j) n x" "j + n \<le> k" "k \<le> 2 ^ 32"
  shows "in_range a k x"
proof -
  have "x - a = (x - (a + of_nat j)) + of_nat j" by simp
  then have "unat (x - a) \<le> unat (x - (a + of_nat j)) + unat (of_nat j :: u32)"
    by (metis mod_less_eq_dividend unat_word_ariths(1))
  moreover have "unat (of_nat j :: u32) \<le> j" by (simp add: unat_of_nat)
  ultimately show ?thesis using assms unfolding in_range_def by linarith
qed

lemma apart_sub: "apart a i b k \<Longrightarrow> j + n \<le> k \<Longrightarrow> k \<le> 2 ^ 32 \<Longrightarrow> apart a i (b + of_nat j) n"
  using in_range_sub unfolding apart_def by blast

lemma swtch_save_eq:
  assumes "swtch_call old new (r, m)"
  shows "\<exists>r' m'. swtch_save (r, m) = (r', m') \<and> edx r' = new \<and>
    words_at m' (esp r - 16) [edi r, esi r, ebx r, ebp r, load32 m (esp r)] \<and> load32 m' old = esp r - 16 \<and>
    context_at m' new = context_at m new"
proof -
  let ?sp = "esp r" and ?c = "context_at m new"
  let ?m = "store32 (store32 (store32 (store32 m (?sp - 4) (ebp r)) (?sp - 8) (ebx r)) (?sp - 12) (esi r)) (?sp - 16) (edi r)"
  let ?ws = "[ctx_edi ?c, ctx_esi ?c, ctx_ebx ?c, ctx_ebp ?c, ctx_eip ?c]"
  have a: "apart new 20 (?sp - 16) 16" "apart new 20 old 4" "apart (?sp - 16) 20 old 4"
    "load32 m (?sp + 4) = old" "load32 m (?sp + 8) = new"
    using assms by (simp_all add: swtch_call_def Let_def)
  have ap: "apart new 20 (?sp - 4) 4" "apart new 20 (?sp - 8) 4" "apart new 20 (?sp - 12) 4" "apart new 20 (?sp - 16) 4"
    using apart_sub [OF a(1), of 12 4] apart_sub [OF a(1), of 8 4] apart_sub [OF a(1), of 4 4] apart_sub [OF a(1), of 0 4]
    by simp_all
  have "words_at m new ?ws" by (simp add: words_at_context)
  then have "words_at ?m new ?ws" using ap by (simp add: words_at_store)
  then have n: "words_at (store32 ?m old x) new ?ws" for x using a(2) by (simp add: words_at_store)
  have "words_at m ?sp [load32 m ?sp]" by (simp add: words_at_Cons)
  from push_words [OF push_words [OF push_words [OF push_words [OF this, of "ebp r"], of "ebx r"], of "esi r"], of "edi r"]
  have "words_at ?m (?sp - 16) [edi r, esi r, ebx r, ebp r, load32 m ?sp]" by simp
  then have s: "words_at (store32 ?m old x) (?sp - 16) [edi r, esi r, ebx r, ebp r, load32 m ?sp]" for x
    using a(3) by (simp add: words_at_store)
  have "swtch_save (r, m) = (r\<lparr>eax := old, edx := new, esp := ?sp - 16\<rparr>, store32 ?m old (?sp - 16))"
    using a by (simp add: swtch_save_def push_reg_def pushl_def)
  moreover have "context_at (store32 ?m old (?sp - 16)) new = ?c" using n by (simp only: words_at_context)
  ultimately show ?thesis using s [of "?sp - 16"] by simp
qed

lemma swtch_load_eq:
  "swtch_load (r, m) =
     (let c = context_at m (edx r) in
      (r\<lparr>edi := ctx_edi c, esi := ctx_esi c, ebx := ctx_ebx c, ebp := ctx_ebp c, eip := ctx_eip c, esp := edx r + 20\<rparr>, m))"
  by (simp add: swtch_load_def context_at_def Let_def set_reg_defs ac_simps)

lemma swtch_eq:
  assumes "swtch_call old new (r, m)"
  shows "\<exists>r' m'. swtch (r, m) = (r', m') \<and> load32 m' old = esp r - 16 \<and>
    context_at m' (esp r - 16) = \<lparr>ctx_edi = edi r, ctx_esi = esi r, ctx_ebx = ebx r, ctx_ebp = ebp r, ctx_eip = load32 m (esp r)\<rparr> \<and>
    \<lparr>ctx_edi = edi r', ctx_esi = esi r', ctx_ebx = ebx r', ctx_ebp = ebp r', ctx_eip = eip r'\<rparr> = context_at m new \<and>
    esp r' = new + 20"
proof -
  from swtch_save_eq [OF assms] obtain r1 m1 where 1: "swtch_save (r, m) = (r1, m1)" "edx r1 = new"
    "words_at m1 (esp r - 16) [edi r, esi r, ebx r, ebp r, load32 m (esp r)]" "load32 m1 old = esp r - 16"
    "context_at m1 new = context_at m new" by blast
  moreover from 1(3) have "context_at m1 (esp r - 16) =
    \<lparr>ctx_edi = edi r, ctx_esi = esi r, ctx_ebx = ebx r, ctx_ebp = ebp r, ctx_eip = load32 m (esp r)\<rparr>"
    by (simp add: words_at_context [symmetric])
  ultimately show ?thesis
    by (simp add: swtch_def swtch_load_eq Let_def)
qed

text \<open>C29 [swtch_resumes]: a call \<open>swtch(old, new)\<close> leaves its own context at the address it stores in \<open>*old\<close>. Whenever
  someone later calls \<open>swtch\<close> with that address as \<open>new\<close>, and the saved context is still intact, the first call
  returns: to its caller, with the callee-saved registers and the stack pointer it was called with.\<close>

theorem swtch_resumes:
  assumes "swtch_call old new (r, m)" "swtch (r, m) = (r', m')"
    "swtch_call old2 (load32 m' old) (r2, m2)" "context_at m2 (load32 m' old) = context_at m' (load32 m' old)"
    "swtch (r2, m2) = (r3, m3)"
  shows "eip r3 = load32 m (esp r) \<and> esp r3 = esp r + 4 \<and> edi r3 = edi r \<and> esi r3 = esi r \<and> ebx r3 = ebx r \<and> ebp r3 = ebp r"
proof -
  have c: "load32 m' old = esp r - 16" "context_at m' (esp r - 16) =
    \<lparr>ctx_edi = edi r, ctx_esi = esi r, ctx_ebx = ebx r, ctx_ebp = ebp r, ctx_eip = load32 m (esp r)\<rparr>"
    using swtch_eq [OF assms(1)] assms(2) by auto
  have "\<lparr>ctx_edi = edi r3, ctx_esi = esi r3, ctx_ebx = ebx r3, ctx_ebp = ebp r3, ctx_eip = eip r3\<rparr> =
    context_at m2 (load32 m' old) \<and> esp r3 = load32 m' old + 20"
    using swtch_eq [OF assms(3)] assms(5) by auto
  with c assms(4) show ?thesis by simp
qed

lemma apartI:
  assumes "unat a + n \<le> unat b \<or> unat b + k \<le> unat a" "unat a + n \<le> 2 ^ 32" "unat b + k \<le> 2 ^ 32"
  shows "apart a n b k"
  unfolding apart_def
proof (intro allI impI)
  fix i assume i: "i < n"
  then have "unat (a + of_nat i) = unat a + i"
    using assms(2) by (simp add: unat_word_ariths unat_of_nat)
  then show "\<not> in_range b k (a + of_nat i)" using assms(1,3) i by (intro outside_range) linarith+
qed

definition sw_regs :: "u32 \<Rightarrow> regs" where
  "sw_regs sp = \<lparr>eax = 0, ebx = 11, ecx = 0, edx = 0, esi = 12, edi = 13, ebp = 14, esp = sp, eip = 0, eflags = 0x202,
     r_cs = 8, r_ds = 16, r_es = 16, r_fs = 0, r_gs = 0, r_ss = 16\<rparr>"

definition sw_args :: "u32 \<Rightarrow> u32 \<Rightarrow> u32 \<Rightarrow> u32 \<Rightarrow> memory \<Rightarrow> memory" where
  "sw_args sp ret old new m = store32 (store32 (store32 m (sp + 8) new) (sp + 4) old) sp ret"

lemma sw_args_words: "words_at (sw_args sp ret old new m) sp [ret, old, new]"
proof -
  have "words_at (store32 m (sp + 8) new) (sp + 8) [new]" by (simp add: words_at_Cons)
  from push_words [OF push_words [OF this, of old], of ret] show ?thesis by (simp add: sw_args_def add.commute)
qed

theorem swtch_resumes_witness:
  "\<exists>m' m2 r3 m3. swtch (sw_regs 0x80001000, sw_args 0x80001000 0x80101234 0x80003000 0x80002000 (\<lambda>_. 0)) = m' \<and>
     m2 = sw_args 0x80005000 0x80105678 0x80006000 0x80000ff0 (snd m') \<and>
     swtch (sw_regs 0x80005000, m2) = (r3, m3) \<and> eip r3 = 0x80101234 \<and> esp r3 = 0x80001004 \<and> ebx r3 = 11"
proof -
  let ?m = "sw_args 0x80001000 0x80101234 0x80003000 0x80002000 (\<lambda>_. 0)"
  have c1: "swtch_call 0x80003000 0x80002000 (sw_regs 0x80001000, ?m)"
    using sw_args_words [of "0x80001000" "0x80101234" "0x80003000" "0x80002000" "\<lambda>_. 0"]
    by (auto simp: swtch_call_def Let_def sw_regs_def words_at_Cons intro!: apartI)
  obtain r' m' where s1: "swtch (sw_regs 0x80001000, ?m) = (r', m')" by fastforce
  let ?m2 = "sw_args 0x80005000 0x80105678 0x80006000 0x80000ff0 m'"
  obtain r3 m3 where s2: "swtch (sw_regs 0x80005000, ?m2) = (r3, m3)" by fastforce
  have o: "load32 m' 0x80003000 = 0x80000ff0" using swtch_eq [OF c1] s1 by (simp add: sw_regs_def)
  have c2: "swtch_call 0x80006000 0x80000ff0 (sw_regs 0x80005000, ?m2)"
    using sw_args_words [of "0x80005000" "0x80105678" "0x80006000" "0x80000ff0" m']
    by (auto simp: swtch_call_def Let_def sw_regs_def words_at_Cons intro!: apartI)
  let ?c = "context_at m' 0x80000ff0"
  have "words_at m' 0x80000ff0 [ctx_edi ?c, ctx_esi ?c, ctx_ebx ?c, ctx_ebp ?c, ctx_eip ?c]" by (simp add: words_at_context)
  then have "words_at ?m2 0x80000ff0 [ctx_edi ?c, ctx_esi ?c, ctx_ebx ?c, ctx_ebp ?c, ctx_eip ?c]"
    unfolding sw_args_def by (intro words_at_store) (auto intro!: apartI)
  then have "context_at ?m2 0x80000ff0 = ?c" by (simp only: words_at_context)
  with swtch_resumes [OF c1 s1 _ _ s2, of "0x80006000"] c2 o
  have "eip r3 = load32 ?m (esp (sw_regs 0x80001000)) \<and> esp r3 = esp (sw_regs 0x80001000) + 4 \<and> ebx r3 = ebx (sw_regs 0x80001000)"
    by simp
  moreover have "load32 ?m 0x80001000 = 0x80101234"
    using sw_args_words [of "0x80001000" "0x80101234" "0x80003000" "0x80002000" "\<lambda>_. 0"] by (simp add: words_at_Cons)
  ultimately show ?thesis using s1 s2 by (simp add: sw_regs_def)
qed

section \<open>A trap and its return\<close>

definition frame_words :: "nat \<Rightarrow> u32 \<Rightarrow> u32 \<Rightarrow> regs \<Rightarrow> u32 list" where
  "frame_words i err o1 r =
     [edi r, esi r, ebp r, o1, ebx r, edx r, ecx r, eax r, ucast (r_gs r), ucast (r_fs r), ucast (r_es r), ucast (r_ds r),
      of_nat i, if has_err i then err else 0, eip r, ucast (r_cs r), eflags r, esp r, ucast (r_ss r)]"

lemma vector_eq: "vector i s = pushl (of_nat i) (if has_err i then s else pushl 0 s)"
  by (simp only: vector_def has_err_def Let_def if_not_P if_P split: if_split) auto

lemma hw_trap_frame:
  "top (vector i (hw_trap i err kss kesp (r, m)))
     [of_nat i, if has_err i then err else 0, eip r, ucast (r_cs r), eflags r, esp r, ucast (r_ss r)]"
proof -
  have t: "top (r\<lparr>esp := kesp, r_ss := kss\<rparr>, m) []" by (simp add: top_def)
  show ?thesis
  proof (cases "has_err i")
    case True
    then have e: "(if has_err i then err else 0) = err" by simp
    show ?thesis unfolding e vector_eq hw_trap_def Let_def fst_conv snd_conv if_P [OF True]
      by (intro top_push t refl) simp_all
  next
    case False
    then have e: "(if has_err i then err else 0) = 0" by simp
    show ?thesis unfolding e vector_eq hw_trap_def Let_def fst_conv snd_conv if_not_P [OF False]
      by (intro top_push t refl) simp_all
  qed
qed

lemma hw_trap_regs:
  "fst (vector i (hw_trap i err kss kesp (r, m))) = r\<lparr>esp := kesp - 28, r_ss := kss\<rparr>"
  unfolding vector_eq hw_trap_def Let_def by (cases "has_err i") simp_all

lemma top_data: "top ((fst s)\<lparr>eax := a, r_ds := d, r_es := e\<rparr>, snd s) ws = top s ws"
  by (simp add: top_def)

lemma alltraps_frame:
  assumes "top (r, m) ws" "length ws \<le> 20"
  shows "top (alltraps (r, m))
    (edi r # esi r # ebp r # (esp r - 16) # ebx r # edx r # ecx r # eax r # ucast (r_gs r) # ucast (r_fs r) #
      ucast (r_es r) # ucast (r_ds r) # ws)"
  unfolding alltraps_def pushal_def Let_def case_prod_beta top_data
  by (intro top_push top_push_reg assms(1)) (use assms(2) in simp_all)

lemma alltraps_esp: "esp (fst (alltraps s)) = esp (fst s) - 48"
  by (simp add: alltraps_def pushal_def Let_def case_prod_beta)

lemma trap_frame:
  "top (alltraps (vector i (hw_trap i err kss kesp (r, m)))) (frame_words i err (kesp - 44) r)"
proof -
  obtain r1 m1 where s1: "vector i (hw_trap i err kss kesp (r, m)) = (r1, m1)" by fastforce
  have r1: "r1 = r\<lparr>esp := kesp - 28, r_ss := kss\<rparr>" using hw_trap_regs [of i err kss kesp r m] s1 by simp
  have "top (r1, m1) [of_nat i, if has_err i then err else 0, eip r, ucast (r_cs r), eflags r, esp r, ucast (r_ss r)]"
    using hw_trap_frame [of i err kss kesp r m] unfolding s1 .
  from alltraps_frame [OF this] show ?thesis unfolding s1 frame_words_def by (simp add: r1)
qed

lemma ucast_selector [simp]: "ucast (ucast (w :: u16) :: u32) = w"
  by (rule bit_word_eqI) (auto simp: bit_simps)

definition frame_of :: "nat \<Rightarrow> u32 \<Rightarrow> u32 \<Rightarrow> regs \<Rightarrow> trapframe" where
  "frame_of i err o1 r =
     \<lparr>tf_edi = edi r, tf_esi = esi r, tf_ebp = ebp r, tf_oesp = o1, tf_ebx = ebx r, tf_edx = edx r, tf_ecx = ecx r,
      tf_eax = eax r, tf_gs = r_gs r, tf_fs = r_fs r, tf_es = r_es r, tf_ds = r_ds r, tf_trapno = of_nat i,
      tf_err = (if has_err i then err else 0), tf_eip = eip r, tf_cs = r_cs r, tf_eflags = eflags r, tf_esp = esp r,
      tf_ss = r_ss r\<rparr>"

lemma trapframe_words:
  "words_at m a (frame_words i err o1 r) \<Longrightarrow> trapframe_at m a = frame_of i err o1 r"
  by (simp add: words_at_Cons frame_words_def trapframe_at_def frame_of_def ac_simps)

lemma trapret_eq:
  "fst (trapret (r, m)) =
     (let f = trapframe_at m (esp r) in
      \<lparr>eax = tf_eax f, ebx = tf_ebx f, ecx = tf_ecx f, edx = tf_edx f, esi = tf_esi f, edi = tf_edi f, ebp = tf_ebp f,
       esp = tf_esp f, eip = tf_eip f, eflags = tf_eflags f, r_cs = tf_cs f, r_ds = tf_ds f, r_es = tf_es f,
       r_fs = tf_fs f, r_gs = tf_gs f, r_ss = tf_ss f\<rparr>)"
  by (simp add: trapret_def popal_def iret_def Let_def set_reg_defs trapframe_at_def ac_simps)

text \<open>C28 [trap_entry_exit]: at a trap from user mode the processor, the generated entry point and \<open>alltraps\<close> build on the
  kernel stack exactly the \<open>struct trapframe\<close> that \<open>trap\<close> reads: the user's registers, the trap number, and the
  error code or zero. If the frame is unchanged when \<open>trap\<close> returns, \<open>trapret\<close> resumes the user program with every
  register as it was.\<close>

theorem trap_entry_exit:
  assumes "alltraps (vector i (hw_trap i err kss kesp (r, m))) = (r', m')"
  shows "esp r' = kesp - 76 \<and> trapframe_at m' (esp r') = frame_of i err (kesp - 44) r \<and>
    (esp r2 = esp r' \<and> trapframe_at m2 (esp r') = trapframe_at m' (esp r') \<longrightarrow> fst (trapret (r2, m2)) = r)"
proof -
  have "esp r' = kesp - 76"
    using alltraps_esp [of "vector i (hw_trap i err kss kesp (r, m))"] hw_trap_regs [of i err kss kesp r m] assms by simp
  moreover have f: "trapframe_at m' (esp r') = frame_of i err (kesp - 44) r"
    using trap_frame [of i err kss kesp r m] assms by (simp add: top_def trapframe_words)
  moreover have "fst (trapret (r2, m2)) = r" if "esp r2 = esp r'" "trapframe_at m2 (esp r') = trapframe_at m' (esp r')"
    using that f by (simp add: trapret_eq frame_of_def)
  ultimately show ?thesis by blast
qed

theorem trap_entry_exit_witness:
  "\<exists>r' m'. alltraps (vector 64 (hw_trap 64 0 16 0x80400000 (sw_regs 0x3000, \<lambda>_. 0))) = (r', m') \<and>
     tf_trapno (trapframe_at m' (esp r')) = 64 \<and> fst (trapret (r', m')) = sw_regs 0x3000"
proof -
  obtain r' m' where s: "alltraps (vector 64 (hw_trap 64 0 16 0x80400000 (sw_regs 0x3000, \<lambda>_. 0))) = (r', m')" by fastforce
  then show ?thesis using trap_entry_exit [OF s, of r' m'] by (auto simp: frame_of_def)
qed

end
