(* ===== verification/Bootmain.thy ===== *)
theory Bootmain
  imports Mp
begin

text \<open>
  The boot loader (\<open>bootmain.c\<close>, with the headers of \<open>elf.h\<close> and the instructions of \<open>x86.h\<close> it uses). The disk is
  a function \<open>dsk\<close> from sector numbers to their 512 bytes; \<open>st k\<close> is what the status port delivers at its \<open>k\<close>-th read.
  A loop that does not end is \<open>None\<close>.
\<close>

section \<open>Reading sectors\<close>

definition SECTSIZE :: u32 where [simp, const_defs]: "SECTSIZE = 512"

partial_function (option) waitdisk :: "(nat \<Rightarrow> u8) \<Rightarrow> nat \<Rightarrow> nat option" where
  "waitdisk st n = (if st n AND 0xC0 \<noteq> 0x40 then waitdisk st (n + 1) else Some (n + 1))"

declare waitdisk.simps [code]

text \<open>The bytes \<open>readsect\<close> writes to ports, and the sector number the controller takes from them.\<close>

definition read_command :: "u32 \<Rightarrow> (u16 \<times> u8) list" where
  "read_command offset =
     [(0x1F2, 1), (0x1F3, ucast offset), (0x1F4, ucast (drop_bit 8 offset)), (0x1F5, ucast (drop_bit 16 offset)),
      (0x1F6, ucast (drop_bit 24 offset OR 0xE0)), (0x1F7, 0x20)]"

definition ata_lba :: "(u16 \<times> u8) list \<Rightarrow> u32" where
  "ata_lba cmd =
     (let port = (\<lambda>p. ucast (the (map_of cmd p)) :: u32) in
      port 0x1F3 OR push_bit 8 (port 0x1F4) OR push_bit 16 (port 0x1F5) OR push_bit 24 (port 0x1F6 AND 0xF))"

text \<open>\<open>insl\<close>: \<open>cnt\<close> words from the data port, whose bytes are \<open>d\<close>.\<close>

fun insl :: "u8 list \<Rightarrow> u32 \<Rightarrow> nat \<Rightarrow> memory \<Rightarrow> memory" where
  "insl d addr 0 m = m"
| "insl d addr (Suc cnt) m =
     insl (drop 4 d) (addr + 4) cnt (m(addr := d ! 0, addr + 1 := d ! 1, addr + 2 := d ! 2, addr + 3 := d ! 3))"

definition readsect :: "(nat \<Rightarrow> u8) \<Rightarrow> (u32 \<Rightarrow> u8 list) \<Rightarrow> u32 \<Rightarrow> u32 \<Rightarrow> memory \<times> nat \<Rightarrow> (memory \<times> nat) option" where
  "readsect st dsk dst offset = (\<lambda>(m, n).
     Option.bind (waitdisk st n) (\<lambda>n.
     let cmd = read_command offset in
     Option.bind (waitdisk st n) (\<lambda>n.
     Some (insl (dsk (ata_lba cmd)) dst (unat (SECTSIZE div 4)) m, n))))"

partial_function (option) readseg_loop ::
  "(nat \<Rightarrow> u8) \<Rightarrow> (u32 \<Rightarrow> u8 list) \<Rightarrow> u32 \<Rightarrow> u32 \<Rightarrow> u32 \<Rightarrow> memory \<times> nat \<Rightarrow> (memory \<times> nat) option" where
  "readseg_loop st dsk pa epa offset mn =
     (if pa < epa then
        Option.bind (readsect st dsk pa offset mn) (\<lambda>mn.
        readseg_loop st dsk (pa + SECTSIZE) epa (offset + 1) mn)
      else Some mn)"

declare readseg_loop.simps [code]

definition readseg :: "(nat \<Rightarrow> u8) \<Rightarrow> (u32 \<Rightarrow> u8 list) \<Rightarrow> u32 \<Rightarrow> u32 \<Rightarrow> u32 \<Rightarrow> memory \<times> nat \<Rightarrow> (memory \<times> nat) option" where
  "readseg st dsk pa count offset mn =
     (let epa = pa + count;
          pa = pa - offset mod SECTSIZE;
          offset = offset div SECTSIZE + 1 in
      readseg_loop st dsk pa epa offset mn)"

section \<open>Loading the kernel\<close>

partial_function (option) boot_segs ::
  "(nat \<Rightarrow> u8) \<Rightarrow> (u32 \<Rightarrow> u8 list) \<Rightarrow> u32 \<Rightarrow> u32 \<Rightarrow> memory \<times> nat \<Rightarrow> (memory \<times> nat) option" where
  "boot_segs st dsk ph eph mn =
     (if ph < eph then
        let pa = load32 (fst mn) (ph + 12) in
        Option.bind (readseg st dsk pa (load32 (fst mn) (ph + 16)) (load32 (fst mn) (ph + 4)) mn) (\<lambda>mn.
        let filesz = load32 (fst mn) (ph + 16); memsz = load32 (fst mn) (ph + 20) in
        boot_segs st dsk (ph + 32) eph
          (if memsz > filesz then (stosb (fst mn) (pa + filesz) 0 (unat (memsz - filesz)), snd mn) else mn))
      else Some mn)"

declare boot_segs.simps [code]

text \<open>The entry point that is called, with the memory, or \<open>Some None\<close> if \<open>bootmain\<close> returns to \<open>bootasm.S\<close>.\<close>

definition bootmain :: "(nat \<Rightarrow> u8) \<Rightarrow> (u32 \<Rightarrow> u8 list) \<Rightarrow> memory \<times> nat \<Rightarrow> (u32 \<times> memory) option option" where
  "bootmain st dsk mn =
     (let elf = 0x10000 in
      Option.bind (readseg st dsk elf 4096 0 mn) (\<lambda>mn.
      if load32 (fst mn) elf \<noteq> 0x464C457F then Some None
      else
        let ph = elf + load32 (fst mn) (elf + 28);
            eph = ph + 32 * ucast (load16 (fst mn) (elf + 44)) in
        Option.bind (boot_segs st dsk ph eph mn) (\<lambda>mn.
        Some (Some (load32 (fst mn) (elf + 24), fst mn)))))"

section \<open>What the loader puts into memory\<close>

lemma insl_apply:
  "4 * n \<le> length d \<Longrightarrow> 4 * n \<le> 2 ^ 32 \<Longrightarrow>
     insl d a n m = (\<lambda>x. if in_range a (4 * n) x then d ! unat (x - a) else m x)"
proof (induction n arbitrary: d a m)
  case 0
  then show ?case by (simp add: in_range_def)
next
  case (Suc n)
  let ?m = "m(a := d ! 0, a + 1 := d ! 1, a + 2 := d ! 2, a + 3 := d ! 3)"
  have IH: "insl (drop 4 d) (a + 4) n ?m = (\<lambda>x. if in_range (a + 4) (4 * n) x then drop 4 d ! unat (x - (a + 4)) else ?m x)"
    using Suc.prems by (intro Suc.IH) simp_all
  show ?case
  proof
    fix x
    show "insl d a (Suc n) m x = (if in_range a (4 * Suc n) x then d ! unat (x - a) else m x)"
    proof (cases "unat (x - a) < 4")
      case True
      then have "x - a = 0 \<or> x - a = 1 \<or> x - a = 2 \<or> x - a = 3"
        by (auto simp: word_unat_eq_iff)
      then have x: "x = a \<or> x = a + 1 \<or> x = a + 2 \<or> x = a + 3" by (auto simp: algebra_simps)
      have "\<not> in_range (a + 4) (4 * n) x"
        using x Suc.prems(2) by (auto simp: in_range_def unsigned_minus_1_eq_mask mask_eq_exp_minus_1)
      with x True show ?thesis unfolding insl.simps IH by (auto simp: in_range_def)
    next
      case False
      have "unat (x - (a + 4)) = unat (x - a) - 4"
        using False unat_sub [of 4 "x - a"] by (simp add: word_le_nat_alt diff_diff_add)
      moreover have "?m x = m x" using False by auto
      ultimately show ?thesis unfolding insl.simps IH using False Suc.prems by (auto simp: in_range_def)
    qed
  qed
qed

definition disk_byte :: "(u32 \<Rightarrow> u8 list) \<Rightarrow> nat \<Rightarrow> u8" where
  "disk_byte dsk k = dsk (of_nat (k div 512)) ! (k mod 512)"

lemma ata_lba_read_command:
  assumes "unat offset < 2 ^ 28"
  shows "ata_lba (read_command offset) = offset"
proof (rule bit_word_eqI)
  fix n assume n: "n < LENGTH(32)"
  have hi: "\<not> bit offset n" if "28 \<le> n"
  proof -
    have "take_bit 28 (unat offset) = unat offset" using assms by (simp add: take_bit_nat_eq_self_iff)
    then have "bit (unat offset) n = (n < 28 \<and> bit (unat offset) n)" by (metis bit_take_bit_iff)
    with that show ?thesis by (simp add: bit_unsigned_iff)
  qed
  have lo: "\<not> bit (0xE0 :: u32) k" if "k < 4" for k
  proof -
    have "k = 0 \<or> k = 1 \<or> k = 2 \<or> k = 3" using that by linarith
    then show ?thesis by (elim disjE) simp_all
  qed
  have F: "(0xF :: u32) = mask 4" by (simp add: mask_eq_exp_minus_1)
  have e: "ata_lba (read_command offset) =
    ucast (ucast offset :: u8) OR push_bit 8 (ucast (ucast (drop_bit 8 offset) :: u8)) OR
    push_bit 16 (ucast (ucast (drop_bit 16 offset) :: u8)) OR
    push_bit 24 (ucast (ucast (drop_bit 24 offset OR 0xE0) :: u8) AND mask 4)"
    by (simp add: ata_lba_def read_command_def Let_def F)
  from n consider "n < 8" | "8 \<le> n \<and> n < 16" | "16 \<le> n \<and> n < 24" | "24 \<le> n \<and> n < 28" | "28 \<le> n \<and> n < 32" by fastforce
  then show "bit (ata_lba (read_command offset)) n = bit offset n"
    unfolding e by cases (use hi lo [of "n - 24"] in \<open>auto simp: bit_simps\<close>)
qed

lemma waitdisk_ready:
  assumes "st k AND 0xC0 = 0x40" "n \<le> k"
  shows "\<exists>n'. waitdisk st n = Some n'"
  using assms(2)
proof (induction "k - n" arbitrary: n)
  case 0
  then show ?case using assms(1) by (subst waitdisk.simps) simp
next
  case (Suc d)
  then have "\<exists>n'. waitdisk st (n + 1) = Some n'" by (intro Suc.hyps(1)) simp_all
  then show ?case by (subst waitdisk.simps) simp
qed

text \<open>The disk becomes ready again and again, and its sectors have 512 bytes.\<close>

definition disk_works :: "(nat \<Rightarrow> u8) \<Rightarrow> (u32 \<Rightarrow> u8 list) \<Rightarrow> bool" where
  "disk_works st dsk \<longleftrightarrow> (\<forall>n. \<exists>k \<ge> n. st k AND 0xC0 = 0x40) \<and> (\<forall>b. length (dsk b) = 512)"

lemma waitdisk_works: "disk_works st dsk \<Longrightarrow> \<exists>n'. waitdisk st n = Some n'"
  using waitdisk_ready unfolding disk_works_def by blast

lemma readsect_ok:
  assumes "disk_works st dsk" "unat offset < 2 ^ 28"
  shows "\<exists>n'. readsect st dsk dst offset (m, n) =
    Some (\<lambda>x. if in_range dst 512 x then dsk offset ! unat (x - dst) else m x, n')"
proof -
  obtain n1 n2 where "waitdisk st n = Some n1" "waitdisk st n1 = Some n2" using waitdisk_works [OF assms(1)] by metis
  moreover have "insl (dsk offset) dst 128 m = (\<lambda>x. if in_range dst 512 x then dsk offset ! unat (x - dst) else m x)"
    using insl_apply [of 128 "dsk offset" dst m] assms(1) by (simp add: disk_works_def)
  ultimately show ?thesis using assms(2) by (simp add: readsect_def ata_lba_read_command)
qed

lemma in_range_next:
  assumes "512 * Suc N \<le> (2 :: nat) ^ 32"
  shows "in_range pa (512 * Suc N) x \<longleftrightarrow> in_range pa 512 x \<or> in_range (pa + 512) (512 * N) x"
    and "in_range (pa + 512) (512 * N) x \<Longrightarrow> \<not> in_range pa 512 x \<and> unat (x - pa) = unat (x - (pa + 512)) + 512"
proof -
  have big: "unat (x - (pa + 512)) = unat (x - pa) - 512" if "512 \<le> unat (x - pa)"
    using that unat_sub [of 512 "x - pa"] by (simp add: word_le_nat_alt diff_diff_add)
  have wrap: "unat (x - (pa + 512)) = unat (x - pa) + 2 ^ 32 - 512" if "unat (x - pa) < 512"
  proof -
    have "x - (pa + 512) = (x - pa) - 512" by simp
    then show ?thesis using that by (simp only: unat_sub_if') (simp add: word_le_nat_alt)
  qed
  show "in_range pa (512 * Suc N) x \<longleftrightarrow> in_range pa 512 x \<or> in_range (pa + 512) (512 * N) x"
    using big wrap assms unfolding in_range_def by (cases "unat (x - pa) < 512") auto
  show "\<not> in_range pa 512 x \<and> unat (x - pa) = unat (x - (pa + 512)) + 512" if "in_range (pa + 512) (512 * N) x"
    using that big wrap assms unfolding in_range_def by (cases "unat (x - pa) < 512") auto
qed

lemma div512: "(k + 512) div 512 = Suc (k div 512)" "(512 + k) div 512 = Suc (k div 512)" for k :: nat
  by simp_all

lemma readseg_loop_ok:
  assumes "disk_works st dsk" "unat pa + 512 * N \<le> 2 ^ 32 - 512" "unat offset + N \<le> 2 ^ 28"
    "N = (unat epa - unat pa + 511) div 512"
  shows "\<exists>m' n'. readseg_loop st dsk pa epa offset (m, n) = Some (m', n') \<and>
    m' = (\<lambda>x. if in_range pa (512 * N) x then dsk (offset + of_nat (unat (x - pa) div 512)) ! (unat (x - pa) mod 512) else m x)"
  using assms(2-)
proof (induction N arbitrary: pa offset m n)
  case 0
  then have "\<not> pa < epa" by (auto simp: word_less_nat_alt)
  then show ?case by (subst readseg_loop.simps) (simp add: in_range_def)
next
  case (Suc N)
  have lt: "pa < epa" using Suc.prems(3) by (auto simp: word_less_nat_alt intro: ccontr)
  have u: "unat (pa + 512) = unat pa + 512" using Suc.prems(1) by (simp add: unat_word_ariths)
  have o: "unat (offset + 1) = unat offset + 1" using Suc.prems(2) by (simp add: unat_word_ariths)
  let ?m = "\<lambda>x. if in_range pa 512 x then dsk offset ! unat (x - pa) else m x"
  obtain n1 where n1: "readsect st dsk pa offset (m, n) = Some (?m, n1)"
    using readsect_ok [OF assms(1), of offset pa m n] Suc.prems(2) by auto
  have "N = (unat epa - unat (pa + 512) + 511) div 512" using Suc.prems(3) u by linarith
  then obtain m' n' where IH: "readseg_loop st dsk (pa + 512) epa (offset + 1) (?m, n1) = Some (m', n')"
    "m' = (\<lambda>x. if in_range (pa + 512) (512 * N) x
       then dsk (offset + 1 + of_nat (unat (x - (pa + 512)) div 512)) ! (unat (x - (pa + 512)) mod 512) else ?m x)"
    using Suc.IH [of "pa + 512" "offset + 1" ?m n1] Suc.prems(1,2) u o by auto
  have N: "512 * Suc N \<le> (2 :: nat) ^ 32" using Suc.prems(1) by simp
  have "m' x = (if in_range pa (512 * Suc N) x then dsk (offset + of_nat (unat (x - pa) div 512)) ! (unat (x - pa) mod 512) else m x)" for x
    using in_range_next [OF N, of pa x] unfolding IH(2) by (auto simp: in_range_def [of pa 512] div512 algebra_simps)
  moreover have "readseg_loop st dsk pa epa offset (m, n) = Some (m', n')"
    using lt n1 IH(1) by (subst readseg_loop.simps) simp
  ultimately show ?case by blast
qed

lemma unat_plus_small: "unat a + i < 2 ^ 32 \<Longrightarrow> unat (a + of_nat i) = unat a + i" for a :: u32
  by (simp add: unat_word_ariths unat_of_nat)

lemma sector_index:
  fixes f i :: nat
  shows "(512 + f + i) div 512 = f div 512 + 1 + (f mod 512 + i) div 512" "(512 + f + i) mod 512 = (f mod 512 + i) mod 512"
proof -
  have e: "512 + f + i = 512 * (f div 512 + 1) + (f mod 512 + i)" by simp
  have "(512 * a + b) div 512 = a + b div 512" "(512 * a + b) mod 512 = b mod 512" for a b :: nat by simp_all
  then show "(512 + f + i) div 512 = f div 512 + 1 + (f mod 512 + i) div 512" "(512 + f + i) mod 512 = (f mod 512 + i) mod 512"
    unfolding e by metis+
qed

text \<open>C31 [readseg_loads]: on a disk that keeps becoming ready, \<open>readseg(pa, count, offset)\<close> returns, and the \<open>count\<close> bytes at
  \<open>pa\<close> are those of the kernel image from \<open>offset\<close> on, where the image starts at sector 1. Up to a sector before and
  after may be overwritten, nothing else.\<close>

theorem readseg_loads:
  assumes "disk_works st dsk" "unat (offset mod 512) \<le> unat pa" "unat pa + unat count + 1024 \<le> 2 ^ 32"
  shows "\<exists>m' n'. readseg st dsk pa count offset (m, n) = Some (m', n') \<and>
    (i < unat count \<longrightarrow> m' (pa + of_nat i) = disk_byte dsk (512 + unat offset + i)) \<and>
    (unat x + unat (offset mod 512) < unat pa \<or> unat pa + unat count + 511 \<le> unat x \<longrightarrow> m' x = m x)"
proof -
  let ?r = "offset mod 512" and ?pa = "pa - offset mod 512" and ?epa = "pa + count" and ?o = "offset div 512 + 1"
  let ?N = "(unat count + unat ?r + 511) div 512"
  have r: "unat ?r = unat offset mod 512" "unat ?r < 512" by (simp_all add: unat_mod)
  have upa: "unat ?pa = unat pa - unat ?r" using assms(2) by (simp add: unat_sub word_le_nat_alt)
  have uepa: "unat ?epa = unat pa + unat count" using assms(3) by (simp add: unat_word_ariths)
  have q: "unat offset div 512 < 2 ^ 23" using unsigned_less [of offset, where 'a = nat] by (simp add: div_less_iff_less_mult)
  have uo: "unat ?o = unat offset div 512 + 1" using q by (simp add: unat_word_ariths unat_div)
  have N: "?N = (unat ?epa - unat ?pa + 511) div 512" using upa uepa assms(2) by (simp add: algebra_simps)
  have le: "512 * ?N \<le> unat count + unat ?r + 511" by simp
  have p1: "unat ?pa + 512 * ?N \<le> 2 ^ 32 - 512" using le upa assms(2,3) by linarith
  have "?N \<le> 2 ^ 24" using assms(3) r(2) by simp
  then have p2: "unat ?o + ?N \<le> 2 ^ 28" unfolding uo using q by simp
  obtain m' n' where m': "readseg_loop st dsk ?pa ?epa ?o (m, n) = Some (m', n')"
    "m' = (\<lambda>x. if in_range ?pa (512 * ?N) x then dsk (?o + of_nat (unat (x - ?pa) div 512)) ! (unat (x - ?pa) mod 512) else m x)"
    using readseg_loop_ok [OF assms(1) p1 p2 N, of m n] by blast
  have "m' (pa + of_nat i) = disk_byte dsk (512 + unat offset + i)" if i: "i < unat count"
  proof -
    have e: "pa + of_nat i - ?pa = ?r + of_nat i" by simp
    have u: "unat (pa + of_nat i - ?pa) = unat ?r + i"
      unfolding e using i assms(3) r(2) by (intro unat_plus_small) linarith
    have "unat ?r + i < 512 * ?N" using i by linarith
    moreover have "?o + of_nat k = of_nat (unat offset div 512 + 1 + k)" for k
      unfolding uo [symmetric] by simp
    ultimately show ?thesis unfolding m'(2) disk_byte_def in_range_def u sector_index r(1) by (simp add: ac_simps)
  qed
  moreover have "m' x = m x" if "unat x + unat ?r < unat pa \<or> unat pa + unat count + 511 \<le> unat x"
  proof -
    have "unat x < unat ?pa \<or> unat ?pa + 512 * ?N \<le> unat x" using that le upa assms(2) by linarith
    moreover have "unat ?pa + 512 * ?N \<le> 2 ^ 32" using p1 by simp
    ultimately show ?thesis unfolding m'(2) using outside_range by presburger
  qed
  ultimately show ?thesis using m'(1) by (auto simp: readseg_def Let_def)
qed

theorem readseg_loads_witness:
  "\<exists>m' n'. readseg (\<lambda>_. 0x50) (\<lambda>b. replicate 512 (ucast b)) 0x100000 0x1000 0x1234 (\<lambda>_. 0, 0) = Some (m', n') \<and> m' 0x100000 = 10"
proof -
  have "disk_works (\<lambda>_. 0x50) (\<lambda>b. replicate 512 (ucast b))" by (auto simp: disk_works_def)
  from readseg_loads [OF this, of "0x1234" "0x100000" "0x1000" "\<lambda>_. 0" 0 0 0]
  show ?thesis by (auto simp: disk_byte_def)
qed

end
