(* ===== verification/Spec2Isabelle.thy ===== *)
theory Spec2Isabelle
  imports Trap Uprog Umalloc Mkfs Kmain Swtch Bootmain
begin

text \<open>
  \<^bold>\<open>The xv6 kernel with demand-paged swapping.\<close>

  The program is a teaching kernel for x86 with several processors, extended by a page
  replacement layer that keeps at most sixteen pages of a process in memory and the others in
  a swap file. A shallow embedding: every C function of a modelled component is a HOL function
  of (almost) the same name.

  \<^bold>\<open>State and outcomes.\<close> All global variables of the kernel are the record \<open>kernel\<close> of
  theory \<open>Kstate\<close>; physical memory, page tables and the allocator's free list are bytes of the
  field \<open>mem\<close>; pointers into fixed tables are indices. A routine returns a value of type
  \<open>res\<close> (theory \<open>Prelude\<close>): \<open>Ok\<close>, \<open>Panic\<close> (\<open>panic()\<close>), \<open>Undef\<close> (an access C leaves undefined),
  \<open>Hang\<close> (a loop that does not end), or \<open>Block s\<close> (the process gives up the processor in
  state \<open>s\<close>). The kernel is seen from one processor: theory \<open>Spinlock\<close> models the spin lock
  with its atomic exchange on any number of processors, proves mutual exclusion for every
  interleaving, and shows that the view the other components use refines it. A routine that
  sleeps is cut at the call; \<open>sleep_wake\<close>, \<open>sys_sleep_loop\<close>, \<open>ide_wait\<close>, \<open>scheduler_back\<close> and
  \<open>trap_resume\<close> are what follows the switch back.

  \<^bold>\<open>Theories and sources.\<close>
  \<^item> \<open>Prelude\<close>, \<open>Mmu\<close> (\<open>mmu.h\<close>, \<open>memlayout.h\<close>, \<open>param.h\<close>), \<open>Cmem\<close> (\<open>memset\<close>, \<open>memmove\<close>,
    \<open>memcmp\<close> of \<open>string.c\<close>), \<open>Bytes\<close> (little-endian fields of a disk block), \<open>Cstring\<close> (strings of
    \<open>string.c\<close> and \<open>ulib.c\<close>).
  \<^item> \<open>Spinlock\<close> (\<open>spinlock.c\<close>), \<open>Kalloc\<close> (\<open>kalloc.c\<close>), \<open>Ptable\<close> (sleeping and waking of
    \<open>proc.c\<close>, \<open>sleeplock.c\<close>).
  \<^item> \<open>Bio\<close> (\<open>bio.c\<close>, \<open>memide.c\<close>), \<open>Ide\<close> (\<open>ide.c\<close>), \<open>Log\<close> (\<open>log.c\<close>), \<open>Inode\<close> and \<open>Fs\<close> (\<open>fs.c\<close>),
    \<open>File\<close> (\<open>file.c\<close>, \<open>pipe.c\<close>).
  \<^item> \<open>Console\<close> (\<open>console.c\<close>, output of \<open>uart.c\<close>, \<open>procdump\<close>), \<open>Kbd\<close> (\<open>kbd.c\<close>, input of \<open>uart.c\<close>).
  \<^item> \<open>Pgtable\<close> and \<open>Uvm\<close> (\<open>vm.c\<close>), \<open>Paging\<close> (the queues and replacement policies of \<open>proc.c\<close>),
    \<open>Swap\<close> (swap files of \<open>fs.c\<close>, \<open>create\<close> and unlinking of \<open>sysfile.c\<close>).
  \<^item> \<open>Proc\<close> (\<open>proc.c\<close>), \<open>Exec\<close> (\<open>exec.c\<close>), \<open>Syscall\<close> (\<open>syscall.c\<close>, \<open>sysproc.c\<close>, \<open>sysfile.c\<close>),
    \<open>Trap\<close> (\<open>trap.c\<close>).
  \<^item> The machine below the kernel: \<open>Segments\<close> (segments, task state and gates of \<open>mmu.h\<close>, \<open>seginit\<close>, \<open>switchuvm\<close>,
    \<open>tvinit\<close>), \<open>Swtch\<close> (\<open>swtch.S\<close>, \<open>trapasm.S\<close>, \<open>vectors.pl\<close> as functions on registers and memory), \<open>Mp\<close> (\<open>mp.c\<close>),
    \<open>Apic\<close> (\<open>lapic.c\<close>, \<open>ioapic.c\<close>, \<open>picirq.c\<close>; what is written to the hardware is a list of events, what is read
    from it is an argument), \<open>Bootmain\<close> (\<open>bootmain.c\<close>), \<open>Kmain\<close> (\<open>main.c\<close>, which composes
    the initialisation of all the components).
  \<^item> \<open>Umalloc\<close> (\<open>umalloc.c\<close>) and \<open>Mkfs\<close> (\<open>mkfs.c\<close>, on a map of sectors).
  \<^item> User programs: \<open>Shell\<close> (the parser of \<open>sh.c\<close>), \<open>Grep\<close> (\<open>grep.c\<close> and \<open>wc.c\<close> on their input),
    \<open>Uprog\<close> (\<open>printf.c\<close>, the execution of commands and the main loop of \<open>sh.c\<close>, \<open>init.c\<close>, and the utilities, as
    trees of system calls with a branch for every reply; \<open>Uprog.execs\<close> gives the calls of \<open>exec\<close> they reach with
    their descriptors).

  \<^bold>\<open>What the lemmas show.\<close>
  \<^item> \<open>Spinlock\<close>: mutual exclusion, nesting of \<open>pushcli\<close> and \<open>popcli\<close>, the refinement.
  \<^item> \<open>Cmem\<close>, \<open>Cstring\<close>: \<open>memset\<close> and \<open>memmove\<close> against reference definitions, bounds and round
    trips of the string functions.
  \<^item> \<open>Kalloc\<close>: the free list and the pages in use are a partition of the managed pages under every
    sequence of calls, through the locale \<open>page_allocator\<close>.
  \<^item> \<open>Bio\<close>: the invariant of the linked buffer list; the contract of the cache is the locale
    \<open>block_cache\<close>, interpreted on \<open>bread\<close>, \<open>bwrite\<close> and \<open>brelse\<close>: what a reader of a block sees, which blocks are
    pinned, and which writes reach the disk.
  \<^item> \<open>Log\<close>: over that contract, the disk writes of \<open>commit\<close> are computed exactly, and a stop after
    any of them followed by recovery yields the old or the new contents of every block.
  \<^item> \<open>Paging\<close>: both array queues are instances of the locale \<open>page_queue\<close> (first in, first out);
    second chance and ageing choose the page they should when sixteen pages are resident; swap
    slots are never handed out twice; with fewer resident pages the selection reads outside
    the array.
  \<^item> \<open>Shell\<close>, \<open>Grep\<close>, \<open>Uprog\<close>: the shell's parser ends, and reads back printed commands; a
    typed pipeline is wired correctly; the matcher of \<open>grep\<close> against a declarative meaning of patterns; lines and
    words counted and printed whatever the cuts between reads; \<open>printf\<close> and \<open>atoi\<close>.
  \<^item> \<open>File\<close>: a pipe is a queue of bytes. \<open>Console\<close>: output never leaves the screen memory. \<open>Syscall\<close>: user
    pointers are checked without wrap-around. \<open>Proc\<close>: the scheduler runs every process that stays runnable,
    the tables keep their sizes, and \<open>kill(0)\<close> marks a free entry.
  \<^item> \<open>Segments\<close>, \<open>Swtch\<close>: user code can call only the gate of the system call; a trap builds exactly
    the frame that the kernel reads and restores every register; a context switch resumes where it left off.
  \<^item> \<open>Mp\<close>, \<open>Bootmain\<close>, \<open>Apic\<close>: the processors found by \<open>mpinit\<close>, and the table on which it does not end; the bytes that
    the boot loader puts into memory; the reading of the clock. \<open>Kmain\<close>: the interrupts that
    are enabled at the end of the initialisation, and the mappings of the boot page table.
  \<^item> \<open>Umalloc\<close>, \<open>Mkfs\<close>: the first block of a process, and the request that wraps around; the bitmap and the super
    block of a new image as the kernel reads them.

  \<^bold>\<open>Bounds.\<close> Loops over a fixed table are recursion on its index; the other loops have a
  termination proof, or are a \<open>partial_function\<close> with \<open>None\<close> for a loop that does not end: \<open>count_free\<close> is shown to return on a
  well formed free list, \<open>mp_scan\<close> and \<open>readseg_loop\<close> on ranges that do not wrap, \<open>waitdisk\<close> and \<open>cmos_loop\<close> on hardware
  that becomes ready; \<open>mp_entries\<close> is shown not to return on an unknown entry. The parser of the shell has a bound of
  three calls per character and three more, shown to be enough; the endless loops of user programs
  take a number of rounds. The walk to the end of the disk queue takes at most as many steps as there are buffers.

  \<^bold>\<open>Not modelled.\<close> The real-mode part of the boot code and the entry stubs (\<open>bootasm.S\<close>, \<open>entry.S\<close>, \<open>entryother.S\<close>,
  \<open>initcode.S\<close>, \<open>usys.S\<close>), and the test programs (\<open>usertests.c\<close>, \<open>forktest.c\<close>,
  \<open>stressfs.c\<close>, \<open>myMemTest.c\<close>, \<open>zombie.c\<close>), which exercise the system calls from outside. A page fault of the kernel itself on a user address is \<open>Undef\<close>: the handler
  \<open>pgflt\<close> is entered from user mode only.
\<close>

end
